(* ===== verification/Prelude.thy ===== *)
theory Prelude
  imports Main "HOL-Library.Word"
begin

text \<open>
  What the components share: the C integer types at the width they have in the code, the
  faults by which an operation of the code leaves its defined behaviour, results as sums with
  their sequencing operator, and generic facts on lists and words.

  A machine integer is a word of its width. An unsigned type is read with \<open>unat\<close>, a signed one
  (\<open>int\<close>, \<open>loff_t\<close>, \<open>ssize_t\<close>) with \<open>sint\<close>; conversions between widths are \<open>ucast\<close> (zero
  extension or truncation) and \<open>scast\<close> (sign extension), as the C conversions of the target
  (LP64, two's complement) do. Signed arithmetic wraps: the kernel is built that way.
\<close>

section \<open>Types\<close>

type_synonym byte = char
type_synonym u8 = "8 word"
type_synonym u32 = "32 word"
type_synonym u64 = "64 word"
type_synonym s32 = "32 word"
type_synonym s64 = "64 word"

abbreviation (input) newline :: byte where
  "newline \<equiv> CHR 0x0A"

abbreviation (input) carriage_return :: byte where
  "carriage_return \<equiv> CHR 0x0D"

abbreviation (input) nul :: byte where
  "nul \<equiv> CHR 0x00"

text \<open>
  The ways in which an operation leaves the behaviour the language defines. A theorem that an
  operation yields \<open>Inr\<close> says that none of them happens.
\<close>

datatype fault =
    NullDeref        \<comment> \<open>access through a null (or zero-size) pointer\<close>
  | UseAfterFree     \<comment> \<open>access to a block that was freed\<close>
  | DoubleFree       \<comment> \<open>\<open>kfree\<close> of a block that was freed\<close>
  | BadFree          \<comment> \<open>\<open>kfree\<close> of something that was never allocated\<close>
  | OutOfBounds      \<comment> \<open>access outside an object\<close>
  | UninitRead       \<comment> \<open>use of a local variable that was never assigned\<close>
  | UserFault        \<comment> \<open>direct access of the kernel to user memory that it may not touch\<close>

section \<open>Results\<close>

text \<open>An operation that may fault has a result in \<open>fault + 'a\<close>; \<open>bnd\<close> runs the next step unless
  the first one faulted.\<close>

fun bnd :: "'e + 'a \<Rightarrow> ('a \<Rightarrow> 'e + 'b) \<Rightarrow> 'e + 'b" where
  "bnd (Inl e) f = Inl e"
| "bnd (Inr x) f = f x"

named_theorems bnd_iffs \<open>when a computation gives a result, and when a fault\<close>

lemma bnd_eq_Inr_iff [bnd_iffs]: "bnd m f = Inr y \<longleftrightarrow> (\<exists>x. m = Inr x \<and> f x = Inr y)"
  by (cases m) auto

lemma bnd_eq_Inl_iff [bnd_iffs]: "bnd m f = Inl e \<longleftrightarrow> m = Inl e \<or> (\<exists>x. m = Inr x \<and> f x = Inl e)"
  by (cases m) auto

lemma bnd_cong [fundef_cong]:
  "m = m' \<Longrightarrow> (\<And>x. m' = Inr x \<Longrightarrow> f x = g x) \<Longrightarrow> bnd m f = bnd m' g"
  by (cases m') auto

lemma bnd_Inr_right [simp]: "bnd m Inr = m"
  by (cases m) auto

lemma bnd_assoc: "bnd (bnd m f) g = bnd m (\<lambda>x. bnd (f x) g)"
  by (cases m) auto

lemma bnd_if: "bnd (if b then m else m') f = (if b then bnd m f else bnd m' f)"
  by simp

section \<open>Lists\<close>

lemma sum_list_drop_le: "sum_list (drop k xs) \<le> (sum_list xs :: nat)"
  by (metis append_take_drop_id le_add2 sum_list_append)

lemma nth_le_sum_list: "i < length xs \<Longrightarrow> xs ! i \<le> (sum_list xs :: nat)"
  by (simp add: member_le_sum_list)

lemma take_append_drop_concat:
  "i < length xs \<Longrightarrow> concat (drop i xs) = xs ! i @ concat (drop (Suc i) xs)"
  by (metis Cons_nth_drop_Suc concat.simps(2))

lemma sum_list_take_Suc:
  "i < length xs \<Longrightarrow> sum_list (take (Suc i) xs) = sum_list (take i xs) + (xs ! i :: nat)"
  by (simp add: take_Suc_conv_app_nth)

lemma length_concat_take:
  "length (concat (take i xs)) = sum_list (take i (map length xs))"
  by (simp add: length_concat take_map)

lemma length_filter_update:
  "i < length xs \<Longrightarrow>
   length (filter P (xs[i := y])) + (if P (xs ! i) then 1 else 0) =
   length (filter P xs) + (if P y then 1 else 0)"
proof (induction xs arbitrary: i)
  case Nil
  then show ?case by simp
next
  case (Cons x xs)
  then show ?case by (cases i) (auto split: if_splits)
qed

lemma mod_eq_within:
  assumes "i mod n = j mod n" and "i \<le> j" and "j < i + n"
  shows "i = (j::nat)"
proof -
  from assms(1,2) have "n dvd j - i"
    by (metis mod_eq_dvd_iff_nat)
  moreover from assms(3) have "j - i < n"
    using assms(2) by linarith
  ultimately have "j - i = 0"
    by (metis dvd_imp_le gr0I linorder_not_less)
  with assms(2) show ?thesis by simp
qed

lemma mod_eq_near:
  assumes "i mod n = j mod n" and "i < j + n" and "j < i + n"
  shows "i = (j::nat)"
  using mod_eq_within [of i n j] mod_eq_within [of j n i] assms by (cases "i \<le> j") auto

section \<open>Words\<close>

lemma unat_of_nat_small: "n < 2 ^ LENGTH('a) \<Longrightarrow> unat (of_nat n :: 'a::len word) = n"
  by (simp add: unat_of_nat take_bit_nat_eq_self)

lemma unat_of_nat32 [simp]: "n < 4294967296 \<Longrightarrow> unat (of_nat n :: u32) = n"
  by (simp add: unat_of_nat_small)

lemma unat_of_nat64 [simp]: "n < 18446744073709551616 \<Longrightarrow> unat (of_nat n :: u64) = n"
  by (simp add: unat_of_nat_small)

lemma unat_lt32: "unat (x :: u32) < 4294967296"
  using unsigned_less [of x, where 'a = nat] by simp

lemma unat_lt64: "unat (x :: u64) < 18446744073709551616"
  using unsigned_less [of x, where 'a = nat] by simp

lemma sint_eq_unat32:
  assumes "unat (x :: u32) < 2147483648"
  shows "sint x = int (unat x)"
proof -
  from assms have "int (unat x) < 2147483648" by linarith
  then have "uint x < 2147483648" by simp
  moreover have "- (2 ^ 31) \<le> uint x"
    by (rule order_trans [OF _ uint_ge_0]) simp
  ultimately have "signed_take_bit 31 (uint x) = uint x"
    by (intro signed_take_bit_int_eq_self) simp_all
  then show ?thesis by (simp add: sint_uint)
qed

lemma sint_eq_unat64:
  assumes "unat (x :: u64) < 9223372036854775808"
  shows "sint x = int (unat x)"
proof -
  from assms have "int (unat x) < 9223372036854775808" by linarith
  then have "uint x < 9223372036854775808" by simp
  moreover have "- (2 ^ 63) \<le> uint x"
    by (rule order_trans [OF _ uint_ge_0]) simp
  ultimately have "signed_take_bit 63 (uint x) = uint x"
    by (intro signed_take_bit_int_eq_self) simp_all
  then show ?thesis by (simp add: sint_uint)
qed

lemma unat_plus_1_32: "unat (x :: u32) < 4294967295 \<Longrightarrow> unat (x + 1) = Suc (unat x)"
  by (simp add: unat_word_ariths)

lemma unat_diff_plus_1:
  "unat (i - s :: u32) < 4294967295 \<Longrightarrow> unat (i + 1 - s) = Suc (unat (i - s))"
  using unat_plus_1_32 [of "i - s"] by (simp add: algebra_simps)

lemma ucast_of_nat_64_32 [simp]: "ucast (of_nat n :: u64) = (of_nat n :: u32)"
  by (simp add: unsigned_of_nat word_of_nat_eq_iff)

lemma ucast_of_nat_32_8: "n < 256 \<Longrightarrow> ucast (of_nat n :: u32) = (of_nat n :: u8)"
  by (simp add: unsigned_of_nat take_bit_nat_eq_self)

lemma unat_mod_10: "n < 4294967296 \<Longrightarrow> unat (of_nat n mod 10 :: u32) = n mod 10"
  by (simp add: unat_mod)

lemma unat_ring_slot:
  "n < 4294967296 \<Longrightarrow> unat (ucast (of_nat n mod 10 :: u32) :: u8) = n mod 10"
proof -
  assume n: "n < 4294967296"
  have "of_nat n mod 10 = (of_nat (unat (of_nat n mod 10 :: u32)) :: u32)"
    by simp
  also have "\<dots> = of_nat (n mod 10)"
    by (simp only: unat_mod_10 [OF n])
  finally have "of_nat n mod 10 = (of_nat (n mod 10) :: u32)" .
  then show ?thesis
    by (simp add: ucast_of_nat_32_8 unat_of_nat_small)
qed

lemma scast_of_nat_32_64: "n < 2147483648 \<Longrightarrow> scast (of_nat n :: s32) = (of_nat n :: u64)"
proof -
  assume n: "n < 2147483648"
  then have u: "unat (of_nat n :: u32) = n" by simp
  then have "sint (of_nat n :: u32) = int n"
    using sint_eq_unat32 [of "of_nat n"] n by simp
  moreover have "scast (of_nat n :: s32) = (word_of_int (sint (of_nat n :: u32)) :: u64)"
    by simp
  ultimately show ?thesis by simp
qed

lemma sint_of_nat_32: "n < 2147483648 \<Longrightarrow> sint (of_nat n :: s32) = int n"
  using sint_eq_unat32 [of "of_nat n"] by simp

lemma of_nat_le_u64:
  "a < 18446744073709551616 \<Longrightarrow> b < 18446744073709551616 \<Longrightarrow>
   (of_nat a :: u64) \<le> of_nat b \<longleftrightarrow> a \<le> b"
  by (simp add: word_le_nat_alt)

lemma of_nat_less_u64:
  "a < 18446744073709551616 \<Longrightarrow> b < 18446744073709551616 \<Longrightarrow>
   (of_nat a :: u64) < of_nat b \<longleftrightarrow> a < b"
  by (simp add: word_less_nat_alt)

lemma of_nat_le_u32:
  "a < 4294967296 \<Longrightarrow> b < 4294967296 \<Longrightarrow> (of_nat a :: u32) \<le> of_nat b \<longleftrightarrow> a \<le> b"
  by (simp add: word_le_nat_alt)

lemma of_nat_eq_u32:
  "a < 4294967296 \<Longrightarrow> b < 4294967296 \<Longrightarrow> (of_nat a :: u32) = of_nat b \<longleftrightarrow> a = b"
  by (metis unat_of_nat32)

lemma ucast_of_nat_32_64: "n < 4294967296 \<Longrightarrow> ucast (of_nat n :: u32) = (of_nat n :: u64)"
  by (simp add: unsigned_of_nat take_bit_nat_eq_self)

lemma neg_of_nat_u64: "n \<le> 18446744073709551616 \<Longrightarrow> (- of_nat n :: u64) = of_nat (18446744073709551616 - n)"
  by (simp add: of_nat_diff)

lemma unat_neg_of_nat_u64:
  assumes "0 < n" and "n \<le> 18446744073709551616"
  shows "unat (- of_nat n :: u64) = 18446744073709551616 - n"
  unfolding neg_of_nat_u64 [OF assms(2)] by (rule unat_of_nat64) (use assms in simp)

lemma ucast_neg_64_32:
  assumes "n \<le> 18446744073709551616"
  shows "(ucast (- of_nat n :: u64) :: u32) = - of_nat n"
  unfolding neg_of_nat_u64 [OF assms] ucast_of_nat_64_32 using assms by (simp add: of_nat_diff)

lemma sint_word_of_int_32: "sint (word_of_int k :: s32) = signed_take_bit 31 k"
  by (simp add: sint_uint unsigned_of_int signed_take_bit_take_bit)

lemma scast_neg_32_64:
  assumes "n < 2147483648" shows "scast (- of_nat n :: s32) = (- of_nat n :: u64)"
proof -
  have "(- of_nat n :: s32) = word_of_int (- int n)" by simp
  then have "sint (- of_nat n :: s32) = signed_take_bit 31 (- int n)"
    by (simp only: sint_word_of_int_32)
  also have "\<dots> = - int n"
    by (rule signed_take_bit_int_eq_self) (use assms in simp_all)
  finally have "sint (- of_nat n :: s32) = - int n" .
  moreover have "scast (- of_nat n :: s32) = (word_of_int (sint (- of_nat n :: s32)) :: u64)"
    by simp
  ultimately show ?thesis by simp
qed

end
