(* ===== verification/Kernel_Heap.thy ===== *)
theory Kernel_Heap
  imports Prelude
begin

text \<open>
  The kernel's allocator and the string functions of C, as the driver uses them
  (\<^verbatim>\<open>kmalloc\<close>, \<^verbatim>\<open>kfree\<close>, \<^verbatim>\<open>memcpy\<close>, \<^verbatim>\<open>memset\<close>, \<^verbatim>\<open>strlen\<close>), over an explicit heap of blocks. A pointer
  names a block; a block is live, with its bytes, or freed, and a freed block is never handed
  out again, so that every use of a dangling pointer is a fault. What the environment decides
  is part of the heap and arbitrary: which allocations fail (\<open>hfail\<close>, by the number of the
  allocation) and what a fresh block contains (\<open>hjunk\<close>).

  The interface \<open>block_store\<close> at the end states what the components rely on; the heap is its
  interpretation \<open>kh\<close>.
\<close>

section \<open>Heap and operations\<close>

datatype kptr =
    NULL
  | ZERO_SIZE_PTR   \<comment> \<open>what \<^verbatim>\<open>kmalloc(0)\<close> returns: not null, not to be accessed\<close>
  | Blk nat

datatype block = Live "byte list" | Freed

record kheap =
  blocks :: "block list"
  hcount :: nat
  hfail :: "nat set"
  hjunk :: "nat \<Rightarrow> nat \<Rightarrow> byte"

text \<open>The largest request that \<^verbatim>\<open>kmalloc\<close> serves (4 MiB: 4 KiB pages, order 10).\<close>

definition KMALLOC_MAX_SIZE :: nat where
  "KMALLOC_MAX_SIZE = 4194304"

definition kmalloc :: "kheap \<Rightarrow> u64 \<Rightarrow> kptr \<times> kheap" where
  "kmalloc h n =
     (let h1 = h\<lparr>hcount := Suc (hcount h)\<rparr>; b = length (blocks h) in
      if n = 0 then (ZERO_SIZE_PTR, h1)
      else if KMALLOC_MAX_SIZE < unat n \<or> hcount h \<in> hfail h then (NULL, h1)
      else (Blk b, h1\<lparr>blocks := blocks h @ [Live (map (hjunk h b) [0..<unat n])]\<rparr>))"

definition kfree :: "kheap \<Rightarrow> kptr \<Rightarrow> fault + kheap" where
  "kfree h p = (case p of
       NULL \<Rightarrow> Inr h
     | ZERO_SIZE_PTR \<Rightarrow> Inr h
     | Blk b \<Rightarrow>
         (if b < length (blocks h) then
            (case blocks h ! b of
               Freed \<Rightarrow> Inl DoubleFree
             | Live _ \<Rightarrow> Inr (h\<lparr>blocks := (blocks h)[b := Freed]\<rparr>))
          else Inl BadFree))"

text \<open>Reading \<open>n\<close> bytes at offset \<open>off\<close>. No byte is touched when \<open>n = 0\<close>.\<close>

definition load :: "kheap \<Rightarrow> kptr \<Rightarrow> int \<Rightarrow> nat \<Rightarrow> fault + byte list" where
  "load h p off n =
     (if n = 0 then Inr []
      else case p of
        NULL \<Rightarrow> Inl NullDeref
      | ZERO_SIZE_PTR \<Rightarrow> Inl NullDeref
      | Blk b \<Rightarrow>
          (if b < length (blocks h) then
             (case blocks h ! b of
                Freed \<Rightarrow> Inl UseAfterFree
              | Live bs \<Rightarrow>
                  (if 0 \<le> off \<and> nat off + n \<le> length bs
                   then Inr (take n (drop (nat off) bs)) else Inl OutOfBounds))
           else Inl OutOfBounds))"

definition patch :: "byte list \<Rightarrow> nat \<Rightarrow> byte list \<Rightarrow> byte list" where
  "patch bs off cs = take off bs @ cs @ drop (off + length cs) bs"

definition store :: "kheap \<Rightarrow> kptr \<Rightarrow> int \<Rightarrow> byte list \<Rightarrow> fault + kheap" where
  "store h p off cs =
     (if cs = [] then Inr h
      else case p of
        NULL \<Rightarrow> Inl NullDeref
      | ZERO_SIZE_PTR \<Rightarrow> Inl NullDeref
      | Blk b \<Rightarrow>
          (if b < length (blocks h) then
             (case blocks h ! b of
                Freed \<Rightarrow> Inl UseAfterFree
              | Live bs \<Rightarrow>
                  (if 0 \<le> off \<and> nat off + length cs \<le> length bs
                   then Inr (h\<lparr>blocks := (blocks h)[b := Live (patch bs (nat off) cs)]\<rparr>)
                   else Inl OutOfBounds))
           else Inl OutOfBounds))"

definition memcpy :: "kheap \<Rightarrow> kptr \<Rightarrow> int \<Rightarrow> kptr \<Rightarrow> int \<Rightarrow> nat \<Rightarrow> fault + kheap" where
  "memcpy h dst doff src soff n = bnd (load h src soff n) (store h dst doff)"

definition memset :: "kheap \<Rightarrow> kptr \<Rightarrow> byte \<Rightarrow> nat \<Rightarrow> fault + kheap" where
  "memset h p c n = store h p 0 (replicate n c)"

definition strlen :: "kheap \<Rightarrow> kptr \<Rightarrow> fault + nat" where
  "strlen h p = (case p of
       NULL \<Rightarrow> Inl NullDeref
     | ZERO_SIZE_PTR \<Rightarrow> Inl NullDeref
     | Blk b \<Rightarrow>
         (if b < length (blocks h) then
            (case blocks h ! b of
               Freed \<Rightarrow> Inl UseAfterFree
             | Live bs \<Rightarrow>
                 (if nul \<in> set bs then Inr (length (takeWhile (\<lambda>c. c \<noteq> nul) bs))
                  else Inl OutOfBounds))
          else Inl OutOfBounds))"

section \<open>The view of the heap as a map from blocks to bytes\<close>

definition blk :: "kheap \<Rightarrow> nat \<Rightarrow> byte list option" where
  "blk h b =
     (if b < length (blocks h) then
        (case blocks h ! b of Live bs \<Rightarrow> Some bs | Freed \<Rightarrow> None) else None)"

definition is_live :: "block \<Rightarrow> bool" where
  "is_live x = (case x of Live _ \<Rightarrow> True | Freed \<Rightarrow> False)"

text \<open>How many blocks are live: the heap's census, by which leaks are counted.\<close>

definition nlive :: "kheap \<Rightarrow> nat" where
  "nlive h = length (filter is_live (blocks h))"

definition avail :: "kheap \<Rightarrow> bool" where
  "avail h \<longleftrightarrow> hfail h = {}"

lemma is_live_simps [simp]: "is_live (Live bs)" "\<not> is_live Freed"
  by (simp_all add: is_live_def)

lemma blk_SomeD: "blk h b = Some bs \<Longrightarrow> b < length (blocks h) \<and> blocks h ! b = Live bs"
  by (auto simp: blk_def split: if_splits block.splits)

lemma blk_fresh [simp]: "blk h (length (blocks h)) = None"
  by (simp add: blk_def)

lemma length_patch [simp]: "off + length cs \<le> length bs \<Longrightarrow> length (patch bs off cs) = length bs"
  by (simp add: patch_def)

lemma patch_all: "length cs = length bs \<Longrightarrow> patch bs 0 cs = cs"
  by (simp add: patch_def)

lemma patch_patch:
  assumes "off + length cs + length ds \<le> length bs"
  shows "patch (patch bs off cs) (off + length cs) ds = patch bs off (cs @ ds)"
proof (cases "length bs \<le> off")
  case True
  with assms have "length cs = 0" "length ds = 0" by arith+
  then show ?thesis by (simp add: patch_def)
next
  case False
  with assms show ?thesis
    by (simp add: patch_def min_def add.assoc add.commute add.left_commute)
qed

lemma patch_Nil [simp]: "patch bs off [] = bs"
  by (simp add: patch_def)

lemma kmalloc_Blk:
  assumes "avail h" and "0 < unat n" and "unat n \<le> KMALLOC_MAX_SIZE"
  shows "\<exists>b h' bs. kmalloc h n = (Blk b, h') \<and> blk h b = None \<and> length bs = unat n \<and>
           blk h' = (blk h)(b \<mapsto> bs) \<and> nlive h' = Suc (nlive h) \<and> avail h'"
proof -
  let ?b = "length (blocks h)" and ?bs = "map (hjunk h (length (blocks h))) [0..<unat n]"
  let ?h = "h\<lparr>hcount := Suc (hcount h), blocks := blocks h @ [Live ?bs]\<rparr>"
  have "kmalloc h n = (Blk ?b, ?h)"
    using assms by (auto simp: kmalloc_def avail_def Let_def)
  moreover have "blk ?h = (blk h)(?b \<mapsto> ?bs)"
    by (auto simp: blk_def nth_append less_Suc_eq)
  moreover have "nlive ?h = Suc (nlive h)" "avail ?h"
    using assms(1) by (simp_all add: nlive_def avail_def)
  ultimately show ?thesis
    by (intro exI [of _ ?b] exI [of _ ?h] exI [of _ ?bs]) simp
qed

lemma kmalloc_0: "kmalloc h 0 = (ZERO_SIZE_PTR, h\<lparr>hcount := Suc (hcount h)\<rparr>)"
  by (simp add: kmalloc_def Let_def)

lemma kfree_ZERO_SIZE_PTR [simp]: "kfree h ZERO_SIZE_PTR = Inr h"
  by (simp add: kfree_def)

lemma kmalloc_too_big:
  "KMALLOC_MAX_SIZE < unat n \<Longrightarrow> kmalloc h n = (NULL, h\<lparr>hcount := Suc (hcount h)\<rparr>)"
  by (auto simp: kmalloc_def Let_def)

lemma kmalloc_fails:
  "hcount h \<in> hfail h \<Longrightarrow> 0 < unat n \<Longrightarrow> kmalloc h n = (NULL, h\<lparr>hcount := Suc (hcount h)\<rparr>)"
  by (auto simp: kmalloc_def Let_def)

lemma kfree_Blk:
  assumes "blk h b = Some bs"
  shows "\<exists>h'. kfree h (Blk b) = Inr h' \<and> blk h' = (blk h)(b := None) \<and>
           Suc (nlive h') = nlive h \<and> avail h' = avail h"
proof -
  let ?h = "h\<lparr>blocks := (blocks h)[b := Freed]\<rparr>"
  note b = blk_SomeD [OF assms]
  have "kfree h (Blk b) = Inr ?h"
    using b by (simp add: kfree_def)
  moreover have "blk ?h = (blk h)(b := None)"
    using b by (auto simp: blk_def nth_list_update)
  moreover have "Suc (nlive ?h) = nlive h"
    using length_filter_update [of b "blocks h" is_live Freed] b by (simp add: nlive_def)
  ultimately show ?thesis
    by (intro exI [of _ ?h]) (simp add: avail_def)
qed

lemma kfree_Freed:
  "b < length (blocks h) \<Longrightarrow> blk h b = None \<Longrightarrow> kfree h (Blk b) = Inl DoubleFree"
  by (auto simp: kfree_def blk_def split: block.splits)

lemma kfree_NULL [simp]: "kfree h NULL = Inr h"
  by (simp add: kfree_def)

lemma load_0 [simp]: "load h p off 0 = Inr []"
  by (simp add: load_def)

lemma load_Blk:
  "blk h b = Some bs \<Longrightarrow> off + n \<le> length bs \<Longrightarrow>
   load h (Blk b) (int off) n = Inr (take n (drop off bs))"
  by (auto dest: blk_SomeD simp: load_def)

text \<open>\<^verbatim>\<open>p[n - 1]\<close>, the last byte of a block of \<open>n\<close> bytes.\<close>

lemma load_last:
  assumes "blk h b = Some bs" and "bs \<noteq> []" and "length bs \<le> KMALLOC_MAX_SIZE"
  shows "load h (Blk b) (int (unat ((of_nat (length bs) :: u64) - 1))) 1 = Inr [last bs]"
proof -
  have u: "unat (of_nat (length bs) :: u64) = length bs" using assms(3) by (simp add: KMALLOC_MAX_SIZE_def)
  then have "(of_nat (length bs) :: u64) \<noteq> 0" using assms(2) by auto
  then have "unat ((of_nat (length bs) :: u64) - 1) = length bs - 1" using u by (simp add: unat_minus_one)
  moreover have "take 1 (drop (length bs - 1) bs) = [last bs]"
    using assms(2) by (cases bs rule: rev_cases) simp_all
  ultimately show ?thesis
    using load_Blk [OF assms(1), of "length bs - 1" 1] assms(2) by (simp add: Suc_leI)
qed

lemma load_hfail [simp]: "load (h\<lparr>hfail := F\<rparr>) p off n = load h p off n"
  by (cases p) (auto simp: load_def split: block.split)

lemma load_out_of_bounds:
  "blk h b = Some bs \<Longrightarrow> 0 < n \<Longrightarrow> off < 0 \<or> length bs < nat off + n \<Longrightarrow>
   load h (Blk b) off n = Inl OutOfBounds"
  by (auto dest: blk_SomeD simp: load_def)

lemma load_NULL: "0 < n \<Longrightarrow> load h NULL off n = Inl NullDeref"
  by (simp add: load_def)

lemma store_Nil [simp]: "store h p off [] = Inr h"
  by (simp add: store_def)

lemma store_NULL: "cs \<noteq> [] \<Longrightarrow> store h NULL off cs = Inl NullDeref"
  by (simp add: store_def)

lemma store_Blk:
  assumes "blk h b = Some bs" and "off + length cs \<le> length bs"
  shows "\<exists>h'. store h (Blk b) (int off) cs = Inr h' \<and> blk h' = (blk h)(b \<mapsto> patch bs off cs) \<and>
           nlive h' = nlive h \<and> avail h' = avail h"
proof (cases "cs = []")
  case True
  with assms show ?thesis
    by (auto simp: patch_def)
next
  case False
  let ?h = "h\<lparr>blocks := (blocks h)[b := Live (patch bs off cs)]\<rparr>"
  note b = blk_SomeD [OF assms(1)]
  have "store h (Blk b) (int off) cs = Inr ?h"
    using b assms(2) False by (simp add: store_def)
  moreover have "blk ?h = (blk h)(b \<mapsto> patch bs off cs)"
    using b by (auto simp: blk_def nth_list_update)
  moreover have "nlive ?h = nlive h"
    using length_filter_update [of b "blocks h" is_live "Live (patch bs off cs)"] b
    by (simp add: nlive_def)
  ultimately show ?thesis
    by (intro exI [of _ ?h]) (simp add: avail_def)
qed

lemma strlen_Blk_0: "blk h b = Some (nul # bs) \<Longrightarrow> strlen h (Blk b) = Inr 0"
  by (auto dest: blk_SomeD simp: strlen_def)

lemma strlen_ZERO_SIZE_PTR [simp]: "strlen h ZERO_SIZE_PTR = Inl NullDeref"
  by (simp add: strlen_def)

section \<open>The interface of the heap\<close>

text \<open>
  \<open>heap_is h m k\<close>: the live blocks of \<open>h\<close> and their bytes are the map \<open>m\<close>, there are \<open>k\<close> of
  them, and no allocation is going to fail for lack of memory.
\<close>

definition heap_is :: "kheap \<Rightarrow> (nat \<Rightarrow> byte list option) \<Rightarrow> nat \<Rightarrow> bool" where
  "heap_is h m k \<longleftrightarrow> blk h = m \<and> nlive h = k \<and> avail h"

text \<open>
  The contract of an allocator with byte-addressed blocks. \<open>rep\<close> relates a heap to the map from
  live blocks to bytes and to the number of live blocks.
\<close>

locale block_store =
  fixes alloc :: "'h \<Rightarrow> u64 \<Rightarrow> kptr \<times> 'h"
    and dealloc :: "'h \<Rightarrow> kptr \<Rightarrow> fault + 'h"
    and rd :: "'h \<Rightarrow> kptr \<Rightarrow> int \<Rightarrow> nat \<Rightarrow> fault + byte list"
    and wr :: "'h \<Rightarrow> kptr \<Rightarrow> int \<Rightarrow> byte list \<Rightarrow> fault + 'h"
    and rep :: "'h \<Rightarrow> (nat \<Rightarrow> byte list option) \<Rightarrow> nat \<Rightarrow> bool"
  assumes alloc: "rep h m k \<Longrightarrow> 0 < unat sz \<Longrightarrow> unat sz \<le> KMALLOC_MAX_SIZE \<Longrightarrow>
      \<exists>b h' bs. alloc h sz = (Blk b, h') \<and> m b = None \<and> length bs = unat sz \<and>
        rep h' (m(b \<mapsto> bs)) (Suc k)"
    and dealloc: "rep h m k \<Longrightarrow> m b = Some bs \<Longrightarrow>
      \<exists>h'. dealloc h (Blk b) = Inr h' \<and> rep h' (m(b := None)) (k - 1) \<and> 0 < k"
    and rd: "rep h m k \<Longrightarrow> m b = Some bs \<Longrightarrow> off + n \<le> length bs \<Longrightarrow>
      rd h (Blk b) (int off) n = Inr (take n (drop off bs))"
    and wr: "rep h m k \<Longrightarrow> m b = Some bs \<Longrightarrow> off + length cs \<le> length bs \<Longrightarrow>
      \<exists>h'. wr h (Blk b) (int off) cs = Inr h' \<and> rep h' (m(b \<mapsto> patch bs off cs)) k"
begin

lemma wr_whole:
  assumes "rep h m k" and "m b = Some bs" and "length cs = length bs"
  shows "\<exists>h'. wr h (Blk b) 0 cs = Inr h' \<and> rep h' (m(b \<mapsto> cs)) k"
  using wr [OF assms(1,2), of 0 cs] assms(3) by (simp add: patch_all)

lemma rd_prefix:
  assumes "rep h m k" and "m b = Some bs" and "n \<le> length bs"
  shows "rd h (Blk b) 0 n = Inr (take n bs)"
  using rd [OF assms(1,2), of 0 n] assms(3) by simp

text \<open>Copying into a block is reading the one and writing the other.\<close>

lemma copy:
  assumes "rep h m k" and "m s = Some ss" and "m d = Some ds"
    and "soff + n \<le> length ss" and "doff + n \<le> length ds"
  shows "\<exists>h'. bnd (rd h (Blk s) (int soff) n) (wr h (Blk d) (int doff)) = Inr h' \<and>
           rep h' (m(d \<mapsto> patch ds doff (take n (drop soff ss)))) k"
  using rd [OF assms(1,2,4)] wr [OF assms(1,3), of doff "take n (drop soff ss)"] assms(4,5)
  by simp

text \<open>A block that is allocated, filled and released leaves the heap as it was.\<close>

lemma scratch:
  assumes "rep h m k" and "0 < unat n" and "unat n \<le> KMALLOC_MAX_SIZE" and "length cs = unat n"
  shows "\<exists>b h1 h2 h3. alloc h n = (Blk b, h1) \<and> m b = None \<and> wr h1 (Blk b) 0 cs = Inr h2 \<and>
           rep h2 (m(b \<mapsto> cs)) (Suc k) \<and> dealloc h2 (Blk b) = Inr h3 \<and> rep h3 m k"
proof -
  obtain b h1 bs where b: "alloc h n = (Blk b, h1)" "m b = None" "length bs = unat n"
    "rep h1 (m(b \<mapsto> bs)) (Suc k)"
    using alloc [OF assms(1-3)] by blast
  moreover obtain h2 where h2: "wr h1 (Blk b) 0 cs = Inr h2" "rep h2 (m(b \<mapsto> bs, b \<mapsto> cs)) (Suc k)"
    using wr_whole [OF b(4), of b bs cs] b(3) assms(4) by auto
  moreover obtain h3 where "dealloc h2 (Blk b) = Inr h3" "rep h3 (m(b := None)) k"
    using dealloc [OF h2(2), of b cs] by auto
  moreover have "m(b := None) = m"
    using b(2) by auto
  ultimately show ?thesis by auto
qed

end

interpretation kh: block_store kmalloc kfree load store heap_is
proof
  show "\<exists>b h' bs. kmalloc h n = (Blk b, h') \<and> m b = None \<and> length bs = unat n \<and>
      heap_is h' (m(b \<mapsto> bs)) (Suc k)"
    if "heap_is h m k" "0 < unat n" "unat n \<le> KMALLOC_MAX_SIZE" for h m k n
    using kmalloc_Blk [of h n] that by (auto simp: heap_is_def)
  show "\<exists>h'. kfree h (Blk b) = Inr h' \<and> heap_is h' (m(b := None)) (k - 1) \<and> 0 < k"
    if "heap_is h m k" "m b = Some bs" for h m k b bs
    using kfree_Blk [of h b bs] that by (auto simp: heap_is_def)
  show "load h (Blk b) (int off) n = Inr (take n (drop off bs))"
    if "heap_is h m k" "m b = Some bs" "off + n \<le> length bs" for h m k b bs off n
    using load_Blk [of h b bs off n] that by (simp add: heap_is_def)
  show "\<exists>h'. store h (Blk b) (int off) cs = Inr h' \<and> heap_is h' (m(b \<mapsto> patch bs off cs)) k"
    if "heap_is h m k" "m b = Some bs" "off + length cs \<le> length bs" for h m k b bs off cs
    using store_Blk [of h b bs off cs] that by (auto simp: heap_is_def)
qed

lemma heap_is_live: "heap_is h m k \<Longrightarrow> m b = Some bs \<Longrightarrow> 0 < k"
  using kh.dealloc by blast

lemma memcpy_Blk:
  assumes "heap_is h m k" and "m s = Some ss" and "m d = Some ds"
    and "soff + n \<le> length ss" and "doff + n \<le> length ds"
  shows "\<exists>h'. memcpy h (Blk d) (int doff) (Blk s) (int soff) n = Inr h' \<and>
           heap_is h' (m(d \<mapsto> patch ds doff (take n (drop soff ss)))) k"
  unfolding memcpy_def by (rule kh.copy [OF assms])

lemma memset_Blk:
  assumes "heap_is h m k" and "m b = Some bs" and "length bs = n"
  shows "\<exists>h'. memset h (Blk b) c n = Inr h' \<and> heap_is h' (m(b \<mapsto> replicate n c)) k"
  unfolding memset_def using kh.wr_whole [OF assms(1,2), of "replicate n c"] assms(3) by simp

lemma memcpy_0 [simp]: "memcpy h d doff s soff 0 = Inr h"
  by (simp add: memcpy_def)

lemma memset_0 [simp]: "memset h p c 0 = Inr h"
  by (simp add: memset_def)

lemma memset_NULL: "0 < n \<Longrightarrow> memset h NULL c n = Inl NullDeref"
  by (cases n) (simp_all add: memset_def store_NULL)

end
