(* ===== verification/Circular_Buffer.thy ===== *)
theory Circular_Buffer
  imports Kernel_Heap "HOL-Library.Signed_Division"
begin

text \<open>
  \<^verbatim>\<open>aesd-char-driver/aesd-circular-buffer.{h,c}\<close>: the ring of the last ten lines, the
  file-static \<^verbatim>\<open>tmp_entry\<close> that collects a line until its newline arrives, and every
  operation of the file. Each operation takes the heap and the structures it reads and returns
  the ones it changes, or the fault it runs into. A loop whose locals change is a function over
  a record of these locals. The tracing calls (\<^verbatim>\<open>PDEBUG\<close>) are left out; see \<^verbatim>\<open>Driver_Tracing\<close>.

  This theory holds the definitions, the termination of the loops, and what each operation
  does on one state; what the ring means is in theory \<^verbatim>\<open>Ring_Refinement\<close>.
\<close>

section \<open>Data\<close>

abbreviation (input) AESDCHAR_MAX_WRITE_OPERATIONS_SUPPORTED :: nat where
  "AESDCHAR_MAX_WRITE_OPERATIONS_SUPPORTED \<equiv> 10"

record aesd_buffer_entry =
  buffptr :: kptr
  bsize :: u64

record aesd_circular_buffer =
  entry :: "aesd_buffer_entry list"
  in_offs :: u8
  out_offs :: u8
  full :: bool
  w_abs :: u32
  start_abs :: u32
  w_char_abs :: u32
  start_char_abs :: u32

definition zero_entry :: aesd_buffer_entry where
  "zero_entry = \<lparr>buffptr = NULL, bsize = 0\<rparr>"

text \<open>The structure after \<^verbatim>\<open>memset(buffer, 0, sizeof *buffer)\<close>.\<close>

definition zero_buffer :: aesd_circular_buffer where
  "zero_buffer = \<lparr>entry = replicate AESDCHAR_MAX_WRITE_OPERATIONS_SUPPORTED zero_entry,
     in_offs = 0, out_offs = 0, full = False,
     w_abs = 0, start_abs = 0, w_char_abs = 0, start_char_abs = 0\<rparr>"

text \<open>
  \<^verbatim>\<open>buffer->entry[i]\<close>: an index past the array is a fault. The list has the ten elements
  of the array in every state the operations produce.
\<close>

definition entry_at :: "aesd_circular_buffer \<Rightarrow> nat \<Rightarrow> fault + aesd_buffer_entry" where
  "entry_at buf i = 
     (if i < AESDCHAR_MAX_WRITE_OPERATIONS_SUPPORTED then Inr (entry buf ! i)
      else Inl OutOfBounds)"

section \<open>Finding a position\<close>

subsection \<open>\<^verbatim>\<open>aesd_circular_buffer_find_entry_offset_for_fpos\<close>\<close>

text \<open>
  One of its three loops, over the indices \<open>is\<close>. \<open>total_len\<close> is an \<open>int\<close>: it is sign-extended
  where it meets a \<open>size_t\<close> and truncated back where it is assigned. The result is the position
  found, or the length added up.
\<close>

fun scan_entries ::
  "aesd_circular_buffer \<Rightarrow> u64 \<Rightarrow> nat list \<Rightarrow> s32 \<Rightarrow> fault + ((nat \<times> u64) option \<times> s32)" where
  "scan_entries buf char_offset [] total_len = Inr (None, total_len)"
| "scan_entries buf char_offset (i # is) total_len =
     bnd (entry_at buf i) (\<lambda>e.
       if char_offset < scast total_len + bsize e
       then Inr (Some (i, char_offset - scast total_len), total_len)
       else scan_entries buf char_offset is (ucast (scast total_len + bsize e)))"

text \<open>The result is the index of the entry (\<open>None\<close> for a null pointer) with the offset in it.\<close>

definition aesd_circular_buffer_find_entry_offset_for_fpos ::
  "aesd_circular_buffer \<Rightarrow> u64 \<Rightarrow> fault + (nat \<times> u64) option" where
  "aesd_circular_buffer_find_entry_offset_for_fpos buf char_offset =
     (if in_offs buf \<le> out_offs buf then
        bnd (scan_entries buf char_offset
               [unat (out_offs buf)..<AESDCHAR_MAX_WRITE_OPERATIONS_SUPPORTED] 0)
          (\<lambda>(found, total_len). case found of
             Some r \<Rightarrow> Inr (Some r)
           | None \<Rightarrow> bnd (scan_entries buf char_offset [0..<unat (in_offs buf)] total_len)
                       (\<lambda>(found', _). Inr found'))
      else
        bnd (scan_entries buf char_offset [unat (out_offs buf)..<unat (in_offs buf)] 0)
          (\<lambda>(found, _). Inr found))"

subsection \<open>\<^verbatim>\<open>aesd_circular_buffer_find_entry_offset_and_index_for_fpos\<close>\<close>

text \<open>
  The loop of the function the reader uses. It walks the array from its first slot
  (\<^verbatim>\<open>entry[i - start_abs]\<close>) and returns the absolute index \<open>i\<close>, with the offset when it
  is set. Both \<^verbatim>\<open>i - buffer->start_abs\<close> and \<^verbatim>\<open>i >= buffer->w_abs\<close> are
  unsigned.
\<close>

function find_index_loop ::
  "aesd_circular_buffer \<Rightarrow> u64 \<Rightarrow> s32 \<Rightarrow> s32 \<Rightarrow> fault + (s32 \<times> u64 option)" where
  "find_index_loop buf char_offset i total_len =
     bnd (entry_at buf (unat (i - start_abs buf))) (\<lambda>e.
       if char_offset < scast total_len + bsize e \<or> bsize e = 0
       then Inr (i, Some (char_offset - scast total_len))
       else if w_abs buf \<le> i + 1 then Inr (i + 1, None)
       else find_index_loop buf char_offset (i + 1) (ucast (scast total_len + bsize e)))"
  by pat_completeness auto

termination
  by (relation "measure (\<lambda>(buf, _, i, _). 10 - unat (i - start_abs buf))")
    (auto simp: entry_at_def unat_diff_plus_1 split: if_splits)

declare find_index_loop.simps [simp del]

definition aesd_circular_buffer_find_entry_offset_and_index_for_fpos ::
  "aesd_circular_buffer \<Rightarrow> u64 \<Rightarrow> fault + (s32 \<times> u64 option)" where
  "aesd_circular_buffer_find_entry_offset_and_index_for_fpos buf char_offset =
     find_index_loop buf char_offset (start_abs buf) 0"

section \<open>Adding\<close>

text \<open>
  \<^verbatim>\<open>aesd_init_entry\<close> releases the memory and clears the size; the pointer stays as it is.
\<close>

definition aesd_init_entry ::
  "kheap \<Rightarrow> aesd_buffer_entry \<Rightarrow> fault + (kheap \<times> aesd_buffer_entry)" where
  "aesd_init_entry h e =
     bnd (if buffptr e \<noteq> NULL then kfree h (buffptr e) else Inr h)
       (\<lambda>h. Inr (h, e\<lparr>bsize := 0\<rparr>))"

text \<open>
  The offsets of the ring after a line was stored (\<^verbatim>\<open>in_offs += 1\<close> up to
  \<^verbatim>\<open>full = true\<close>), \<open>n\<close> being the size of the line. The test and the increments are
  on unsigned 32-bit values; the size that \<^verbatim>\<open>start_char_abs\<close> grows by is read after
  \<^verbatim>\<open>start_abs\<close> was increased.
\<close>

definition advance_offsets :: "aesd_circular_buffer \<Rightarrow> u64 \<Rightarrow> aesd_circular_buffer" where
  "advance_offsets buf n =
     (let buf = buf\<lparr>in_offs := in_offs buf + 1\<rparr>;
          buf = (if 10 \<le> w_abs buf - start_abs buf then
                   (let buf = buf\<lparr>start_abs := start_abs buf + 1\<rparr> in
                    buf\<lparr>start_char_abs := start_char_abs buf +
                          ucast (bsize (entry buf ! unat (start_abs buf mod 10)))\<rparr>)
                 else buf);
          buf = buf\<lparr>w_abs := w_abs buf + 1\<rparr>;
          buf = buf\<lparr>w_char_abs := w_char_abs buf + ucast n\<rparr>;
          buf = (if 10 \<le> in_offs buf then buf\<lparr>in_offs := 0\<rparr> else buf)
      in (if in_offs buf = out_offs buf then buf\<lparr>full := True\<rparr> else buf))"

text \<open>
  The body of \<^verbatim>\<open>if(last_char == '\n')\<close>: the collected line replaces the entry at
  \<^verbatim>\<open>w_abs % 10\<close>, whose memory is released first.
\<close>

definition commit_line ::
  "kheap \<Rightarrow> aesd_buffer_entry \<Rightarrow> aesd_circular_buffer \<Rightarrow>
   fault + (kheap \<times> aesd_buffer_entry \<times> aesd_circular_buffer)" where
  "commit_line h tmp buf =
     (let wi = ucast (w_abs buf mod 10) :: u8; target = entry buf ! unat wi in
      bnd (if buffptr target \<noteq> NULL then kfree h (buffptr target) else Inr h) (\<lambda>h.
      let (p, h) = kmalloc h (bsize tmp) in
      bnd (memcpy h p 0 (buffptr tmp) 0 (unat (bsize tmp))) (\<lambda>h.
      let buf = buf\<lparr>entry := (entry buf)[unat wi := \<lparr>buffptr = p, bsize = bsize tmp\<rparr>]\<rparr>;
          buf = advance_offsets buf (bsize tmp)
      in bnd (aesd_init_entry h tmp) (\<lambda>(h, tmp). Inr (h, tmp, buf)))))"

text \<open>
  \<^verbatim>\<open>aesd_circular_buffer_add_entry\<close>: the new bytes are appended to what
  \<^verbatim>\<open>tmp_entry\<close> holds, in a new block (the old one is not released); a final newline
  commits the line. No result of \<^verbatim>\<open>kmalloc\<close> is checked.
\<close>

definition aesd_circular_buffer_add_entry ::
  "kheap \<Rightarrow> aesd_buffer_entry \<Rightarrow> aesd_circular_buffer \<Rightarrow> aesd_buffer_entry \<Rightarrow>
   fault + (kheap \<times> aesd_buffer_entry \<times> aesd_circular_buffer)" where
  "aesd_circular_buffer_add_entry h tmp buf add_entry =
     (let current_str = buffptr tmp;
          new_size = bsize tmp + bsize add_entry;
          (p, h) = kmalloc h new_size;
          tmp = tmp\<lparr>buffptr := p\<rparr>
      in
      bnd (memset h p nul (unat new_size)) (\<lambda>h.
      bnd (if current_str \<noteq> NULL then memcpy h p 0 current_str 0 (unat (bsize tmp)) else Inr h) (\<lambda>h.
      bnd (memcpy h p (int (unat (bsize tmp))) (buffptr add_entry) 0 (unat (bsize add_entry))) (\<lambda>h.
      let tmp = tmp\<lparr>bsize := new_size\<rparr> in
      bnd (load h (buffptr add_entry) (int (unat (bsize add_entry - 1))) 1) (\<lambda>last_char.
      if last_char = [newline] then commit_line h tmp buf else Inr (h, tmp, buf))))))"

section \<open>Initialising and releasing\<close>

definition aesd_circular_buffer_init ::
  "kheap \<Rightarrow> aesd_buffer_entry \<Rightarrow> fault + (kheap \<times> aesd_buffer_entry \<times> aesd_circular_buffer)" where
  "aesd_circular_buffer_init h tmp =
     bnd (aesd_init_entry h tmp) (\<lambda>(h, tmp). Inr (h, tmp, zero_buffer))"

fun free_entries :: "kheap \<Rightarrow> aesd_buffer_entry list \<Rightarrow> fault + kheap" where
  "free_entries h [] = Inr h"
| "free_entries h (e # es) =
     bnd (if buffptr e \<noteq> NULL then kfree h (buffptr e) else Inr h) (\<lambda>h. free_entries h es)"

definition aesd_circular_buffer_free ::
  "kheap \<Rightarrow> aesd_circular_buffer \<Rightarrow> fault + (kheap \<times> aesd_circular_buffer)" where
  "aesd_circular_buffer_free h buf =
     bnd (free_entries h (take AESDCHAR_MAX_WRITE_OPERATIONS_SUPPORTED (entry buf))) (\<lambda>h.
       Inr (h, buf\<lparr>in_offs := 0, out_offs := 0, w_abs := 0, start_abs := 0,
                   w_char_abs := 0, start_char_abs := 0\<rparr>))"

text \<open>
  \<^verbatim>\<open>AESD_CIRCULAR_BUFFER_FOREACH\<close>: the loop with the index in a \<open>uint8_t\<close>; \<open>body\<close> is what the user
  of the macro does with the entry.
\<close>

function foreach_loop ::
  "(aesd_buffer_entry \<Rightarrow> 's \<Rightarrow> fault + 's) \<Rightarrow> aesd_circular_buffer \<Rightarrow> u8 \<Rightarrow> 's \<Rightarrow> fault + 's" where
  "foreach_loop body buf index s =
     (if index < 10 then bnd (body (entry buf ! unat index) s) (\<lambda>s. foreach_loop body buf (index + 1) s)
      else Inr s)"
  by pat_completeness auto
termination
  by (relation "measure (\<lambda>(_, _, index, _). 10 - unat index)")
    (auto simp: word_less_nat_alt unat_word_ariths)

declare foreach_loop.simps [simp del]

definition AESD_CIRCULAR_BUFFER_FOREACH ::
  "(aesd_buffer_entry \<Rightarrow> 's \<Rightarrow> fault + 's) \<Rightarrow> aesd_circular_buffer \<Rightarrow> 's \<Rightarrow> fault + 's" where
  "AESD_CIRCULAR_BUFFER_FOREACH body buf s = foreach_loop body buf 0 s"

section \<open>Reading\<close>

text \<open>The locals of the copying loop, and the heap and ring it changes.\<close>

record raed_locals =
  rl_heap :: kheap
  rl_buf :: aesd_circular_buffer
  startp :: s32
  read_len :: u64
  is_first_entry :: bool

text \<open>C's \<^verbatim>\<open>startp % 10\<close> on \<open>int\<close>, stored in a \<open>uint8_t\<close>.\<close>

definition ring_index :: "s32 \<Rightarrow> u8" where
  "ring_index i = word_of_int (sint i smod 10)"

text \<open>
  One round of the \<^verbatim>\<open>while(1)\<close>: whether it leaves the loop, and the locals. The C conversions
  are written out: \<^verbatim>\<open>ofs_in_entry\<close> and \<^verbatim>\<open>remain_in_entry\<close> are \<open>int\<close> and are
  sign-extended in the \<open>size_t\<close> comparisons.
\<close>

definition raed_body ::
  "kptr \<Rightarrow> s32 \<Rightarrow> u64 \<Rightarrow> u64 \<Rightarrow> raed_locals \<Rightarrow> fault + (bool \<times> raed_locals)" where
  "raed_body result_buf copy_start start_byte_ofs len st =
     (let ri = ring_index (startp st); buf = rl_buf st in
      bnd (entry_at buf (unat ri)) (\<lambda>next_entry.
      let ofs_in_entry = (if is_first_entry st then ucast start_byte_ofs else 0) :: s32;
          remain_in_entry = ucast (bsize next_entry - scast ofs_in_entry) :: s32
      in
      if buffptr next_entry = NULL then Inr (True, st)
      else
        (let copy_len = (if len \<le> read_len st + scast remain_in_entry
                         then len - read_len st else scast remain_in_entry) in
         bnd (memcpy (rl_heap st) result_buf (sint copy_start + int (unat (read_len st)))
                (buffptr next_entry) (sint ofs_in_entry) (unat copy_len)) (\<lambda>h.
         let st = st\<lparr>rl_heap := h, read_len := read_len st + copy_len\<rparr> in
         if scast remain_in_entry \<le> copy_len then
           (let buf = buf\<lparr>out_offs := out_offs buf + 1\<rparr>;
                buf = (if 10 \<le> out_offs buf then buf\<lparr>out_offs := 0\<rparr> else buf);
                st = st\<lparr>rl_buf := buf, startp := startp st + 1, is_first_entry := False\<rparr>
            in if startp st = w_abs buf then Inr (True, st)
               else
                 (let st = st\<lparr>rl_buf := (if full buf then buf\<lparr>full := False\<rparr> else buf)\<rparr>
                  in Inr (len \<le> read_len st, st)))
         else Inr (len \<le> read_len st, st)))))"

text \<open>
  A round that goes on has moved to the next entry and not reached \<^verbatim>\<open>w_abs\<close>: a round that
  leaves bytes of its entry behind has filled the destination.
\<close>

lemma raed_body_continues:
  assumes "raed_body result_buf copy_start start_byte_ofs len st = Inr (False, st')"
  shows "startp st' = startp st + 1 \<and> w_abs (rl_buf st') = w_abs (rl_buf st) \<and>
         startp st' \<noteq> w_abs (rl_buf st')"
  using assms
  by (auto simp: raed_body_def Let_def bnd_iffs split: if_splits)

lemma raed_body_measure:
  assumes "raed_body result_buf copy_start start_byte_ofs len st = Inr (False, st')"
  shows "unat (w_abs (rl_buf st') - startp st' - 1) < unat (w_abs (rl_buf st) - startp st - 1)"
proof -
  let ?d = "w_abs (rl_buf st) - startp st - 1"
  have d: "w_abs (rl_buf st') - startp st' - 1 = ?d - 1" and "?d \<noteq> 0"
    using raed_body_continues [OF assms] by (auto simp: algebra_simps)
  from \<open>?d \<noteq> 0\<close> have "unat (?d - 1) < unat ?d"
    by (rule measure_unat)
  with d show ?thesis by (simp only:)
qed

text \<open>\<^verbatim>\<open>while(1)\<close>: it ends, because \<^verbatim>\<open>startp\<close> runs into \<^verbatim>\<open>w_abs\<close>.\<close>

function raed_loop ::
  "kptr \<Rightarrow> s32 \<Rightarrow> u64 \<Rightarrow> u64 \<Rightarrow> raed_locals \<Rightarrow> fault + raed_locals" where
  "raed_loop result_buf copy_start start_byte_ofs len st =
     bnd (raed_body result_buf copy_start start_byte_ofs len st) (\<lambda>(leave, st').
       if leave then Inr st' else raed_loop result_buf copy_start start_byte_ofs len st')"
  by pat_completeness auto
termination
proof (relation "measure (\<lambda>(_, _, _, _, st). unat (w_abs (rl_buf st) - startp st - 1))")
  show "wf (measure (\<lambda>(_, _, _, _, st). unat (w_abs (rl_buf st) - startp st - 1)))"
    by simp
next
  fix result_buf copy_start start_byte_ofs len st x leave st'
  assume "raed_body result_buf copy_start start_byte_ofs len st = Inr x" "(leave, st') = x" "\<not> leave"
  then have "raed_body result_buf copy_start start_byte_ofs len st = Inr (False, st')"
    by auto
  from raed_body_measure [OF this]
  show "((result_buf, copy_start, start_byte_ofs, len, st'),
              (result_buf, copy_start, start_byte_ofs, len, st))
             \<in> measure (\<lambda>(_, _, _, _, st). unat (w_abs (rl_buf st) - startp st - 1))"
    by (simp only: in_measure prod.case)
qed

declare raed_loop.simps [simp del]

text \<open>
  \<^verbatim>\<open>aesd_circular_buffer_raed\<close>: the result is the heap, the ring, \<^verbatim>\<open>*f_pos\<close> and the
  returned \<open>size_t\<close> (\<open>-1\<close> is its largest value).
\<close>

definition aesd_circular_buffer_raed ::
  "kheap \<Rightarrow> aesd_circular_buffer \<Rightarrow> kptr \<Rightarrow> u64 \<Rightarrow> s64 \<Rightarrow>
   fault + (kheap \<times> aesd_circular_buffer \<times> s64 \<times> u64)" where
  "aesd_circular_buffer_raed h buf result_buf len f_pos =
     (if sint f_pos < int (unat (start_char_abs buf)) \<or> int (unat (w_char_abs buf)) < sint f_pos
      then Inr (h, buf, f_pos, - 1)
      else
        bnd (aesd_circular_buffer_find_entry_offset_and_index_for_fpos buf
               (f_pos - ucast (start_char_abs buf))) (\<lambda>(startp, start_byte_ofs).
        if sint startp < 0 then Inr (h, buf, f_pos, 0)
        else
          (let buf = buf\<lparr>out_offs := ucast startp\<rparr> in
           if startp = w_abs buf then Inr (h, buf, f_pos, 0)
           else
             bnd (strlen h result_buf) (\<lambda>copy_start.
             bnd (case start_byte_ofs of None \<Rightarrow> Inl UninitRead | Some ofs \<Rightarrow> Inr ofs) (\<lambda>ofs.
             bnd (raed_loop result_buf (of_nat copy_start) ofs len
                    \<lparr>rl_heap = h, rl_buf = buf, startp = startp, read_len = 0,
                     is_first_entry = True\<rparr>) (\<lambda>st.
             Inr (rl_heap st, rl_buf st, f_pos + read_len st, read_len st)))))))"

section \<open>Length up to a command\<close>

text \<open>
  \<^verbatim>\<open>aesd_circular_buffer_get_bytes_to_ofs\<close>: the sizes of the first \<^verbatim>\<open>elem_ind\<close> slots
  and an offset, modulo \<open>2^32\<close>. The caller's \<^verbatim>\<open>elem_ind\<close> is not checked: an index past the
  array is a fault.
\<close>

function get_bytes_loop :: "aesd_circular_buffer \<Rightarrow> u32 \<Rightarrow> u32 \<Rightarrow> u32 \<Rightarrow> fault + u32" where
  "get_bytes_loop buf elem_ind i byte_len =
     (if i < elem_ind then
        bnd (entry_at buf (unat i)) (\<lambda>e.
          get_bytes_loop buf elem_ind (i + 1) (ucast (ucast byte_len + bsize e)))
      else Inr byte_len)"
  by pat_completeness auto
termination
  by (relation "measure (\<lambda>(_, _, i, _). 10 - unat i)")
    (auto simp: entry_at_def unat_plus_1_32 split: if_splits)

declare get_bytes_loop.simps [simp del]

definition aesd_circular_buffer_get_bytes_to_ofs ::
  "aesd_circular_buffer \<Rightarrow> u32 \<Rightarrow> u32 \<Rightarrow> fault + u32" where
  "aesd_circular_buffer_get_bytes_to_ofs buf elem_ind ofs_in_elem =
     bnd (get_bytes_loop buf elem_ind 0 0) (\<lambda>byte_len. Inr (byte_len + ofs_in_elem))"

end
