(* ===== verification/Char_Driver.thy ===== *)
theory Char_Driver
  imports Circular_Buffer
begin

unbundle bit_operations_syntax

text \<open>
  \<^verbatim>\<open>aesd-char-driver/main.c\<close> with \<^verbatim>\<open>aesdchar.h\<close> and \<^verbatim>\<open>aesd_ioctl.h\<close>: the
  module's state and every file operation, each with all its early returns, and the loading and
  unloading of the module. What the rest of the kernel decides is an argument: whether user
  memory may be touched and copied (\<open>user_access\<close>), the results of
  \<^verbatim>\<open>alloc_chrdev_region\<close> and \<^verbatim>\<open>cdev_add\<close>. The mutex is left out: every call of it is
  commented out in the source. Operations are whole calls here; calls that overlap are the subject
  of \<^verbatim>\<open>Racing_Writers\<close>.
\<close>

section \<open>State\<close>

text \<open>\<^verbatim>\<open>filp->private_data\<close> is null or, after \<^verbatim>\<open>aesd_open\<close>, the address of \<^verbatim>\<open>aesd_device\<close>.\<close>

datatype dev_ref = DEV_NULL | DEV_AESD

record kfile =
  f_pos :: s64
  private_data :: dev_ref

text \<open>
  \<^verbatim>\<open>struct aesd_dev\<close>: the pointer to the ring, and what it points to. The ring lives in a
  heap block of its own, so that releasing it is seen; its contents are kept as a structure.
\<close>

record aesd_dev =
  buffer :: kptr
  buffer_mem :: aesd_circular_buffer

text \<open>
  The module: the kernel heap, the static \<^verbatim>\<open>tmp_entry\<close> of the ring's file, the device, the
  major number, and the device numbers and character devices that are registered for it.
\<close>

record driver =
  heap :: kheap
  tmp_entry :: aesd_buffer_entry
  aesd_device :: aesd_dev
  aesd_major :: u32
  regions :: "u32 list"
  cdevs :: "u32 list"

abbreviation (input) aesd_minor :: u32 where
  "aesd_minor \<equiv> 0"

definition sizeof_aesd_circular_buffer :: u64 where
  "sizeof_aesd_circular_buffer = 184"

abbreviation (input) ENOMEM :: s64 where "ENOMEM \<equiv> 12"
abbreviation (input) EFAULT :: s64 where "EFAULT \<equiv> 14"
abbreviation (input) EINVAL :: s64 where "EINVAL \<equiv> 22"

text \<open>A dereference of \<^verbatim>\<open>buffer\<close>: the block of the ring must be live.\<close>

definition deref_buffer :: "driver \<Rightarrow> fault + aesd_circular_buffer" where
  "deref_buffer s =
     bnd (load (heap s) (buffer (aesd_device s)) 0 (unat sizeof_aesd_circular_buffer)) (\<lambda>_.
       Inr (buffer_mem (aesd_device s)))"

definition put_buffer :: "aesd_circular_buffer \<Rightarrow> driver \<Rightarrow> driver" where
  "put_buffer buf s = s\<lparr>aesd_device := (aesd_device s)\<lparr>buffer_mem := buf\<rparr>\<rparr>"

section \<open>User memory\<close>

text \<open>
  How user memory answers: whether the kernel may dereference a user pointer directly (it may
  not where the processor keeps it from doing so), whether \<^verbatim>\<open>access_ok\<close> holds, whether the
  copies succeed, and how many bytes get through before a copy that does not.
\<close>

record user_access =
  direct_ok :: bool
  access_ok :: bool
  copy_ok :: bool
  copied_part :: nat

text \<open>\<^verbatim>\<open>buf[i]\<close> on a user pointer, the bytes of the user's buffer being \<open>ubuf\<close>.\<close>

definition user_read :: "user_access \<Rightarrow> byte list \<Rightarrow> u64 \<Rightarrow> fault + byte" where
  "user_read ua ubuf i =
     (if \<not> direct_ok ua then Inl UserFault
      else if unat i < length ubuf then Inr (ubuf ! unat i) else Inl OutOfBounds)"

text \<open>\<^verbatim>\<open>copy_from_user\<close>: the heap and whether bytes are left over.\<close>

definition copy_from_user ::
  "user_access \<Rightarrow> kheap \<Rightarrow> kptr \<Rightarrow> byte list \<Rightarrow> nat \<Rightarrow> fault + (kheap \<times> bool)" where
  "copy_from_user ua h p ubuf n =
     (if copy_ok ua \<and> n \<le> length ubuf
      then bnd (store h p 0 (take n ubuf)) (\<lambda>h. Inr (h, False)) else Inr (h, True))"

text \<open>
  \<^verbatim>\<open>copy_to_user\<close>: the bytes that reach the user. A copy that fails has left over at least one byte;
  those before it have been copied.
\<close>

definition copy_to_user :: "user_access \<Rightarrow> byte list \<Rightarrow> byte list" where
  "copy_to_user ua bs = (if copy_ok ua then bs else take (min (copied_part ua) (length bs - 1)) bs)"

lemma copy_to_user_simps [simp]: "copy_to_user ua [] = []" "copy_ok ua \<Longrightarrow> copy_to_user ua bs = bs"
  by (simp_all add: copy_to_user_def)

section \<open>File operations\<close>

definition aesd_open :: "kfile \<Rightarrow> kfile" where
  "aesd_open filp = filp\<lparr>private_data := DEV_AESD\<rparr>"

definition aesd_release :: "driver \<Rightarrow> kfile \<Rightarrow> driver \<times> s64" where
  "aesd_release s filp = (s, 0)"

text \<open>
  \<^verbatim>\<open>aesd_read\<close>: the module, \<^verbatim>\<open>*f_pos\<close>, the result and the bytes copied to the user. The
  result of \<^verbatim>\<open>aesd_circular_buffer_raed\<close> is a \<open>size_t\<close> and read as \<open>ssize_t\<close>.
\<close>

definition aesd_read ::
  "driver \<Rightarrow> kfile \<Rightarrow> user_access \<Rightarrow> u64 \<Rightarrow> s64 \<Rightarrow> fault + (driver \<times> s64 \<times> s64 \<times> byte list)" where
  "aesd_read s filp ua count pos =
     (if private_data filp = DEV_NULL then Inl NullDeref
      else if buffer (aesd_device s) = NULL then Inr (s, pos, - ENOMEM, [])
      else
        bnd (deref_buffer s) (\<lambda>buf.
        let (kbuf, h) = kmalloc (heap s) count in
        if kbuf = NULL then Inr (s\<lparr>heap := h\<rparr>, pos, - ENOMEM, [])
        else
          bnd (memset h kbuf nul (unat count)) (\<lambda>h.
          bnd (aesd_circular_buffer_raed h buf kbuf count pos) (\<lambda>(h, buf, pos, retval).
          bnd (if 0 < sint retval then
                 bnd (load h kbuf 0 (unat retval)) (\<lambda>bs.
                   Inr (if copy_ok ua then retval else - ENOMEM, copy_to_user ua bs))
               else Inr (retval, [])) (\<lambda>(retval, bs).
          bnd (kfree h kbuf) (\<lambda>h.
          Inr (put_buffer buf (s\<lparr>heap := h\<rparr>), pos, retval, bs)))))))"

text \<open>
  \<^verbatim>\<open>aesd_write\<close>: the module and the result; \<^verbatim>\<open>*f_pos\<close> is not written. \<open>ubuf\<close> are the bytes
  at \<^verbatim>\<open>buf\<close>; the driver reads \<^verbatim>\<open>buf[count - 1]\<close> through the user's pointer before it checks
  the pointer.
\<close>

definition aesd_write ::
  "driver \<Rightarrow> kfile \<Rightarrow> user_access \<Rightarrow> byte list \<Rightarrow> u64 \<Rightarrow> fault + (driver \<times> s64)" where
  "aesd_write s filp ua ubuf count =
     (if private_data filp = DEV_NULL then Inr (s, - ENOMEM)
      else if buffer (aesd_device s) = NULL then Inr (s, - ENOMEM)
      else
        bnd (deref_buffer s) (\<lambda>buf.
        let (kbuf, h) = kmalloc (heap s) count in
        if kbuf = NULL then Inr (s\<lparr>heap := h\<rparr>, - ENOMEM)
        else
          bnd (user_read ua ubuf (count - 1)) (\<lambda>_.
          if \<not> access_ok ua then bnd (kfree h kbuf) (\<lambda>h. Inr (s\<lparr>heap := h\<rparr>, - EFAULT))
          else
            bnd (memset h kbuf nul (unat count)) (\<lambda>h.
            bnd (copy_from_user ua h kbuf ubuf (unat count)) (\<lambda>(h, left).
            if left then bnd (kfree h kbuf) (\<lambda>h. Inr (s\<lparr>heap := h\<rparr>, - ENOMEM))
            else
              bnd (aesd_circular_buffer_add_entry h (tmp_entry s) buf \<lparr>buffptr = kbuf, bsize = count\<rparr>)
                (\<lambda>(h, tmp, buf).
              bnd (kfree h kbuf) (\<lambda>h.
              Inr (put_buffer buf (s\<lparr>heap := h, tmp_entry := tmp\<rparr>), count))))))))"

abbreviation (input) SEEK_SET :: s32 where "SEEK_SET \<equiv> 0"
abbreviation (input) SEEK_CUR :: s32 where "SEEK_CUR \<equiv> 1"
abbreviation (input) SEEK_END :: s32 where "SEEK_END \<equiv> 2"

definition aesd_llseek :: "driver \<Rightarrow> kfile \<Rightarrow> s64 \<Rightarrow> s32 \<Rightarrow> fault + (kfile \<times> s64)" where
  "aesd_llseek s filp off whence =
     (if private_data filp = DEV_NULL then Inr (filp, - ENOMEM)
      else if buffer (aesd_device s) = NULL then Inr (filp, - ENOMEM)
      else
        bnd (if whence = SEEK_SET then
               bnd (deref_buffer s) (\<lambda>buf. Inr (Some (ucast (start_char_abs buf) + off)))
             else if whence = SEEK_CUR then Inr (Some (f_pos filp + off))
             else if whence = SEEK_END then
               bnd (deref_buffer s) (\<lambda>buf. Inr (Some (ucast (w_char_abs buf) + off)))
             else Inr None) (\<lambda>newpos.
        case newpos of
          None \<Rightarrow> Inr (filp, - EINVAL)
        | Some p \<Rightarrow> Inr (filp\<lparr>f_pos := p\<rparr>, p)))"

subsection \<open>ioctl\<close>

record aesd_seekto =
  write_cmd :: u32
  write_cmd_offset :: u32

abbreviation (input) AESD_IOC_MAGIC :: u32 where "AESD_IOC_MAGIC \<equiv> 0x16"
abbreviation (input) AESDCHAR_IOC_MAXNR :: u32 where "AESDCHAR_IOC_MAXNR \<equiv> 1"

text \<open>The fields of a command number, as the kernel's \<^verbatim>\<open>ioctl.h\<close> lays them out.\<close>

definition IOC_TYPE :: "u32 \<Rightarrow> u32" where
  "IOC_TYPE cmd = drop_bit 8 cmd AND 0xFF"

definition IOC_NR :: "u32 \<Rightarrow> u32" where
  "IOC_NR cmd = cmd AND 0xFF"

definition IOWR :: "u32 \<Rightarrow> u32 \<Rightarrow> u32 \<Rightarrow> u32" where
  "IOWR ty nr sz = push_bit 30 3 OR push_bit 8 ty OR nr OR push_bit 16 sz"

text \<open>\<^verbatim>\<open>AESDCHAR_IOCSEEKTO\<close>; \<^verbatim>\<open>struct aesd_seekto\<close> has 8 bytes.\<close>

definition AESDCHAR_IOCSEEKTO :: u32 where
  "AESDCHAR_IOCSEEKTO = IOWR AESD_IOC_MAGIC 1 8"

text \<open>
  \<^verbatim>\<open>aesd_unlocked_ioctl\<close>: \<open>arg\<close> is what the user's pointer points to, \<open>None\<close> if the kernel
  cannot read there. The position is a sum of two unsigned 32-bit values, widened afterwards.
\<close>

definition aesd_unlocked_ioctl ::
  "driver \<Rightarrow> kfile \<Rightarrow> u32 \<Rightarrow> aesd_seekto option \<Rightarrow> fault + (kfile \<times> s64)" where
  "aesd_unlocked_ioctl s filp cmd arg =
     (if private_data filp = DEV_NULL then Inr (filp, - ENOMEM)
      else if buffer (aesd_device s) = NULL then Inr (filp, - ENOMEM)
      else if IOC_TYPE cmd \<noteq> AESD_IOC_MAGIC then Inr (filp, - EINVAL)
      else if AESDCHAR_IOC_MAXNR < IOC_NR cmd then Inr (filp, - EINVAL)
      else
        (case arg of
           None \<Rightarrow> Inl UserFault
         | Some seekto \<Rightarrow>
             if cmd = AESDCHAR_IOCSEEKTO then
               bnd (deref_buffer s) (\<lambda>buf.
               bnd (aesd_circular_buffer_get_bytes_to_ofs buf (write_cmd seekto) (write_cmd_offset seekto))
                 (\<lambda>n. Inr (filp\<lparr>f_pos := ucast (n + start_char_abs buf)\<rparr>, 0)))
             else Inr (filp, - EINVAL)))"

section \<open>Loading and unloading\<close>

definition MKDEV :: "u32 \<Rightarrow> u32 \<Rightarrow> u32" where
  "MKDEV ma mi = push_bit 20 ma OR mi"

definition MAJOR :: "u32 \<Rightarrow> u32" where
  "MAJOR dev = drop_bit 20 dev"

text \<open>\<open>err\<close> is what \<^verbatim>\<open>cdev_add\<close> returns.\<close>

definition aesd_setup_cdev :: "driver \<Rightarrow> s32 \<Rightarrow> driver \<times> s32" where
  "aesd_setup_cdev s err =
     (let devno = MKDEV (aesd_major s) aesd_minor in
      (if err = 0 then s\<lparr>cdevs := devno # cdevs s\<rparr> else s, err))"

text \<open>
  \<^verbatim>\<open>aesd_init_module\<close>: \<open>(result, dev)\<close> is what \<^verbatim>\<open>alloc_chrdev_region\<close> returns and stores. The
  two failures after the region was registered differ: the one of \<^verbatim>\<open>kmalloc\<close> leaves it
  registered, the one of \<^verbatim>\<open>cdev_add\<close> leaves the ring allocated. The \<^verbatim>\<open>memset\<close> of
  \<^verbatim>\<open>aesd_circular_buffer_init\<close> clears the block of the ring, here its bytes and there the
  structure.
\<close>

definition aesd_init_module :: "driver \<Rightarrow> s32 \<Rightarrow> u32 \<Rightarrow> s32 \<Rightarrow> fault + (driver \<times> s32)" where
  "aesd_init_module s result dev err =
     (let dev = (if sint result < 0 then 0 else dev);
          s = s\<lparr>aesd_major := MAJOR dev\<rparr>
      in
      if sint result < 0 then Inr (s, result)
      else
        (let s = s\<lparr>regions := dev # regions s\<rparr>;
             (p, h) = kmalloc (heap s) sizeof_aesd_circular_buffer;
             s = s\<lparr>heap := h, aesd_device := \<lparr>buffer = p, buffer_mem = zero_buffer\<rparr>\<rparr>
         in
         if p = NULL then Inr (s, - 12)
         else
           bnd (memset (heap s) p nul (unat sizeof_aesd_circular_buffer)) (\<lambda>h.
           bnd (aesd_circular_buffer_init h (tmp_entry s)) (\<lambda>(h, tmp, buf).
           let s = put_buffer buf (s\<lparr>heap := h, tmp_entry := tmp\<rparr>);
               (s, result) = aesd_setup_cdev s err
           in Inr (if result \<noteq> 0 then s\<lparr>regions := remove1 dev (regions s)\<rparr> else s, result)))))"

definition aesd_cleanup_module :: "driver \<Rightarrow> fault + driver" where
  "aesd_cleanup_module s =
     (let devno = MKDEV (aesd_major s) aesd_minor;
          s = s\<lparr>cdevs := remove1 devno (cdevs s)\<rparr>
      in bnd (kfree (heap s) (buffer (aesd_device s))) (\<lambda>h.
         Inr (s\<lparr>heap := h, regions := remove1 devno (regions s)\<rparr>)))"

text \<open>The module before it is loaded: statics are zero.\<close>

definition module_boot :: "kheap \<Rightarrow> driver" where
  "module_boot h = \<lparr>heap = h, tmp_entry = zero_entry,
     aesd_device = \<lparr>buffer = NULL, buffer_mem = zero_buffer\<rparr>,
     aesd_major = 0, regions = [], cdevs = []\<rparr>"

end
