(* ===== verification/Ring_Refinement.thy ===== *)
theory Ring_Refinement
  imports Circular_Buffer
begin

text \<open>
  What the ring means. The abstract state is a log: every line added since the initialisation,
  the bytes that wait for their newline, and how many blocks were leaked. \<open>ring_repr\<close> and
  \<open>tmp_repr\<close> say how the structures of \<^verbatim>\<open>aesd-circular-buffer.c\<close> represent it; adding an
  entry is shown to be appending to the log.
\<close>

section \<open>The log\<close>

record line_log =
  lines :: "byte list list"
  pending :: "byte list"
  leaked :: nat

definition empty_log :: line_log where
  "empty_log = \<lparr>lines = [], pending = [], leaked = 0\<rparr>"

definition log_add :: "line_log \<Rightarrow> byte list \<Rightarrow> line_log" where
  "log_add l bs =
     (let line = pending l @ bs; k = leaked l + (if pending l = [] then 0 else 1) in
      if last bs = newline
      then \<lparr>lines = lines l @ [line], pending = [], leaked = k\<rparr>
      else \<lparr>lines = lines l, pending = line, leaked = k\<rparr>)"

text \<open>The lines the ring still holds, the newest last, and the bytes they are made of.\<close>

definition window :: "byte list list \<Rightarrow> byte list list" where
  "window ls = drop (length ls - 10) ls"

definition contents :: "byte list list \<Rightarrow> byte list" where
  "contents ls = concat (window ls)"

lemma length_window [simp]: "length (window ls) = min (length ls) 10"
  by (simp add: window_def)

lemma nth_window: "i < length (window ls) \<Longrightarrow> window ls ! i = ls ! (length ls - 10 + i)"
  by (simp add: window_def)

section \<open>Representation\<close>

definition slot_holds ::
  "(nat \<Rightarrow> byte list option) \<Rightarrow> aesd_buffer_entry \<Rightarrow> byte list \<Rightarrow> bool" where
  "slot_holds m e line \<longleftrightarrow>
     (\<exists>b. buffptr e = Blk b \<and> m b = Some line) \<and> bsize e = of_nat (length line)"

definition line_ok :: "byte list \<Rightarrow> bool" where
  "line_ok line \<longleftrightarrow> line \<noteq> [] \<and> last line = newline \<and> length line \<le> KMALLOC_MAX_SIZE"

definition slots_distinct :: "aesd_buffer_entry list \<Rightarrow> bool" where
  "slots_distinct es \<longleftrightarrow>
     (\<forall>i<10. \<forall>j<10. \<forall>b. buffptr (es ! i) = Blk b \<and> buffptr (es ! j) = Blk b \<longrightarrow> i = j)"

definition owned :: "aesd_buffer_entry list \<Rightarrow> nat \<Rightarrow> bool" where
  "owned es b \<longleftrightarrow> (\<exists>j<10. buffptr (es ! j) = Blk b)"

definition slots_repr ::
  "(nat \<Rightarrow> byte list option) \<Rightarrow> aesd_buffer_entry list \<Rightarrow> byte list list \<Rightarrow> bool" where
  "slots_repr m es ls \<longleftrightarrow>
     length es = 10 \<and> slots_distinct es \<and>
     (\<forall>i<length ls. length ls \<le> i + 10 \<longrightarrow> slot_holds m (es ! (i mod 10)) (ls ! i)) \<and>
     (\<forall>j<10. length ls \<le> j \<longrightarrow> es ! j = zero_entry)"

text \<open>
  The offsets. \<^verbatim>\<open>start_char_abs\<close> is not the number of bytes evicted but the length of the
  lines from the second one to the oldest that is kept.
\<close>

definition offsets_repr :: "aesd_circular_buffer \<Rightarrow> byte list list \<Rightarrow> bool" where
  "offsets_repr buf ls \<longleftrightarrow>
     length ls < 4294967296 \<and>
     w_abs buf = of_nat (length ls) \<and>
     start_abs buf = of_nat (length ls - 10) \<and>
     in_offs buf = of_nat (length ls mod 10) \<and>
     w_char_abs buf = of_nat (sum_list (map length ls)) \<and>
     start_char_abs buf = of_nat (sum_list (map length (take (length ls - 10) (tl ls))))"

definition ring_repr ::
  "(nat \<Rightarrow> byte list option) \<Rightarrow> aesd_circular_buffer \<Rightarrow> byte list list \<Rightarrow> bool" where
  "ring_repr m buf ls \<longleftrightarrow>
     slots_repr m (entry buf) ls \<and> offsets_repr buf ls \<and> (\<forall>line \<in> set ls. line_ok line)"

definition tmp_repr ::
  "(nat \<Rightarrow> byte list option) \<Rightarrow> aesd_buffer_entry \<Rightarrow> aesd_buffer_entry list \<Rightarrow> byte list \<Rightarrow> bool" where
  "tmp_repr m tmp es bs \<longleftrightarrow>
     bsize tmp = of_nat (length bs) \<and> length bs \<le> KMALLOC_MAX_SIZE \<and>
     (bs \<noteq> [] \<longrightarrow> (\<exists>b. buffptr tmp = Blk b \<and> m b = Some bs \<and> \<not> owned es b))"

section \<open>Committing a line\<close>

lemma slots_reprD:
  assumes "slots_repr m es ls" and "i < length ls" and "length ls \<le> i + 10"
  shows "\<exists>b. buffptr (es ! (i mod 10)) = Blk b \<and> m b = Some (ls ! i)"
    and "bsize (es ! (i mod 10)) = of_nat (length (ls ! i))"
  using assms by (auto simp: slots_repr_def slot_holds_def)

text \<open>The slot the next line goes to is empty, or holds the line that leaves the window.\<close>

lemma slots_repr_target:
  assumes "slots_repr m es ls"
  shows "length ls < 10 \<and> es ! (length ls mod 10) = zero_entry \<or>
         10 \<le> length ls \<and> (\<exists>b. buffptr (es ! (length ls mod 10)) = Blk b \<and>
                               m b = Some (ls ! (length ls - 10)))"
proof (cases "length ls < 10")
  case True
  with assms show ?thesis by (auto simp: slots_repr_def)
next
  case False
  then have "(length ls - 10) mod 10 = length ls mod 10"
    by (metis le_mod_geq linorder_not_less)
  with False slots_reprD(1) [OF assms, of "length ls - 10"] show ?thesis by auto
qed

text \<open>Which slot a line of the new window is in.\<close>

lemma slot_of_new_window:
  assumes "i < length ls" and "Suc (length ls) \<le> i + 10"
  shows "i mod 10 \<noteq> length ls mod 10"
  using assms mod_eq_within [of i 10 "length ls"] by auto

lemma slots_distinctD:
  "slots_distinct es \<Longrightarrow> i < 10 \<Longrightarrow> j < 10 \<Longrightarrow> buffptr (es ! i) = Blk b \<Longrightarrow>
   buffptr (es ! j) = Blk b \<Longrightarrow> i = j"
  by (auto simp: slots_distinct_def)

lemma slots_repr_store:
  assumes r: "slots_repr m es ls"
    and m': "m' p = Some line" "\<And>b. owned es b \<Longrightarrow> buffptr (es ! (length ls mod 10)) \<noteq> Blk b \<Longrightarrow> m' b = m b"
    and fresh: "\<not> owned (es[length ls mod 10 := zero_entry]) p"
  shows "slots_repr m' (es[length ls mod 10 := \<lparr>buffptr = Blk p, bsize = of_nat (length line)\<rparr>])
           (ls @ [line])" (is "slots_repr m' ?es ?ls")
proof -
  let ?w = "length ls mod 10"
  have len: "length es = 10" and dist: "slots_distinct es"
    using r by (auto simp: slots_repr_def)
  have "slots_distinct ?es"
    using dist fresh len
    by (auto simp: slots_distinct_def owned_def nth_list_update zero_entry_def split: if_splits)
  moreover have "slot_holds m' (?es ! (i mod 10)) (?ls ! i)"
    if i: "i < length ?ls" "length ?ls \<le> i + 10" for i
  proof (cases "i = length ls")
    case True
    with len m'(1) show ?thesis by (simp add: slot_holds_def)
  next
    case False
    then have il: "i < length ls" using i by simp
    have ne: "i mod 10 \<noteq> ?w" using slot_of_new_window [OF il] i(2) by simp
    obtain b where b: "buffptr (es ! (i mod 10)) = Blk b" "m b = Some (ls ! i)"
      and s: "bsize (es ! (i mod 10)) = of_nat (length (ls ! i))"
      using slots_reprD [OF r il] i by auto
    have "owned es b" unfolding owned_def
      using b(1) by (intro exI [of _ "i mod 10"]) simp
    moreover have "buffptr (es ! ?w) \<noteq> Blk b"
      using slots_distinctD [OF dist _ _ b(1), of ?w] ne by auto
    ultimately have "m' b = Some (ls ! i)" using m'(2) b(2) by simp
    with ne b(1) s il show ?thesis by (simp add: slot_holds_def nth_append)
  qed
  moreover have "?es ! j = zero_entry" if "j < 10" "length ?ls \<le> j" for j
    using r that by (auto simp: slots_repr_def)
  ultimately show ?thesis using len by (simp add: slots_repr_def)
qed

lemma advance_offsets_entry [simp]: "entry (advance_offsets buf n) = entry buf"
  by (simp add: advance_offsets_def Let_def)

lemma take_tl_append:
  assumes "10 \<le> length ls"
  shows "take (Suc (length ls) - 10) (tl (ls @ [line])) =
    take (length ls - 10) (tl ls) @ [(ls @ [line]) ! (length ls - 9)]"
proof -
  obtain a l k where ls: "ls = a # l" and k: "length l = k + 9"
    using assms by (cases ls) (auto simp: le_iff_add)
  have "take (Suc k) (l @ [line]) = take k l @ [(l @ [line]) ! k]"
    using k by (simp add: take_Suc_conv_app_nth nth_append)
  with k ls show ?thesis by (simp add: nth_append)
qed

lemma of_nat_u8_ge_10: "k < 256 \<Longrightarrow> (10 :: u8) \<le> of_nat k \<longleftrightarrow> 10 \<le> k"
  by (simp add: word_le_nat_alt unat_of_nat_small)

lemma in_offs_next:
  "(if (10 :: u8) \<le> of_nat (n mod 10) + 1 then 0 else of_nat (n mod 10) + 1) =
     (of_nat (Suc n mod 10) :: u8)"
proof -
  have "(10 :: u8) \<le> of_nat (Suc (n mod 10)) \<longleftrightarrow> Suc (n mod 10) = 10"
    by (subst of_nat_u8_ge_10) auto
  then show ?thesis by (auto simp: mod_Suc add.commute)
qed

lemma advance_offsets_fields:
  fixes buf n defines "b \<equiv> advance_offsets buf n" and "e \<equiv> 10 \<le> w_abs buf - start_abs buf"
  shows "w_abs b = w_abs buf + 1" and "w_char_abs b = w_char_abs buf + ucast n"
    and "start_abs b = (if e then start_abs buf + 1 else start_abs buf)"
    and "start_char_abs b = (if e then start_char_abs buf +
           ucast (bsize (entry buf ! unat ((start_abs buf + 1) mod 10))) else start_char_abs buf)"
    and "in_offs b = (if 10 \<le> in_offs buf + 1 then 0 else in_offs buf + 1)"
  by (auto simp: b_def e_def advance_offsets_def Let_def)

lemma advance_offsets_repr:
  assumes o: "offsets_repr buf ls" and n: "Suc (length ls) < 4294967296"
    and slot: "10 \<le> length ls \<Longrightarrow>
      bsize (entry buf ! ((length ls - 9) mod 10)) = of_nat (length ((ls @ [line]) ! (length ls - 9)))"
  shows "offsets_repr (advance_offsets buf (of_nat (length line))) (ls @ [line])"
proof -
  let ?n = "length ls"
  have d: "w_abs buf - start_abs buf = of_nat (min ?n 10)"
    using o by (auto simp: offsets_repr_def min_def of_nat_diff)
  have ge: "10 \<le> w_abs buf - start_abs buf \<longleftrightarrow> 10 \<le> ?n"
    unfolding d by (simp add: word_le_nat_alt min_def)
  note fields = advance_offsets_fields [of buf "of_nat (length line)", unfolded ge]
  have io: "in_offs (advance_offsets buf (of_nat (length line))) = of_nat (Suc ?n mod 10)"
  proof -
    have "in_offs buf = of_nat (?n mod 10)"
      using o by (simp add: offsets_repr_def)
    then show ?thesis
      unfolding advance_offsets_fields by (simp only: in_offs_next)
  qed
  show ?thesis
  proof (cases "10 \<le> ?n")
    case True
    have "start_abs buf + 1 = of_nat (?n - 9)"
      using o True by (simp add: offsets_repr_def of_nat_diff)
    then have "unat ((start_abs buf + 1) mod 10) = (?n - 9) mod 10"
      using n by (simp add: unat_mod_10)
    with True slot have "ucast (bsize (entry buf ! unat ((start_abs buf + 1) mod 10)))
        = (of_nat (length ((ls @ [line]) ! (?n - 9))) :: u32)"
      by simp
    with True o n io take_tl_append [OF True, of line] show ?thesis
      by (simp add: offsets_repr_def fields of_nat_diff)
  next
    case False
    with o n io show ?thesis
      by (simp add: offsets_repr_def fields)
  qed
qed

lemma slot_index_exists:
  assumes "j < 10" and "j < n"
  shows "\<exists>i<n. n \<le> i + 10 \<and> i mod 10 = (j::nat)"
proof (intro exI conjI)
  let ?d = "(n - 1 - j) mod 10" and ?q = "(n - 1 - j) div 10"
  have "n - 1 - j = 10 * ?q + ?d" by simp
  with assms(2) have "n - 1 - ?d = j + 10 * ?q" by linarith
  with assms(1) show "(n - 1 - ?d) mod 10 = j" by simp
  have "?d < 10" by simp
  then show "n \<le> n - 1 - ?d + 10" by linarith
  show "n - 1 - ?d < n" using assms(2) by linarith
qed

text \<open>A slot that points to a block points to a live one: a line of the window.\<close>

lemma slots_repr_owned:
  assumes r: "slots_repr m es ls" and "j < 10" and b: "buffptr (es ! j) = Blk b"
  shows "\<exists>i<length ls. length ls \<le> i + 10 \<and> i mod 10 = j \<and> m b = Some (ls ! i)"
proof (cases "j < length ls")
  case True
  obtain i where i: "i < length ls" "length ls \<le> i + 10" "i mod 10 = j"
    using slot_index_exists [OF assms(2) True] by blast
  with slots_reprD(1) [OF r i(1,2)] b show ?thesis by auto
next
  case False
  with r assms(2) b show ?thesis by (simp add: slots_repr_def zero_entry_def)
qed

lemma owned_live: "slots_repr m es ls \<Longrightarrow> owned es b \<Longrightarrow> m b \<noteq> None"
  by (auto simp: owned_def dest: slots_repr_owned)

lemma owned_update:
  "length es = 10 \<Longrightarrow> w < 10 \<Longrightarrow>
   owned (es[w := e]) b \<longleftrightarrow> buffptr e = Blk b \<or> (\<exists>j<10. j \<noteq> w \<and> buffptr (es ! j) = Blk b)"
  by (auto simp: owned_def nth_list_update)

text \<open>Releasing the memory of the slot that is about to be overwritten.\<close>

lemma free_target:
  assumes h: "heap_is h m k" and r: "slots_repr m es ls"
  defines "target \<equiv> es ! (length ls mod 10)"
  shows "\<exists>h1 m1. (if buffptr target \<noteq> NULL then kfree h (buffptr target) else Inr h) = Inr h1 \<and>
    heap_is h1 m1 (if length ls < 10 then k else k - 1) \<and> (10 \<le> length ls \<longrightarrow> 0 < k) \<and>
    (\<forall>b. buffptr target \<noteq> Blk b \<longrightarrow> m1 b = m b) \<and>
    (\<forall>b. buffptr target = Blk b \<longrightarrow> m1 b = None)"
proof (cases "length ls < 10")
  case True
  with slots_repr_target [OF r] have "target = zero_entry" by (simp add: target_def)
  with h True show ?thesis by (auto simp: zero_entry_def)
next
  case False
  then obtain b where b: "buffptr target = Blk b" "m b = Some (ls ! (length ls - 10))"
    using slots_repr_target [OF r] by (auto simp: target_def)
  obtain h1 where "kfree h (Blk b) = Inr h1" "heap_is h1 (m(b := None)) (k - 1)" "0 < k"
    using kh.dealloc [OF h b(2)] by blast
  with b(1) False show ?thesis by auto
qed

lemma commit_line_refines:
  assumes h: "heap_is h m k" and r: "ring_repr m buf ls"
    and t: "buffptr tmp = Blk t" "m t = Some line" "\<not> owned (entry buf) t"
      "bsize tmp = of_nat (length line)"
    and line: "line_ok line" and n: "Suc (length ls) < 4294967296"
  shows "\<exists>h' m' buf'. commit_line h tmp buf = Inr (h', tmp\<lparr>bsize := 0\<rparr>, buf') \<and>
    heap_is h' m' (if length ls < 10 then k else k - 1) \<and> ring_repr m' buf' (ls @ [line]) \<and>
    (\<forall>b. b \<noteq> t \<and> m b \<noteq> None \<and> \<not> owned (entry buf) b \<longrightarrow>
         m' b = m b \<and> \<not> owned (entry buf') b)"
proof -
  let ?w = "length ls mod 10" and ?es = "entry buf"
  have slots: "slots_repr m ?es ls" and offs: "offsets_repr buf ls" and len: "length ?es = 10"
    using r by (auto simp: ring_repr_def slots_repr_def)
  have wi: "unat (ucast (w_abs buf mod 10) :: u8) = ?w"
    using offs unat_ring_slot [of "length ls"] by (simp add: offsets_repr_def)
  have sz: "unat (bsize tmp) = length line" "0 < length line" "length line \<le> KMALLOC_MAX_SIZE"
    using line t(4) by (auto simp: line_ok_def KMALLOC_MAX_SIZE_def)
  obtain h1 m1 where f: "(if buffptr (?es ! ?w) \<noteq> NULL then kfree h (buffptr (?es ! ?w)) else Inr h) = Inr h1"
    "heap_is h1 m1 (if length ls < 10 then k else k - 1)" "10 \<le> length ls \<longrightarrow> 0 < k"
    and m1: "\<And>b. buffptr (?es ! ?w) \<noteq> Blk b \<Longrightarrow> m1 b = m b"
      "\<And>b. buffptr (?es ! ?w) = Blk b \<Longrightarrow> m1 b = None"
    using free_target [OF h slots] by blast
  obtain p h2 bs where p: "kmalloc h1 (bsize tmp) = (Blk p, h2)" "m1 p = None" "length bs = length line"
    "heap_is h2 (m1(p \<mapsto> bs)) (Suc (if length ls < 10 then k else k - 1))"
    using kh.alloc [OF f(2), of "bsize tmp"] sz by auto
  have tw: "buffptr (?es ! ?w) \<noteq> Blk t"
    using t(3) by (auto simp: owned_def)
  then have tp: "p \<noteq> t" "m1 t = Some line"
    using m1(1) [of t] t(2) p(2) by auto
  obtain h3 where c: "memcpy h2 (Blk p) 0 (Blk t) 0 (length line) = Inr h3"
    "heap_is h3 (m1(p \<mapsto> line)) (Suc (if length ls < 10 then k else k - 1))"
    using memcpy_Blk [OF p(4), of t line p bs 0 "length line" 0] tp p(3) by (auto simp: patch_all)
  obtain h4 where d: "kfree h3 (Blk t) = Inr h4"
    "heap_is h4 ((m1(p \<mapsto> line))(t := None)) (if length ls < 10 then k else k - 1)"
    using kh.dealloc [OF c(2), of t line] tp by auto
  let ?m = "(m1(p \<mapsto> line))(t := None)" and ?e = "\<lparr>buffptr = Blk p, bsize = bsize tmp\<rparr>"
  let ?buf = "advance_offsets (buf\<lparr>entry := ?es[?w := ?e]\<rparr>) (bsize tmp)"
  have run: "commit_line h tmp buf = Inr (h4, tmp\<lparr>bsize := 0\<rparr>, ?buf)"
    using f(1) p(1) c(1) d(1) t(1) sz(1) by (simp add: commit_line_def wi aesd_init_entry_def)
  have other: "p \<noteq> b \<and> b \<noteq> t \<and> m1 b = m b"
    if "j < 10" "j \<noteq> ?w" "buffptr (?es ! j) = Blk b" for j b
  proof -
    have "buffptr (?es ! ?w) \<noteq> Blk b"
      using slots_distinctD [of ?es j ?w b] that slots by (auto simp: slots_repr_def)
    with m1(1) have "m1 b = m b" by blast
    moreover have "m b \<noteq> None" using slots_repr_owned [OF slots that(1,3)] by auto
    moreover have "owned ?es b" using that by (auto simp: owned_def)
    ultimately show ?thesis using p(2) t(3) by auto
  qed
  have fresh: "\<not> owned (?es[?w := zero_entry]) p"
    using other len by (auto simp: owned_update zero_entry_def)
  have "slots_repr ?m (?es[?w := ?e]) (ls @ [line])"
  proof -
    have "?m b = m b" if "owned ?es b" "buffptr (?es ! ?w) \<noteq> Blk b" for b
      using that other [of _ b] by (auto simp: owned_def)
    then show ?thesis
      using slots_repr_store [OF slots, of ?m p line] fresh tp(1) t(4) by simp
  qed
  then have s: "slots_repr ?m (entry ?buf) (ls @ [line])" by simp
  have "offsets_repr ?buf (ls @ [line])"
    unfolding t(4)
  proof (rule advance_offsets_repr [OF _ n])
    show "offsets_repr (buf\<lparr>entry := ?es[?w := \<lparr>buffptr = Blk p, bsize = of_nat (length line)\<rparr>]\<rparr>) ls"
      using offs by (simp add: offsets_repr_def)
    assume "10 \<le> length ls"
    then show "bsize (entry (buf\<lparr>entry := ?es[?w := \<lparr>buffptr = Blk p, bsize = of_nat (length line)\<rparr>]\<rparr>)
        ! ((length ls - 9) mod 10)) = of_nat (length ((ls @ [line]) ! (length ls - 9)))"
      using slots_reprD(2) [OF s, of "length ls - 9"] t(4) by simp
  qed
  with s r line have "ring_repr ?m ?buf (ls @ [line])"
    by (auto simp: ring_repr_def)
  moreover have "?m b = m b \<and> \<not> owned (entry ?buf) b"
    if "b \<noteq> t" "m b \<noteq> None" "\<not> owned ?es b" for b
  proof -
    have "buffptr (?es ! ?w) \<noteq> Blk b" using that(3) by (auto simp: owned_def)
    then have "m1 b = m b" by (rule m1(1))
    with that p(2) len show ?thesis by (auto simp: owned_def nth_list_update split: if_splits)
  qed
  ultimately show ?thesis
    using run d(2) by blast
qed

section \<open>Adding an entry\<close>

text \<open>
  The number of blocks that the ring, the pending bytes and the leaks account for; \<open>base\<close> is
  what the rest of the module holds.
\<close>

definition census :: "nat \<Rightarrow> line_log \<Rightarrow> nat" where
  "census base l = base + min (length (lines l)) 10 + (if pending l = [] then 0 else 1) + leaked l"

text \<open>What bytes a write may have: it is not empty and the line it makes can be allocated.\<close>

definition fits :: "line_log \<Rightarrow> byte list \<Rightarrow> bool" where
  "fits l bs \<longleftrightarrow> bs \<noteq> [] \<and> length (pending l) + length bs \<le> KMALLOC_MAX_SIZE \<and>
     Suc (length (lines l)) < 4294967296"

definition cb_repr ::
  "(nat \<Rightarrow> byte list option) \<Rightarrow> aesd_buffer_entry \<Rightarrow> aesd_circular_buffer \<Rightarrow> line_log \<Rightarrow> bool" where
  "cb_repr m tmp buf l \<longleftrightarrow> ring_repr m buf (lines l) \<and> tmp_repr m tmp (entry buf) (pending l)"

definition cb_owned :: "aesd_buffer_entry \<Rightarrow> aesd_circular_buffer \<Rightarrow> line_log \<Rightarrow> nat \<Rightarrow> bool" where
  "cb_owned tmp buf l b \<longleftrightarrow>
     owned (entry buf) b \<or> pending l \<noteq> [] \<and> buffptr tmp = Blk b"

text \<open>The first half: the new block of \<^verbatim>\<open>tmp_entry\<close> with the bytes so far and the new ones.\<close>

lemma collect_bytes:
  assumes h: "heap_is h m k" and t: "tmp_repr m tmp es pend"
    and a: "m a = Some bs" "bs \<noteq> []" and fit: "length pend + length bs \<le> KMALLOC_MAX_SIZE"
    and n: "n = bsize tmp + of_nat (length bs)"
  shows "unat n = length pend + length bs \<and>
    (\<exists>t' h1 h2 h3 h4. kmalloc h n = (Blk t', h1) \<and> m t' = None \<and>
      memset h1 (Blk t') nul (unat n) = Inr h2 \<and>
      (if buffptr tmp \<noteq> NULL then memcpy h2 (Blk t') 0 (buffptr tmp) 0 (unat (bsize tmp)) else Inr h2) = Inr h3 \<and>
      memcpy h3 (Blk t') (int (unat (bsize tmp))) (Blk a) 0 (length bs) = Inr h4 \<and>
      heap_is h4 (m(t' \<mapsto> pend @ bs)) (Suc k))"
proof -
  have ts: "bsize tmp = of_nat (length pend)" and up: "unat (bsize tmp) = length pend"
    using t by (auto simp: tmp_repr_def KMALLOC_MAX_SIZE_def)
  have un: "unat n = length pend + length bs"
  proof -
    have "n = of_nat (length pend + length bs)" using n ts by simp
    with fit show ?thesis by (simp only: unat_of_nat64 KMALLOC_MAX_SIZE_def)
  qed
  obtain t' h1 js where al: "kmalloc h n = (Blk t', h1)" "m t' = None" "length js = unat n"
    "heap_is h1 (m(t' \<mapsto> js)) (Suc k)"
    using kh.alloc [OF h, of n] un a(2) fit by auto
  obtain h2 where ms: "memset h1 (Blk t') nul (unat n) = Inr h2"
    "heap_is h2 (m(t' \<mapsto> replicate (unat n) nul)) (Suc k)"
    using memset_Blk [OF al(4), of t' js "unat n" nul] al(3) by auto
  let ?z = "pend @ replicate (length bs) nul"
  have "\<exists>h3. (if buffptr tmp \<noteq> NULL then memcpy h2 (Blk t') 0 (buffptr tmp) 0 (unat (bsize tmp)) else Inr h2)
      = Inr h3 \<and> heap_is h3 (m(t' \<mapsto> ?z)) (Suc k)"
  proof (cases "pend = []")
    case True
    with up ms(2) un show ?thesis by simp
  next
    case False
    then obtain b where b: "buffptr tmp = Blk b" "m b = Some pend"
      using t by (auto simp: tmp_repr_def)
    have "patch (replicate (unat n) nul) 0 pend = ?z"
      by (simp add: patch_def un)
    moreover have "b \<noteq> t'" using b(2) al(2) by auto
    ultimately show ?thesis
      using memcpy_Blk [OF ms(2), of b pend t' "replicate (unat n) nul" 0 "length pend" 0] b up un
      by auto
  qed
  then obtain h3 where c: "(if buffptr tmp \<noteq> NULL then memcpy h2 (Blk t') 0 (buffptr tmp) 0 (unat (bsize tmp)) else Inr h2) = Inr h3"
    "heap_is h3 (m(t' \<mapsto> ?z)) (Suc k)" by blast
  have "patch ?z (length pend) bs = pend @ bs"
    by (simp add: patch_def)
  moreover have "a \<noteq> t'" using a(1) al(2) by auto
  ultimately obtain h4 where d: "memcpy h3 (Blk t') (int (unat (bsize tmp))) (Blk a) 0 (length bs) = Inr h4"
    "heap_is h4 (m(t' \<mapsto> pend @ bs)) (Suc k)"
    using memcpy_Blk [OF c(2), of a bs t' ?z 0 "length bs" "length pend"] a(1) up by auto
  show ?thesis
    using un al(1,2) ms(1) c(1) d by blast
qed

lemma ring_repr_frame:
  assumes r: "ring_repr m buf ls" and same: "\<And>b. owned (entry buf) b \<Longrightarrow> m' b = m b"
  shows "ring_repr m' buf ls"
proof -
  have slots: "slots_repr m (entry buf) ls" using r by (simp add: ring_repr_def)
  have "slot_holds m' (entry buf ! (i mod 10)) (ls ! i)" if i: "i < length ls" "length ls \<le> i + 10" for i
  proof -
    obtain b where b: "buffptr (entry buf ! (i mod 10)) = Blk b" "m b = Some (ls ! i)"
      using slots_reprD(1) [OF slots i] by blast
    then have "owned (entry buf) b"
      unfolding owned_def by (intro exI [of _ "i mod 10"]) simp
    with same b slots_reprD(2) [OF slots i] show ?thesis by (simp add: slot_holds_def)
  qed
  with r show ?thesis by (simp add: ring_repr_def slots_repr_def)
qed

lemma cb_owned_live: "cb_repr m tmp buf l \<Longrightarrow> cb_owned tmp buf l b \<Longrightarrow> m b \<noteq> None"
  using owned_live [of m "entry buf" "lines l" b]
  by (auto simp: cb_owned_def cb_repr_def ring_repr_def tmp_repr_def)

lemma cb_repr_frame:
  assumes r: "cb_repr m tmp buf l" and k: "\<not> cb_owned tmp buf l k"
  shows "cb_repr (m(k := v)) tmp buf l"
proof -
  have "ring_repr (m(k := v)) buf (lines l)"
    by (rule ring_repr_frame [of m]) (use assms in \<open>auto simp: cb_repr_def cb_owned_def\<close>)
  moreover have "tmp_repr (m(k := v)) tmp (entry buf) (pending l)"
    using assms by (auto simp: cb_repr_def cb_owned_def tmp_repr_def)
  ultimately show ?thesis by (simp add: cb_repr_def)
qed

lemma line_ok_log:
  "fits l bs \<Longrightarrow> last bs = newline \<Longrightarrow> line_ok (pending l @ bs)"
  by (auto simp: fits_def line_ok_def)

lemma add_entry_refines:
  assumes h: "heap_is h m (census base l)" and r: "cb_repr m tmp buf l"
    and e: "buffptr e = Blk a" "bsize e = of_nat (length bs)"
    and a: "m a = Some bs" "\<not> cb_owned tmp buf l a" and fit: "fits l bs"
  shows "\<exists>h' m' tmp' buf'.
    aesd_circular_buffer_add_entry h tmp buf e = Inr (h', tmp', buf') \<and>
    heap_is h' m' (census base (log_add l bs)) \<and> cb_repr m' tmp' buf' (log_add l bs) \<and>
    (\<forall>b. m b \<noteq> None \<and> \<not> cb_owned tmp buf l b \<longrightarrow>
         m' b = m b \<and> \<not> cb_owned tmp' buf' (log_add l bs) b)"
proof -
  have bs: "bs \<noteq> []" "length (pending l) + length bs \<le> KMALLOC_MAX_SIZE"
    and n: "Suc (length (lines l)) < 4294967296"
    using fit by (auto simp: fits_def)
  have ring: "ring_repr m buf (lines l)" and t: "tmp_repr m tmp (entry buf) (pending l)"
    using r by (auto simp: cb_repr_def)
  let ?n = "bsize tmp + bsize e" and ?line = "pending l @ bs"
  have ub: "unat (bsize e) = length bs" "unat (bsize e - 1) = length bs - 1"
  proof -
    show u: "unat (bsize e) = length bs" using e(2) bs(2) by (simp add: KMALLOC_MAX_SIZE_def)
    then have "bsize e \<noteq> 0" using bs(1) by auto
    then show "unat (bsize e - 1) = length bs - 1" using u by (simp add: unat_minus_one)
  qed
  obtain t' h1 h2 h3 h4 where c: "unat ?n = length ?line" "kmalloc h ?n = (Blk t', h1)" "m t' = None"
    "memset h1 (Blk t') nul (unat ?n) = Inr h2"
    "(if buffptr tmp \<noteq> NULL then memcpy h2 (Blk t') 0 (buffptr tmp) 0 (unat (bsize tmp)) else Inr h2) = Inr h3"
    "memcpy h3 (Blk t') (int (unat (bsize tmp))) (Blk a) 0 (length bs) = Inr h4"
    and h4: "heap_is h4 (m(t' \<mapsto> ?line)) (Suc (census base l))"
    using collect_bytes [OF h t a(1) bs, of ?n] e(2) by auto
  let ?m = "m(t' \<mapsto> ?line)" and ?tmp = "tmp\<lparr>buffptr := Blk t', bsize := ?n\<rparr>"
  have "load h4 (Blk a) (int (length bs - 1)) 1 = Inr (take 1 (drop (length bs - 1) bs))"
    by (rule kh.rd [OF h4]) (use a(1) c(3) bs(1) in auto)
  also have "take 1 (drop (length bs - 1) bs) = [last bs]"
    using bs(1) by (metis append_butlast_last_id append_eq_conv_conj length_butlast take_Suc_Cons take_eq_Nil One_nat_def append_take_drop_id append_Nil2 take_all order_refl length_Cons list.size(3))
  finally have l: "load h4 (Blk a) (int (length bs - 1)) 1 = Inr [last bs]" .
  have run: "aesd_circular_buffer_add_entry h tmp buf e =
      (if last bs = newline then commit_line h4 ?tmp buf else Inr (h4, ?tmp, buf))"
    using c l by (cases "buffptr tmp = NULL")
      (simp_all add: aesd_circular_buffer_add_entry_def Let_def ub e(1))
  have nt: "\<not> owned (entry buf) t'"
    using ring c(3) owned_live [of m "entry buf" "lines l" t'] by (auto simp: ring_repr_def)
  have ring': "ring_repr ?m buf (lines l)"
    by (rule ring_repr_frame [OF ring]) (use nt in auto)
  have sz: "?n = of_nat (length ?line)"
    using t e(2) by (simp add: tmp_repr_def)
  show ?thesis
  proof (cases "last bs = newline")
    case True
    obtain h' m' buf' where w: "commit_line h4 ?tmp buf = Inr (h', ?tmp\<lparr>bsize := 0\<rparr>, buf')"
      "heap_is h' m' (if length (lines l) < 10 then Suc (census base l) else Suc (census base l) - 1)"
      "ring_repr m' buf' (lines l @ [?line])"
      and fr: "\<forall>b. b \<noteq> t' \<and> ?m b \<noteq> None \<and> \<not> owned (entry buf) b \<longrightarrow> m' b = ?m b \<and> \<not> owned (entry buf') b"
      using commit_line_refines [OF h4 ring', of ?tmp t' ?line] nt sz line_ok_log [OF fit True] n by auto
    have "census base (log_add l bs) =
        (if length (lines l) < 10 then Suc (census base l) else Suc (census base l) - 1)"
      using True by (auto simp: census_def log_add_def Let_def)
    moreover have "cb_repr m' (?tmp\<lparr>bsize := 0\<rparr>) buf' (log_add l bs)"
      using w(3) True by (simp add: cb_repr_def log_add_def Let_def tmp_repr_def)
    moreover have "m' b = m b \<and> \<not> cb_owned (?tmp\<lparr>bsize := 0\<rparr>) buf' (log_add l bs) b"
      if "m b \<noteq> None" "\<not> cb_owned tmp buf l b" for b
    proof -
      have "b \<noteq> t'" "\<not> owned (entry buf) b"
        using that c(3) by (auto simp: cb_owned_def)
      with fr that(1) have "m' b = m b \<and> \<not> owned (entry buf') b"
        by (metis fun_upd_apply)
      with True show ?thesis by (simp add: cb_owned_def log_add_def Let_def)
    qed
    ultimately show ?thesis using run w(1,2) True by auto
  next
    case False
    have "census base (log_add l bs) = Suc (census base l)"
      using False bs(1) by (auto simp: census_def log_add_def Let_def)
    moreover have "cb_repr ?m ?tmp buf (log_add l bs)"
      using ring' False bs(2) sz nt by (simp add: cb_repr_def log_add_def Let_def tmp_repr_def)
    moreover have "?m b = m b \<and> \<not> cb_owned ?tmp buf (log_add l bs) b"
      if "m b \<noteq> None" "\<not> cb_owned tmp buf l b" for b
      using that c(3) False by (auto simp: cb_owned_def log_add_def Let_def)
    ultimately show ?thesis using run h4 False by auto
  qed
qed

end
