(* ===== verification/Ring_Read.thy ===== *)
theory Ring_Read
  imports Ring_Refinement
begin

text \<open>
  Reading from the ring. \<open>locate\<close> is what finding a position means on the lines of the window;
  the walk of \<^verbatim>\<open>find_entry_offset_and_index\<close> is shown to compute it on the lines in the
  order of the slots (\<open>slot_order\<close>), and \<^verbatim>\<open>aesd_circular_buffer_raed\<close> to copy the bytes from
  the line of the window with the index found (\<open>served\<close>). Where the sizes are the same in both
  orders (\<open>in_order\<close>), in particular until a line was evicted, this is the contents of the
  window from the position on.
\<close>

section \<open>Positions in a list of lines\<close>

fun locate :: "byte list list \<Rightarrow> nat \<Rightarrow> nat \<times> nat" where
  "locate [] k = (0, k)"
| "locate (x # xs) k =
     (if k < length x then (0, k)
      else (let (i, j) = locate xs (k - length x) in (Suc i, j)))"

lemma locate_Cons:
  "locate (x # xs) k =
     (if k < length x then (0, k)
      else (Suc (fst (locate xs (k - length x))), snd (locate xs (k - length x))))"
  by (simp add: case_prod_unfold Let_def)

declare locate.simps(2) [simp del] locate_Cons [simp]

lemma locate_le: "fst (locate xs k) \<le> length xs"
  by (induction xs arbitrary: k) auto

lemma locate_inside: "fst (locate xs k) < length xs \<longleftrightarrow> k < length (concat xs)"
proof (induction xs arbitrary: k)
  case Nil
  then show ?case by simp
next
  case (Cons x xs)
  have "k - length x < length (concat xs) \<longleftrightarrow> k < length x + length (concat xs)" if "\<not> k < length x"
    using that by linarith
  with Cons.IH [of "k - length x"] show ?case by auto
qed

lemma locate_drop:
  "k < length (concat xs) \<Longrightarrow> locate xs k = (i, j) \<Longrightarrow>
   i < length xs \<and> j < length (xs ! i) \<and>
   drop k (concat xs) = drop j (xs ! i) @ concat (drop (Suc i) xs)"
proof (induction xs arbitrary: k i j)
  case Nil
  then show ?case by simp
next
  case (Cons x xs)
  show ?case
  proof (cases "k < length x")
    case True
    with Cons.prems show ?thesis by auto
  next
    case False
    obtain i' where i': "locate xs (k - length x) = (i', j)" "i = Suc i'"
      using Cons.prems(2) False by (auto simp: prod_eq_iff)
    have "k - length x < length (concat xs)"
      using Cons.prems(1) False by simp
    from Cons.IH [OF this i'(1)] i'(2) False show ?thesis by simp
  qed
qed

section \<open>The order of the slots\<close>

text \<open>
  The lines of the window in the order of the slots they are in: the line in slot \<open>j\<close> is the
  last one whose number is \<open>j\<close> modulo 10.
\<close>

definition slot_line :: "nat \<Rightarrow> nat \<Rightarrow> nat" where
  "slot_line n j = n - 1 - (n - 1 - j) mod 10"

definition slot_order :: "byte list list \<Rightarrow> byte list list" where
  "slot_order ls = map (\<lambda>j. ls ! slot_line (length ls) j) [0..<min (length ls) 10]"

text \<open>Whether the sizes of the lines are the same in both orders.\<close>

definition in_order :: "byte list list \<Rightarrow> bool" where
  "in_order ls \<longleftrightarrow> map length (slot_order ls) = map length (window ls)"

lemma length_slot_order [simp]: "length (slot_order ls) = min (length ls) 10"
  by (simp add: slot_order_def)

lemma slot_line:
  assumes "j < 10" and "j < n"
  shows "slot_line n j < n" "n \<le> slot_line n j + 10" "slot_line n j mod 10 = j"
proof -
  let ?d = "(n - 1 - j) mod 10" and ?q = "(n - 1 - j) div 10"
  have "n - 1 - j = 10 * ?q + ?d" by simp
  with assms(2) have "n - 1 - ?d = j + 10 * ?q" by linarith
  with assms(1) show "slot_line n j mod 10 = j" by (simp add: slot_line_def)
  have "?d < 10" by simp
  then show "n \<le> slot_line n j + 10" unfolding slot_line_def by linarith
  show "slot_line n j < n" unfolding slot_line_def using assms(2) by linarith
qed

lemma nth_slot_order:
  "j < min (length ls) 10 \<Longrightarrow> slot_order ls ! j = ls ! slot_line (length ls) j"
  by (simp add: slot_order_def)

lemma set_slot_order: "set (slot_order ls) \<subseteq> set ls"
  by (auto simp: slot_order_def slot_line)

text \<open>The orders agree until the first eviction and after every tenth; the sizes also agree when
  all lines of the window have the same length.\<close>

lemma slot_order_aligned:
  assumes "(length ls - 10) mod 10 = 0" shows "slot_order ls = window ls"
proof (rule nth_equalityI)
  fix j assume j: "j < length (slot_order ls)"
  then have "(length ls - 10 + j) mod 10 = j"
    using assms mod_add_left_eq [of "length ls - 10" 10 j] by simp
  moreover have "slot_line (length ls) j mod 10 = j" "length ls \<le> slot_line (length ls) j + 10"
    "slot_line (length ls) j < length ls"
    using j slot_line [of j "length ls"] by auto
  moreover have "length ls \<le> length ls - 10 + j + 10" by arith
  ultimately have "slot_line (length ls) j = length ls - 10 + j"
    using j mod_eq_within [of "slot_line (length ls) j" 10 "length ls - 10 + j"]
      mod_eq_within [of "length ls - 10 + j" 10 "slot_line (length ls) j"]
    by (cases "slot_line (length ls) j \<le> length ls - 10 + j") auto
  with j show "slot_order ls ! j = window ls ! j"
    by (simp add: nth_slot_order nth_window)
qed simp

lemma in_order_aligned: "(length ls - 10) mod 10 = 0 \<Longrightarrow> in_order ls"
  by (simp add: in_order_def slot_order_aligned)

lemma in_order_uniform:
  assumes "\<forall>line \<in> set (window ls). length line = c" shows "in_order ls"
  unfolding in_order_def
proof (rule nth_equalityI)
  fix j assume "j < length (map length (slot_order ls))"
  then have j: "j < length ls" "j < 10" by auto
  let ?i = "slot_line (length ls) j"
  have i: "?i < length ls" "length ls \<le> ?i + 10"
    using slot_line [OF j(2,1)] by auto
  then have "window ls ! (?i - (length ls - 10)) = ls ! ?i" and "?i - (length ls - 10) < length (window ls)"
    by (auto simp: window_def)
  then have "ls ! ?i \<in> set (window ls)" by (metis nth_mem)
  moreover have "window ls ! j \<in> set (window ls)" using j by (intro nth_mem) simp
  ultimately show "map length (slot_order ls) ! j = map length (window ls) ! j"
    using assms j by (simp add: nth_slot_order)
qed simp

text \<open>In general the array is the window, turned; so both have the same number of bytes.\<close>

lemma slot_order_rotate:
  assumes "10 \<le> length ls"
  shows "slot_order ls = rotate ((10 - length ls mod 10) mod 10) (window ls)"
proof (rule nth_equalityI)
  let ?n = "length ls" and ?m = "(10 - length ls mod 10) mod 10"
  fix j assume "j < length (slot_order ls)"
  then have j: "j < 10" "j < ?n" using assms by auto
  let ?i = "?n - 10 + (?m + j) mod 10"
  have "?i mod 10 = (?n - 10 + (10 - ?n mod 10) + j) mod 10" by (simp add: mod_simps add.assoc)
  also have "?n - 10 + (10 - ?n mod 10) = 10 * (?n div 10)"
    using assms by (simp add: minus_mod_eq_mult_div [symmetric])
  also have "(10 * (?n div 10) + j) mod 10 = j" using j(1) by simp
  finally have m: "slot_line ?n j mod 10 = ?i mod 10" using slot_line(3) [OF j] by simp
  have "(?m + j) mod 10 < 10" by simp
  then have i: "?i < ?n" "?n \<le> ?i + 10" using assms by linarith+
  have "slot_line ?n j = ?i"
    by (rule mod_eq_near [OF m]) (use i slot_line [OF j] in linarith)+
  then show "slot_order ls ! j = rotate ?m (window ls) ! j"
    using assms j by (simp add: nth_slot_order nth_rotate nth_window)
qed (simp)

lemma length_slot_bytes: "length (concat (slot_order ls)) = length (contents ls)"
proof (cases "10 \<le> length ls")
  case True
  have "length (concat (rotate k xs)) = length (concat xs)" for k and xs :: "byte list list"
  proof -
    have "length (concat (rotate k xs)) =
        length (concat (take (k mod length xs) xs @ drop (k mod length xs) xs))"
      by (simp only: rotate_drop_take concat_append length_append add.commute)
    then show ?thesis by simp
  qed
  with True show ?thesis by (simp add: slot_order_rotate contents_def)
next
  case False
  then show ?thesis by (simp add: slot_order_aligned contents_def)
qed
lemma slot_sizes:
  assumes "ring_repr m buf ls" and "j < min (length ls) 10"
  shows "bsize (entry buf ! j) = of_nat (length (slot_order ls ! j))"
proof -
  have slots: "slots_repr m (entry buf) ls" using assms(1) by (simp add: ring_repr_def)
  have j: "j < 10" "j < length ls" using assms(2) by auto
  from slots_reprD(2) [OF slots slot_line(1,2) [OF j]] slot_line(3) [OF j] assms(2)
  show ?thesis by (simp add: nth_slot_order)
qed

lemma slot_order_lines: "ring_repr m buf ls \<Longrightarrow> line \<in> set (slot_order ls) \<Longrightarrow> line_ok line"
  using set_slot_order [of ls] by (auto simp: ring_repr_def)

lemma slot_order_bound:
  assumes "ring_repr m buf ls" shows "length (concat (slot_order ls)) \<le> 41943040"
proof -
  have "sum_list (map length (slot_order ls)) \<le> sum_list (map (\<lambda>_. KMALLOC_MAX_SIZE) (slot_order ls))"
    by (rule sum_list_mono) (use slot_order_lines [OF assms] in \<open>auto simp: line_ok_def\<close>)
  also have "\<dots> \<le> 10 * KMALLOC_MAX_SIZE"
    by (simp add: sum_list_triv KMALLOC_MAX_SIZE_def)
  finally show ?thesis by (simp add: length_concat KMALLOC_MAX_SIZE_def)
qed

section \<open>\<^verbatim>\<open>find_entry_offset_and_index\<close> computes \<open>locate\<close>\<close>

text \<open>One step of the walk, at the \<open>j\<close>-th slot, with \<open>t\<close> bytes passed.\<close>

lemma find_index_step:
  assumes start: "start_abs buf = of_nat s" and w: "w_abs buf = of_nat n" "n < 2147483648"
    and j: "j < 10" "s + j < n" and e: "bsize (entry buf ! j) = of_nat x" "0 < x"
    and t: "t + x \<le> 41943040" and i: "i = of_nat (s + j)" and T: "T = of_nat t"
  shows "find_index_loop buf off i T =
    (if unat off < t + x then Inr (i, Some (off - of_nat t))
     else if n \<le> s + j + 1 then Inr (i + 1, None)
     else find_index_loop buf off (i + 1) (of_nat (t + x)))"
proof -
  have idx: "unat (i - start_abs buf) = j"
    using start j i by (simp add: unat_of_nat_small)
  have sc: "scast T = (of_nat t :: u64)"
    unfolding T by (rule scast_of_nat_32_64) (use t in simp)
  define W where "W = (of_nat (t + x) :: u64)"
  have tot: "of_nat t + bsize (entry buf ! j) = W"
    using e by (simp add: W_def)
  have "unat W = t + x"
    unfolding W_def by (rule unat_of_nat64) (use t in simp)
  then have c: "off < W \<longleftrightarrow> unat off < t + x"
    by (simp only: word_less_nat_alt)
  have tr: "(ucast W :: u32) = of_nat (t + x)"
    unfolding W_def by (rule ucast_of_nat_64_32)
  have "unat (bsize (entry buf ! j)) = x"
    unfolding e(1) by (rule unat_of_nat64) (use t in simp)
  then have z: "bsize (entry buf ! j) \<noteq> 0"
    using e(2) by auto
  have "i + 1 = of_nat (s + j + 1)"
    using i by simp
  then have le: "w_abs buf \<le> i + 1 \<longleftrightarrow> n \<le> s + j + 1"
    using w j of_nat_le_u32 [of n "s + j + 1"] by (simp only: add_less_mono) 
  show ?thesis
    by (subst find_index_loop.simps)
      (simp only: entry_at_def idx j(1) sc tot c z le tr if_True bnd.simps simp_thms)
qed

lemma find_index_walk:
  assumes start: "start_abs buf = of_nat s" and w: "w_abs buf = of_nat n" "n < 2147483648"
    and sizes: "\<forall>i<length xs. bsize (entry buf ! (j + i)) = of_nat (length (xs ! i))"
    and xs: "xs \<noteq> []" "[] \<notin> set xs" "j + length xs \<le> 10" "s + j + length xs = n"
    and t: "t + length (concat xs) \<le> 41943040" "t \<le> unat off"
    and i: "i = of_nat (s + j)" and T: "T = of_nat t"
  shows "find_index_loop buf off i T =
    (let (a, k) = locate xs (unat off - t) in
     if a < length xs then Inr (of_nat (s + j + a), Some (of_nat k)) else Inr (of_nat n, None))"
  using sizes xs t i T
proof (induction xs arbitrary: j t i T)
  case Nil
  then show ?case by simp
next
  case (Cons x xs)
  note p = Cons.prems
  have x: "0 < length x" "bsize (entry buf ! j) = of_nat (length x)"
    using p(1,3) by (auto dest: spec [of _ 0])
  have step: "find_index_loop buf off i T =
    (if unat off < t + length x then Inr (i, Some (off - of_nat t))
     else if n \<le> s + j + 1 then Inr (i + 1, None)
     else find_index_loop buf off (i + 1) (of_nat (t + length x)))"
    by (rule find_index_step [OF start w]) (use p x in auto)
  show ?case
  proof (cases "unat off < t + length x")
    case True
    have "off - of_nat t = of_nat (unat off - t)"
      using p(7) by (simp add: of_nat_diff)
    then have hit: "find_index_loop buf off i T = Inr (i, Some (of_nat (unat off - t)))"
      using step True by (simp only: if_True)
    show ?thesis
      unfolding hit using True p(7,8) by (simp add: less_diff_conv2)
  next
    case False
    show ?thesis
    proof (cases "xs = []")
      case True
      then have n: "n = s + j + 1" using p(5) by simp
      then have past: "find_index_loop buf off i T = Inr (of_nat n, None)"
        unfolding step using False p(8) by simp
      show ?thesis
        unfolding past using True False p(7) by (simp add: less_diff_conv2 add.commute)
    next
      case nonempty: False
      have "find_index_loop buf off (i + 1) (of_nat (t + length x)) =
        (let (a, k) = locate xs (unat off - (t + length x)) in
         if a < length xs then Inr (of_nat (s + Suc j + a), Some (of_nat k)) else Inr (of_nat n, None))"
      proof (rule Cons.IH)
        show "\<forall>i<length xs. bsize (entry buf ! (Suc j + i)) = of_nat (length (xs ! i))"
          using p(1) by (auto dest: spec [of _ "Suc _"])
      qed (use p False nonempty in \<open>auto simp: add.commute\<close>)
      moreover have "\<not> n \<le> s + j + 1"
        using p(5) nonempty by (cases xs) auto
      ultimately have on: "find_index_loop buf off i T =
        (let (a, k) = locate xs (unat off - (t + length x)) in
         if a < length xs then Inr (of_nat (s + Suc j + a), Some (of_nat k)) else Inr (of_nat n, None))"
        using False step by (simp only: if_False)
      show ?thesis
        unfolding on using False p(7) by (simp add: less_diff_conv2 case_prod_unfold Let_def add.commute)
    qed
  qed
qed

text \<open>Where the walk ends: the absolute index of a line, and an offset.\<close>

definition found :: "byte list list \<Rightarrow> nat \<Rightarrow> s32 \<times> u64 option" where
  "found ls k =
     (let (i, j) = locate (slot_order ls) k in
      if i < length (slot_order ls) then (of_nat (length ls - 10 + i), Some (of_nat j))
      else (of_nat (length ls), if ls = [] then Some (of_nat k) else None))"

lemma find_index_found:
  assumes r: "ring_repr m buf ls" and n: "length ls < 2147483648"
  shows "aesd_circular_buffer_find_entry_offset_and_index_for_fpos buf off = Inr (found ls (unat off))"
proof -
  have start: "start_abs buf = of_nat (length ls - 10)" and w: "w_abs buf = of_nat (length ls)"
    using r by (auto simp: ring_repr_def offsets_repr_def)
  show ?thesis
  proof (cases "ls = []")
    case True
    then have "entry buf ! 0 = zero_entry"
      using r by (auto simp: ring_repr_def slots_repr_def)
    with True start show ?thesis
      by (simp add: aesd_circular_buffer_find_entry_offset_and_index_for_fpos_def
          find_index_loop.simps [of buf off] entry_at_def zero_entry_def found_def slot_order_def)
  next
    case False
    then have wl: "0 < length (slot_order ls)" by simp
    have ne: "[] \<notin> set (slot_order ls)"
      using slot_order_lines [OF r] by (auto simp: line_ok_def)
    have "find_index_loop buf off (start_abs buf) 0 =
      (let (i, k) = locate (slot_order ls) (unat off - 0) in
       if i < length (slot_order ls) then Inr (of_nat (length ls - 10 + 0 + i), Some (of_nat k))
       else Inr (of_nat (length ls), None))"
    proof (rule find_index_walk [OF start w n])
      show "0 + length (concat (slot_order ls)) \<le> 41943040"
        using slot_order_bound [OF r] by simp
      show "slot_order ls \<noteq> []" using wl by (metis length_greater_0_conv)
      show "\<forall>i<length (slot_order ls). bsize (entry buf ! (0 + i)) = of_nat (length (slot_order ls ! i))"
        using slot_sizes [OF r] by simp
    qed (use ne start in auto)
    with False start show ?thesis
      by (simp add: aesd_circular_buffer_find_entry_offset_and_index_for_fpos_def found_def
          case_prod_unfold Let_def)
  qed
qed

section \<open>Copying\<close>

text \<open>The reader changes no more of the ring than \<^verbatim>\<open>out_offs\<close> and \<^verbatim>\<open>full\<close>.\<close>

definition same_ring :: "aesd_circular_buffer \<Rightarrow> aesd_circular_buffer \<Rightarrow> bool" where
  "same_ring a b \<longleftrightarrow> entry b = entry a \<and> in_offs b = in_offs a \<and> w_abs b = w_abs a \<and>
     start_abs b = start_abs a \<and> w_char_abs b = w_char_abs a \<and> start_char_abs b = start_char_abs a"

lemma same_ring_refl [simp]: "same_ring a a"
  by (simp add: same_ring_def)

lemma same_ring_trans: "same_ring a b \<Longrightarrow> same_ring b c \<Longrightarrow> same_ring a c"
  by (simp add: same_ring_def)

lemma same_ring_upd [simp]:
  "same_ring a (b\<lparr>out_offs := x\<rparr>) \<longleftrightarrow> same_ring a b" "same_ring a (b\<lparr>full := y\<rparr>) \<longleftrightarrow> same_ring a b"
  by (simp_all add: same_ring_def)

lemma ring_repr_same: "same_ring a b \<Longrightarrow> ring_repr m b ls \<longleftrightarrow> ring_repr m a ls"
  by (simp add: ring_repr_def offsets_repr_def same_ring_def)

lemma ring_index_of_nat:
  assumes "i < 2147483648" shows "unat (ring_index (of_nat i)) = i mod 10"
proof -
  have "int i smod 10 = int (i mod 10)"
    by (simp add: signed_modulo_int_def signed_divide_int_def sgn_if minus_div_mult_eq_mod zmod_int)
  with assms show ?thesis
    by (simp add: ring_index_def sint_of_nat_32 unat_of_nat_small)
qed

text \<open>\<^verbatim>\<open>copy_len\<close>: what the entry still has, or what the destination still takes.\<close>

lemma copy_len_min:
  assumes "rl \<le> L" "L \<le> KMALLOC_MAX_SIZE" "x \<le> KMALLOC_MAX_SIZE"
  shows "(if (of_nat L :: u64) \<le> of_nat rl + of_nat x then of_nat L - of_nat rl else of_nat x)
    = (of_nat (min x (L - rl)) :: u64)"
proof -
  have "(of_nat L :: u64) \<le> of_nat (rl + x) \<longleftrightarrow> L \<le> rl + x"
    by (rule of_nat_le_u64) (use assms in \<open>auto simp: KMALLOC_MAX_SIZE_def\<close>)
  moreover have "min x (L - rl) = (if L \<le> rl + x then L - rl else x)"
    by auto
  ultimately show ?thesis using assms(1) by (simp add: of_nat_diff)
qed

lemma raed_body_round:
  assumes h: "heap_is (rl_heap st) m c" and ring: "ring_repr m (rl_buf st) ls"
    and r: "m r = Some rb" and n: "length ls < 2147483648"
    and i: "startp st = of_nat i" "i < length ls" "length ls \<le> i + 10"
    and ofs: "(if is_first_entry st then ofs else 0) = of_nat a" "a \<le> length (ls ! i)"
    and rl: "read_len st = of_nat rl" "rl < L" "L \<le> length rb" "L \<le> KMALLOC_MAX_SIZE"
  defines "x \<equiv> length (ls ! i) - a"
  shows "\<exists>leave st'. raed_body (Blk r) 0 ofs (of_nat L) st = Inr (leave, st') \<and>
    heap_is (rl_heap st') (m(r \<mapsto> patch rb rl (take (min x (L - rl)) (drop a (ls ! i))))) c \<and>
    same_ring (rl_buf st) (rl_buf st') \<and> read_len st' = of_nat (rl + min x (L - rl)) \<and>
    (if x < L - rl \<and> Suc i < length ls
     then \<not> leave \<and> startp st' = of_nat (Suc i) \<and> \<not> is_first_entry st'
     else leave)"
proof -
  let ?line = "ls ! i" and ?buf = "rl_buf st"
  define z where "z = min x (L - rl)"
  have slots: "slots_repr m (entry ?buf) ls" and w: "w_abs ?buf = of_nat (length ls)"
    using ring by (auto simp: ring_repr_def offsets_repr_def)
  obtain b where b: "buffptr (entry ?buf ! (i mod 10)) = Blk b" "m b = Some ?line"
    using slots_reprD(1) [OF slots i(2,3)] by blast
  have sz: "bsize (entry ?buf ! (i mod 10)) = of_nat (length ?line)"
    by (rule slots_reprD(2) [OF slots i(2,3)])
  have ll: "length ?line \<le> KMALLOC_MAX_SIZE"
    using ring i(2) by (auto simp: ring_repr_def line_ok_def)
  have xl: "x \<le> KMALLOC_MAX_SIZE" "a \<le> KMALLOC_MAX_SIZE"
    using ll ofs(2) by (auto simp: x_def)
  have ri: "unat (ring_index (startp st)) = i mod 10"
    using ring_index_of_nat i n by simp
  have o32: "(if is_first_entry st then ucast ofs else 0) = (of_nat a :: s32)"
  proof -
    have "(if is_first_entry st then ucast ofs else 0) = (ucast (of_nat a :: u64) :: s32)"
      unfolding ofs(1) [symmetric] by simp
    then show ?thesis by simp
  qed
  have a64: "scast (of_nat a :: s32) = (of_nat a :: u64)" and sa: "sint (of_nat a :: s32) = int a"
    using xl(2) by (simp_all add: scast_of_nat_32_64 sint_of_nat_32 KMALLOC_MAX_SIZE_def)
  have "of_nat (length ?line) - of_nat a = (of_nat x :: u64)"
    using ofs(2) by (simp add: x_def of_nat_diff)
  then have rem: "ucast (bsize (entry ?buf ! (i mod 10)) - of_nat a) = (of_nat x :: s32)"
    by (simp add: sz)
  have x64: "scast (of_nat x :: s32) = (of_nat x :: u64)"
    using xl(1) by (simp add: scast_of_nat_32_64 KMALLOC_MAX_SIZE_def)
  have zx: "z \<le> x" "z \<le> L - rl"
    by (simp_all add: z_def)
  have cu: "unat (of_nat z :: u64) = z" and "unat (read_len st) = rl"
    using xl(1) rl zx by (simp_all add: KMALLOC_MAX_SIZE_def)
  then have rlu: "uint (read_len st) = int rl"
    by (simp only: uint_nat)
  have cp: "(if of_nat L \<le> read_len st + of_nat x then of_nat L - read_len st else of_nat x) = (of_nat z :: u64)"
    unfolding rl(1) z_def by (rule copy_len_min) (use rl xl in auto)
  have ge: "(of_nat x :: u64) \<le> of_nat z \<longleftrightarrow> x \<le> L - rl"
    using xl(1) rl zx by (subst of_nat_le_u64) (auto simp: KMALLOC_MAX_SIZE_def z_def)
  have done_: "(of_nat L :: u64) \<le> of_nat (rl + z) \<longleftrightarrow> L - rl \<le> x"
    using xl(1) rl zx by (subst of_nat_le_u64) (auto simp: KMALLOC_MAX_SIZE_def z_def)
  have sum: "read_len st + of_nat z = of_nat (rl + z)"
    by (simp add: rl(1))
  have nxt: "startp st + 1 = of_nat (Suc i)"
    by (simp add: i(1) add.commute)
  have "(of_nat (Suc i) :: u32) = of_nat (length ls) \<longleftrightarrow> Suc i = length ls"
    by (rule of_nat_eq_u32) (use n i(2) in auto)
  then have end_: "of_nat (Suc i) = w_abs ?buf \<longleftrightarrow> Suc i = length ls"
    by (simp only: w)
  obtain h' where cpy: "memcpy (rl_heap st) (Blk r) (int rl) (Blk b) (int a) z = Inr h'"
    "heap_is h' (m(r \<mapsto> patch rb rl (take z (drop a ?line)))) c"
  proof -
    have "a + z \<le> length ?line" "rl + z \<le> length rb"
      using rl(2,3) ofs(2) by (auto simp: x_def z_def)
    then show ?thesis
      using that memcpy_Blk [OF h b(2) r] by blast
  qed
  have e: "entry_at ?buf (unat (ring_index (startp st))) = Inr (entry ?buf ! (i mod 10))"
    by (simp add: entry_at_def ri)
  have off: "sint (0 :: s32) + int (unat (read_len st)) = int rl"
    using rlu by simp
  have nb: "(Blk b = NULL) = False" by simp
  note body = raed_body_def Let_def e bnd.simps o32 a64 rem x64 b(1) nb if_False cp cu off sa cpy(1)
    raed_locals.simps ge sum nxt
  show ?thesis
  proof (cases "x \<le> L - rl")
    case True
    define buf1 where "buf1 = ?buf\<lparr>out_offs := out_offs ?buf + 1\<rparr>"
    define buf2 where "buf2 = (if 10 \<le> out_offs buf1 then buf1\<lparr>out_offs := 0\<rparr> else buf1)"
    define st2 where "st2 = st\<lparr>rl_heap := h', read_len := of_nat (rl + z), rl_buf := buf2,
                  startp := of_nat (Suc i), is_first_entry := False\<rparr>"
    have w2: "w_abs buf2 = w_abs ?buf" and same2: "same_ring ?buf buf2"
      by (simp_all add: buf2_def buf1_def)
    have "raed_body (Blk r) 0 ofs (of_nat L) st =
      (if Suc i = length ls then Inr (True, st2)
       else Inr (L - rl \<le> x, st2\<lparr>rl_buf := (if full buf2 then buf2\<lparr>full := False\<rparr> else buf2)\<rparr>))"
      using True by (simp only: body if_True buf1_def [symmetric] buf2_def [symmetric] w2 end_ done_)
        (simp add: st2_def w2 nxt end_ sum done_ del: of_nat_Suc of_nat_add)
    then show ?thesis
      using True cpy(2) same2 i(2) by (auto simp: st2_def z_def)
  next
    case False
    then have "raed_body (Blk r) 0 ofs (of_nat L) st =
      Inr (True, st\<lparr>rl_heap := h', read_len := of_nat (rl + z)\<rparr>)"
      by (simp only: body) (simp add: sum done_ del: of_nat_add)
    with False cpy(2) show ?thesis by (auto simp: z_def)
  qed
qed

lemma raed_loop_copies:
  assumes h: "heap_is (rl_heap st) m c" and ring: "ring_repr m (rl_buf st) ls"
    and r: "m r = Some rb" "\<not> owned (entry (rl_buf st)) r" and n: "length ls < 2147483648"
    and i: "startp st = of_nat i" "i < length ls" "length ls \<le> i + 10"
    and ofs: "(if is_first_entry st then ofs else 0) = of_nat a" "a \<le> length (ls ! i)"
    and rl: "read_len st = of_nat rl" "rl < L" "L \<le> length rb" "L \<le> KMALLOC_MAX_SIZE"
  shows "\<exists>st'. raed_loop (Blk r) 0 ofs (of_nat L) st = Inr st' \<and>
    heap_is (rl_heap st') (m(r \<mapsto> patch rb rl (take (L - rl) (drop a (ls ! i) @ concat (drop (Suc i) ls))))) c \<and>
    same_ring (rl_buf st) (rl_buf st') \<and>
    read_len st' = of_nat (rl + min (L - rl) (length (drop a (ls ! i) @ concat (drop (Suc i) ls))))"
  using assms
proof (induction "length ls - i" arbitrary: st m rb i a rl rule: less_induct)
  case less
  let ?x = "length (ls ! i) - a" and ?rest = "concat (drop (Suc i) ls)"
  obtain leave st1 where one: "raed_body (Blk r) 0 ofs (of_nat L) st = Inr (leave, st1)"
    "heap_is (rl_heap st1) (m(r \<mapsto> patch rb rl (take (min ?x (L - rl)) (drop a (ls ! i))))) c"
    "same_ring (rl_buf st) (rl_buf st1)" "read_len st1 = of_nat (rl + min ?x (L - rl))"
    and lv: "if ?x < L - rl \<and> Suc i < length ls
      then \<not> leave \<and> startp st1 = of_nat (Suc i) \<and> \<not> is_first_entry st1 else leave"
    using raed_body_round [OF less.prems(1-3,5-14)] by blast
  have loop: "raed_loop (Blk r) 0 ofs (of_nat L) st =
      (if leave then Inr st1 else raed_loop (Blk r) 0 ofs (of_nat L) st1)"
    by (subst raed_loop.simps) (simp add: one(1))
  show ?case
  proof (cases "?x < L - rl \<and> Suc i < length ls")
    case False
    then have "leave" using lv by simp
    moreover have "take (min ?x (L - rl)) (drop a (ls ! i)) = take (L - rl) (drop a (ls ! i) @ ?rest)"
      and "min ?x (L - rl) = min (L - rl) (length (drop a (ls ! i) @ ?rest))"
      using False less.prems(7) by (auto simp: min_def)
    ultimately show ?thesis using loop one by simp
  next
    case True
    let ?rb = "patch rb rl (drop a (ls ! i))" and ?D = "drop 0 (ls ! Suc i) @ concat (drop (Suc (Suc i)) ls)"
    have go: "\<not> leave" "startp st1 = of_nat (Suc i)" "\<not> is_first_entry st1"
      using True lv by auto
    have min: "min ?x (L - rl) = ?x" using True by simp
    have D: "?rest = ?D"
      using take_append_drop_concat [of "Suc i" ls] True by simp
    have lrb: "length ?rb = length rb"
      using True less.prems(12,13) by (intro length_patch) auto
    have "\<exists>st'. raed_loop (Blk r) 0 ofs (of_nat L) st1 = Inr st' \<and>
      heap_is (rl_heap st') (m(r \<mapsto> ?rb, r \<mapsto> patch ?rb (rl + ?x) (take (L - (rl + ?x)) ?D))) c \<and>
      same_ring (rl_buf st1) (rl_buf st') \<and> read_len st' = of_nat (rl + ?x + min (L - (rl + ?x)) (length ?D))"
    proof (rule less.hyps)
      show "length ls - Suc i < length ls - i" using True by arith
      show "heap_is (rl_heap st1) (m(r \<mapsto> ?rb)) c" using one(2) min by simp
      show "ring_repr (m(r \<mapsto> ?rb)) (rl_buf st1) ls"
        unfolding ring_repr_same [OF one(3)]
        by (rule ring_repr_frame [OF less.prems(2)]) (use less.prems(4) in auto)
      show "\<not> owned (entry (rl_buf st1)) r"
        using less.prems(4) one(3) by (simp add: same_ring_def)
    qed (use True go one(4) min lrb less.prems in auto)
    then obtain st' where st': "raed_loop (Blk r) 0 ofs (of_nat L) st1 = Inr st'"
      "heap_is (rl_heap st') (m(r \<mapsto> patch ?rb (rl + ?x) (take (L - (rl + ?x)) ?D))) c"
      "same_ring (rl_buf st1) (rl_buf st')" "read_len st' = of_nat (rl + ?x + min (L - (rl + ?x)) (length ?D))"
      by auto
    have "patch ?rb (rl + ?x) (take (L - (rl + ?x)) ?D) = patch rb rl (drop a (ls ! i) @ take (L - (rl + ?x)) ?D)"
    proof -
      have "rl + length (drop a (ls ! i)) + length (take (L - (rl + ?x)) ?D) \<le> length rb"
        unfolding length_take using True less.prems(12,13) by (simp only: length_drop) linarith
      from patch_patch [OF this] show ?thesis by (simp only: length_drop)
    qed
    moreover have "drop a (ls ! i) @ take (L - (rl + ?x)) ?D = take (L - rl) (drop a (ls ! i) @ ?rest)"
      using True by (simp add: D)
    moreover have "read_len st' = of_nat (rl + min (L - rl) (length (drop a (ls ! i) @ ?rest)))"
    proof -
      have "rl + ?x + min (L - (rl + ?x)) (length ?D) = rl + min (L - rl) (length (drop a (ls ! i) @ ?rest))"
        unfolding D length_append length_drop using True by arith
      then show ?thesis using st'(4) by (simp only:)
    qed
    moreover have "same_ring (rl_buf st) (rl_buf st')"
      by (rule same_ring_trans [OF one(3) st'(3)])
    ultimately show ?thesis
      using loop go(1) st'(1,2) by (intro exI [of _ st']) (simp only: if_False simp_thms)
  qed
qed


section \<open>What is read\<close>

text \<open>
  The bytes that a read from offset \<open>k\<close> (counted from \<^verbatim>\<open>start_char_abs\<close>) gets to see, if it asks
  for enough of them; \<open>None\<close> if the offset found is past the line it is applied to.
\<close>

definition served :: "byte list list \<Rightarrow> nat \<Rightarrow> byte list option" where
  "served ls k =
     (let (i, j) = locate (slot_order ls) k in
      if i = length (window ls) then Some []
      else if j \<le> length (window ls ! i)
      then Some (drop j (window ls ! i) @ concat (drop (Suc i) (window ls)))
      else None)"

lemma locate_lengths: "map length xs = map length ys \<Longrightarrow> locate xs k = locate ys k"
proof (induction xs arbitrary: ys k)
  case Nil
  then show ?case by simp
next
  case (Cons x xs)
  then obtain y zs where "ys = y # zs" "length x = length y" "map length xs = map length zs"
    by (cases ys) auto
  with Cons.IH [of zs] show ?case by simp
qed

text \<open>Where the two orders agree, a read gets the contents of the window.\<close>

lemma served_in_order:
  assumes "in_order ls" shows "served ls k = Some (drop k (contents ls))"
proof -
  have l: "locate (slot_order ls) k = locate (window ls) k"
    using assms by (intro locate_lengths) (simp add: in_order_def)
  obtain i j where ij: "locate (window ls) k = (i, j)" by force
  show ?thesis
  proof (cases "k < length (concat (window ls))")
    case True
    with locate_drop [OF True ij] show ?thesis
      by (auto simp: served_def l ij contents_def)
  next
    case False
    then have "i = length (window ls)"
      using locate_inside [of "window ls" k] locate_le [of "window ls" k] ij by (auto simp del: length_window)
    with False show ?thesis by (simp add: served_def l ij contents_def del: length_window)
  qed
qed

lemma window_index:
  assumes "i < length (window ls)"
  shows "length ls - 10 + i < length ls" "length ls \<le> length ls - 10 + i + 10"
    "window ls ! i = ls ! (length ls - 10 + i)" "drop (Suc i) (window ls) = drop (Suc (length ls - 10 + i)) ls"
  using assms by (auto simp: nth_window) (simp add: window_def add.commute)

text \<open>The first round, where the offset is past the line: the copy leaves the line's block.\<close>

lemma raed_body_past_line:
  assumes h: "heap_is (rl_heap st) m c" and ring: "ring_repr m (rl_buf st) ls"
    and n: "length ls < 2147483648"
    and i: "startp st = of_nat i" "i < length ls" "length ls \<le> i + 10"
    and ofs: "is_first_entry st" "length (ls ! i) < a" "a \<le> KMALLOC_MAX_SIZE"
    and rl: "read_len st = 0" "0 < L" "L \<le> KMALLOC_MAX_SIZE"
  shows "raed_body p 0 (of_nat a) (of_nat L) st = Inl OutOfBounds"
proof -
  let ?line = "ls ! i" and ?buf = "rl_buf st" and ?x = "a - length (ls ! i)"
  have slots: "slots_repr m (entry ?buf) ls" using ring by (simp add: ring_repr_def)
  obtain b where b: "buffptr (entry ?buf ! (i mod 10)) = Blk b" "m b = Some ?line"
    using slots_reprD(1) [OF slots i(2,3)] by blast
  have sz: "bsize (entry ?buf ! (i mod 10)) = of_nat (length ?line)"
    by (rule slots_reprD(2) [OF slots i(2,3)])
  have e: "entry_at ?buf (unat (ring_index (startp st))) = Inr (entry ?buf ! (i mod 10))"
    using ring_index_of_nat i(1,2) n by (simp add: entry_at_def)
  have o32: "(if is_first_entry st then ucast (of_nat a :: u64) else 0) = (of_nat a :: s32)"
    using ofs(1) by simp
  have a64: "scast (of_nat a :: s32) = (of_nat a :: u64)" and sa: "sint (of_nat a :: s32) = int a"
    using ofs(3) by (simp_all add: scast_of_nat_32_64 sint_of_nat_32 KMALLOC_MAX_SIZE_def)
  have "bsize (entry ?buf ! (i mod 10)) - of_nat a = - of_nat ?x"
    using ofs(2) by (simp add: sz of_nat_diff)
  moreover have "(ucast (- of_nat ?x :: u64) :: s32) = - of_nat ?x"
    using ofs(3) by (intro ucast_neg_64_32) (simp add: KMALLOC_MAX_SIZE_def)
  ultimately have rem: "ucast (bsize (entry ?buf ! (i mod 10)) - of_nat a) = (- of_nat ?x :: s32)"
    by simp
  have x64: "scast (- of_nat ?x :: s32) = (- of_nat ?x :: u64)"
    using ofs(3) by (intro scast_neg_32_64) (simp add: KMALLOC_MAX_SIZE_def)
  have uL: "unat (of_nat L :: u64) = L"
    using rl(3) by (simp add: KMALLOC_MAX_SIZE_def)
  have ux: "unat (- of_nat ?x :: u64) = 18446744073709551616 - ?x"
    by (rule unat_neg_of_nat_u64) (use ofs(2,3) in \<open>simp_all add: KMALLOC_MAX_SIZE_def\<close>)
  have "L \<le> 18446744073709551616 - ?x"
    using rl(3) ofs(3) by (simp add: KMALLOC_MAX_SIZE_def)
  then have big: "(of_nat L :: u64) \<le> 0 + - of_nat ?x"
    by (simp only: word_le_nat_alt add_0 uL ux)
  have lu: "unat (of_nat L - 0 :: u64) = L"
    using rl(3) by (simp add: KMALLOC_MAX_SIZE_def)
  have nb: "(Blk b = NULL) = False" by simp
  have "load (rl_heap st) (Blk b) (int a) L = Inl OutOfBounds"
    using h b(2) ofs(2) rl(2) by (intro load_out_of_bounds) (auto simp: heap_is_def)
  then have "memcpy (rl_heap st) p q (Blk b) (int a) L = Inl OutOfBounds" for q
    by (simp add: memcpy_def)
  then show ?thesis
    by (simp only: raed_body_def Let_def e bnd.simps o32 a64 rem x64 b(1) nb if_False rl(1) big if_True lu sa)
qed

lemma locate_offset: "locate xs k = (i, j) \<Longrightarrow> i < length xs \<Longrightarrow> j < length (xs ! i)"
proof (induction xs arbitrary: k i j)
  case Nil
  then show ?case by simp
next
  case (Cons x xs)
  show ?case
  proof (cases "k < length x")
    case True
    with Cons.prems show ?thesis by auto
  next
    case False
    then obtain i' where "i = Suc i'" "locate xs (k - length x) = (i', j)"
      using Cons.prems(1) by (auto simp: prod_eq_iff)
    with Cons.prems(2) Cons.IH [of "k - length x" i' j] show ?thesis by auto
  qed
qed

text \<open>
  \<^verbatim>\<open>aesd_circular_buffer_raed\<close> on a state that represents a log, with a cleared destination of
  \<open>L\<close> bytes: it returns what is served, cut to \<open>L\<close> bytes, or faults where nothing is.
\<close>

definition raed_result :: "byte list list \<Rightarrow> nat \<Rightarrow> nat \<Rightarrow> byte list option" where
  "raed_result ls k L = map_option (take L) (served ls k)"

lemma raed_start:
  assumes ring: "ring_repr m buf ls" and n: "length ls < 2147483648"
    and pos: "f_pos = of_nat (unat (start_char_abs buf) + k)"
      "unat (start_char_abs buf) + k \<le> unat (w_char_abs buf)"
  shows "\<not> (sint f_pos < int (unat (start_char_abs buf)) \<or> int (unat (w_char_abs buf)) < sint f_pos)"
    and "aesd_circular_buffer_find_entry_offset_and_index_for_fpos buf
      (f_pos - ucast (start_char_abs buf)) = Inr (found ls k)"
proof -
  let ?s = "unat (start_char_abs buf)"
  have lt: "?s + k < 4294967296"
    using pos(2) unat_lt32 [of "w_char_abs buf"] by linarith
  then have "unat f_pos = ?s + k" by (simp only: pos(1) unat_of_nat64)
  then have sp: "sint f_pos = int (?s + k)"
    using lt sint_eq_unat64 [of f_pos] by simp
  show "\<not> (sint f_pos < int ?s \<or> int (unat (w_char_abs buf)) < sint f_pos)"
    unfolding sp using pos(2) by linarith
  have "(ucast (start_char_abs buf) :: u64) = of_nat ?s" by simp
  then have "f_pos - ucast (start_char_abs buf) = of_nat k"
    unfolding pos(1) by (simp only: of_nat_add add_diff_cancel_left')
  then show "aesd_circular_buffer_find_entry_offset_and_index_for_fpos buf
      (f_pos - ucast (start_char_abs buf)) = Inr (found ls k)"
    using find_index_found [OF ring n] lt by simp
qed

text \<open>The position is at the end: there is nothing to copy, and no memory is touched.\<close>

lemma raed_end:
  assumes ring: "ring_repr m buf ls" and n: "length ls < 2147483648"
    and pos: "f_pos = of_nat (unat (start_char_abs buf) + k)"
      "unat (start_char_abs buf) + k \<le> unat (w_char_abs buf)"
    and k: "length (contents ls) \<le> k"
  shows "\<exists>buf'. aesd_circular_buffer_raed h buf p len f_pos = Inr (h, buf', f_pos, 0) \<and> same_ring buf buf'"
proof -
  note start = raed_start [OF ring n pos]
  have w: "w_abs buf = of_nat (length ls)"
    using ring by (simp add: ring_repr_def offsets_repr_def)
  have "\<not> fst (locate (slot_order ls) k) < length (slot_order ls)"
    using k by (simp only: locate_inside length_slot_bytes not_less)
  then obtain o' where fo: "found ls k = (of_nat (length ls), o')"
    by (auto simp: found_def case_prod_unfold Let_def simp del: length_slot_order)
  have "aesd_circular_buffer_raed h buf p len f_pos =
      Inr (h, buf\<lparr>out_offs := ucast (of_nat (length ls) :: s32)\<rparr>, f_pos, 0)"
    using n by (simp only: aesd_circular_buffer_raed_def start(1) if_False start(2) fo)
      (simp add: Let_def w sint_of_nat_32)
  then show ?thesis by simp
qed

text \<open>There is something to copy, but the destination has no bytes: \<^verbatim>\<open>strlen\<close> reads it all the same.\<close>

lemma raed_zero_size:
  assumes ring: "ring_repr m buf ls" and n: "length ls < 2147483648"
    and pos: "f_pos = of_nat (unat (start_char_abs buf) + k)"
      "unat (start_char_abs buf) + k \<le> unat (w_char_abs buf)"
    and k: "k < length (contents ls)"
  shows "aesd_circular_buffer_raed h buf ZERO_SIZE_PTR len f_pos = Inl NullDeref"
proof -
  note start = raed_start [OF ring n pos]
  have w: "w_abs buf = of_nat (length ls)"
    using ring by (simp add: ring_repr_def offsets_repr_def)
  obtain i a where ia: "locate (slot_order ls) k = (i, a)" by force
  have i: "i < length (slot_order ls)"
    using k locate_inside [of "slot_order ls" k] ia by (simp only: length_slot_bytes fst_conv)
  then have il: "length ls - 10 + i < length ls" by auto
  have f: "found ls k = (of_nat (length ls - 10 + i), Some (of_nat a))"
    using i by (simp only: found_def ia Let_def prod.case if_True)
  have ne: "(of_nat (length ls - 10 + i) :: u32) = w_abs buf \<longleftrightarrow> False"
    unfolding w using of_nat_eq_u32 [of "length ls - 10 + i" "length ls"] n il by simp
  have nn: "sint (of_nat (length ls - 10 + i) :: s32) < 0 \<longleftrightarrow> False"
  proof -
    have "sint (of_nat (length ls - 10 + i) :: s32) = int (length ls - 10 + i)"
      by (rule sint_of_nat_32) (use il n in linarith)
    then show ?thesis by (simp only: of_nat_less_0_iff)
  qed
  show ?thesis
    by (simp only: aesd_circular_buffer_raed_def start(1) if_False start(2) f bnd.simps prod.case nn
        Let_def strlen_ZERO_SIZE_PTR) (simp add: ne del: of_nat_add)
qed

lemma raed_reads:
  assumes h: "heap_is h m c" and ring: "ring_repr m buf ls" and n: "length ls < 2147483648"
    and r: "m r = Some (replicate L nul)" "\<not> owned (entry buf) r"
    and L: "len = of_nat L" "0 < L" "L \<le> KMALLOC_MAX_SIZE"
    and pos: "f_pos = of_nat (unat (start_char_abs buf) + k)"
      "unat (start_char_abs buf) + k \<le> unat (w_char_abs buf)"
  shows "case raed_result ls k L of
      None \<Rightarrow> aesd_circular_buffer_raed h buf (Blk r) len f_pos = Inl OutOfBounds
    | Some bs \<Rightarrow> (\<exists>h' buf'. aesd_circular_buffer_raed h buf (Blk r) len f_pos =
          Inr (h', buf', f_pos + of_nat (length bs), of_nat (length bs)) \<and>
        heap_is h' (m(r \<mapsto> bs @ replicate (L - length bs) nul)) c \<and> same_ring buf buf')"
proof -
  let ?s = "unat (start_char_abs buf)" and ?raed = "aesd_circular_buffer_raed h buf (Blk r) len f_pos"
  note range = raed_start(1) [OF ring n pos] and fnd = raed_start(2) [OF ring n pos]
  have w: "w_abs buf = of_nat (length ls)"
    using ring by (simp add: ring_repr_def offsets_repr_def)
  obtain i a where ia: "locate (slot_order ls) k = (i, a)" by force
  show ?thesis
  proof (cases "i < length (window ls)")
    case False
    then have out: "i = length (window ls)" and so: "\<not> i < length (slot_order ls)"
      using locate_le [of "slot_order ls" k] ia by auto
    then obtain o' where fo: "found ls k = (of_nat (length ls), o')"
      by (auto simp: found_def ia simp del: length_slot_order)
    have "?raed = Inr (h, buf\<lparr>out_offs := ucast (of_nat (length ls) :: s32)\<rparr>, f_pos, 0)"
      using n by (simp only: aesd_circular_buffer_raed_def range if_False fnd fo)
        (simp add: Let_def w sint_of_nat_32)
    moreover have "m(r \<mapsto> replicate L nul) = m" using r(1) by auto
    moreover have "raed_result ls k L = Some []"
      using out by (simp add: raed_result_def served_def ia del: length_window)
    ultimately show ?thesis using h by simp
  next
    case True
    let ?i = "length ls - 10 + i"
    note wi = window_index [OF True]
    let ?buf = "buf\<lparr>out_offs := ucast (of_nat ?i :: s32)\<rparr>"
    define st where "st = \<lparr>rl_heap = h, rl_buf = ?buf, startp = of_nat ?i, read_len = 0, is_first_entry = True\<rparr>"
    have "same_ring buf ?buf" by simp
    then have ring': "ring_repr m ?buf ls"
      using ring by (simp only: ring_repr_same)
    have f: "found ls k = (of_nat ?i, Some (of_nat a))"
      using True by (simp add: found_def ia)
    have sl: "strlen h (Blk r) = Inr 0"
      using h r(1) L(2) by (intro strlen_Blk_0 [of _ _ "replicate (L - 1) nul"]) (cases L, auto simp: heap_is_def)
    have ne: "(of_nat ?i :: u32) = w_abs buf \<longleftrightarrow> False"
      unfolding w using of_nat_eq_u32 [of ?i "length ls"] n wi(1) by simp
    have nn: "sint (of_nat ?i :: s32) < 0 \<longleftrightarrow> False"
    proof -
      have "sint (of_nat ?i :: s32) = int ?i" by (rule sint_of_nat_32) (use wi(1) n in linarith)
      then show ?thesis by (simp only: of_nat_less_0_iff)
    qed
    have raed: "?raed = bnd (raed_loop (Blk r) 0 (of_nat a) (of_nat L) st)
        (\<lambda>st. Inr (rl_heap st, rl_buf st, f_pos + read_len st, read_len st))"
      by (simp only: aesd_circular_buffer_raed_def range if_False fnd f bnd.simps prod.case nn Let_def
          sl L(1) option.case st_def) (simp add: ne del: of_nat_add)
    have st: "rl_heap st = h" "rl_buf st = ?buf" "startp st = of_nat ?i" "read_len st = of_nat 0"
      "is_first_entry st" by (simp_all add: st_def)
    have serv: "served ls k = (if a \<le> length (ls ! ?i)
        then Some (drop a (ls ! ?i) @ concat (drop (Suc ?i) ls)) else None)"
      using True wi(3,4) by (simp add: served_def ia less_imp_neq del: length_window)
    show ?thesis
    proof (cases "a \<le> length (ls ! ?i)")
      case False
      have "a < length (slot_order ls ! i)"
        using locate_offset [OF ia] True by auto
      moreover have "line_ok (slot_order ls ! i)"
        by (rule slot_order_lines [OF ring]) (use True in simp)
      ultimately have a: "a \<le> KMALLOC_MAX_SIZE" by (simp add: line_ok_def)
      have "raed_body (Blk r) 0 (of_nat a) (of_nat L) st = Inl OutOfBounds"
        by (rule raed_body_past_line) (use h ring' n st wi False a L in auto)
      then have "raed_loop (Blk r) 0 (of_nat a) (of_nat L) st = Inl OutOfBounds"
        by (subst raed_loop.simps) simp
      with False show ?thesis by (simp add: raed raed_result_def serv)
    next
      case le: True
      let ?D = "drop a (ls ! ?i) @ concat (drop (Suc ?i) ls)"
      obtain st' where st': "raed_loop (Blk r) 0 (of_nat a) (of_nat L) st = Inr st'"
        "heap_is (rl_heap st') (m(r \<mapsto> patch (replicate L nul) 0 (take (L - 0) ?D))) c"
        "same_ring (rl_buf st) (rl_buf st')" "read_len st' = of_nat (0 + min (L - 0) (length ?D))"
        using raed_loop_copies [of st m c ls r "replicate L nul" ?i "of_nat a" a 0 L]
          h r n L ring' st wi le by auto
      have rl: "read_len st' = of_nat (length (take L ?D))"
        using st'(4) by (simp only: length_take add_0 diff_zero min.commute)
      have "patch (replicate L nul) 0 (take (L - 0) ?D) = take L ?D @ replicate (L - length (take L ?D)) nul"
        by (simp only: patch_def take_0 append_Nil add_0 drop_replicate diff_zero)
      with st'(2) have hp: "heap_is (rl_heap st') (m(r \<mapsto> take L ?D @ replicate (L - length (take L ?D)) nul)) c"
        by (simp only:)
      have "same_ring buf (rl_buf st')"
        using st'(3) st(2) by (simp add: same_ring_def)
      with le hp show ?thesis
        by (simp add: raed raed_result_def serv st'(1) rl del: length_take)
    qed
  qed
qed

end
