(* ===== verification/Line_Sink.thy ===== *)
theory Line_Sink
  imports Ring_Refinement
begin

text \<open>
  The interface under which the rest of the system uses the ring: something that takes writes one
  after the other and represents the log of them. What holds of one write is assumed, what holds
  of any sequence of writes is proved once. The driver is an interpretation.
\<close>

section \<open>Sequences of writes on the log\<close>

primrec log_adds :: "line_log \<Rightarrow> byte list list \<Rightarrow> line_log" where
  "log_adds l [] = l"
| "log_adds l (bs # bss) = log_adds (log_add l bs) bss"

primrec fit_all :: "line_log \<Rightarrow> byte list list \<Rightarrow> bool" where
  "fit_all l [] = True"
| "fit_all l (bs # bss) = (fits l bs \<and> fit_all (log_add l bs) bss)"

lemma log_add_bytes:
  "concat (lines (log_add l bs)) @ pending (log_add l bs) = concat (lines l) @ pending l @ bs"
  by (simp add: log_add_def Let_def)

text \<open>No byte is lost, added or moved: lines and pending bytes are the writes, end to end.\<close>

lemma log_adds_bytes:
  "concat (lines (log_adds l bss)) @ pending (log_adds l bss) =
   concat (lines l) @ pending l @ concat bss"
  by (induction bss arbitrary: l) (simp_all add: log_add_bytes [simplified append_assoc])

text \<open>Every committed line ends with a newline.\<close>

lemma log_add_lines:
  assumes "\<forall>line \<in> set (lines l). line \<noteq> [] \<and> last line = newline" and "fits l bs"
  shows "\<forall>line \<in> set (lines (log_add l bs)). line \<noteq> [] \<and> last line = newline"
proof -
  have "pending l @ bs \<noteq> []" "bs \<noteq> []" using assms(2) by (simp_all add: fits_def)
  then have "last (pending l @ bs) = last bs" by simp
  with \<open>pending l @ bs \<noteq> []\<close> assms(1) show ?thesis
    unfolding log_add_def Let_def by (auto simp del: last_append)
qed

lemma log_adds_lines:
  assumes "\<forall>line \<in> set (lines l). line \<noteq> [] \<and> last line = newline" and "fit_all l bss"
  shows "\<forall>line \<in> set (lines (log_adds l bss)). line \<noteq> [] \<and> last line = newline"
  using assms
proof (induction bss arbitrary: l)
  case Nil
  then show ?case by simp
next
  case (Cons bs bss)
  have first: "\<forall>line \<in> set (lines (log_add l bs)). line \<noteq> [] \<and> last line = newline"
    by (rule log_add_lines) (use Cons.prems in auto)
  have "fit_all (log_add l bs) bss" using Cons.prems(2) by simp
  from Cons.IH [OF first this] show ?case by (simp only: log_adds.simps)
qed

text \<open>Writes that are whole lines: each becomes a line, nothing is pending and nothing leaks.\<close>

lemma log_adds_whole_lines:
  assumes "\<forall>bs \<in> set bss. bs \<noteq> [] \<and> last bs = newline" and "pending l = []"
  shows "log_adds l bss = \<lparr>lines = lines l @ bss, pending = [], leaked = leaked l\<rparr>"
  using assms
proof (induction bss arbitrary: l)
  case Nil
  then show ?case by (cases l) simp
next
  case (Cons bs bss)
  have "log_add l bs = \<lparr>lines = lines l @ [bs], pending = [], leaked = leaked l\<rparr>"
    using Cons.prems by (simp add: log_add_def Let_def)
  with Cons show ?case by simp
qed

lemma fit_all_whole_lines:
  assumes "\<forall>bs \<in> set bss. bs \<noteq> [] \<and> last bs = newline \<and> length bs \<le> KMALLOC_MAX_SIZE"
    and "pending l = []" and "length (lines l) + length bss < 4294967296"
  shows "fit_all l bss"
  using assms
proof (induction bss arbitrary: l)
  case Nil
  then show ?case by simp
next
  case (Cons bs bss)
  then have "fits l bs" by (simp add: fits_def)
  moreover have "fit_all (log_add l bs) bss"
    by (rule Cons.IH) (use Cons.prems in \<open>auto simp: log_add_def Let_def\<close>)
  ultimately show ?case by simp
qed

text \<open>A line that comes in pieces: every piece after the first leaks the block before it.\<close>

lemma log_adds_more_pieces:
  assumes "\<forall>bs \<in> set bss. bs \<noteq> [] \<and> last bs \<noteq> newline" and "pending l \<noteq> []"
  shows "log_adds l bss =
    \<lparr>lines = lines l, pending = pending l @ concat bss, leaked = leaked l + length bss\<rparr>"
  using assms
proof (induction bss arbitrary: l)
  case Nil
  then show ?case by (cases l) simp
next
  case (Cons bs bss)
  have "log_add l bs = \<lparr>lines = lines l, pending = pending l @ bs, leaked = Suc (leaked l)\<rparr>"
    using Cons.prems by (simp add: log_add_def Let_def)
  with Cons show ?case by simp
qed

lemma log_adds_append: "log_adds l (xs @ ys) = log_adds (log_adds l xs) ys"
  by (induction xs arbitrary: l) simp_all

lemma log_adds_pieces:
  assumes "\<forall>bs \<in> set bss. bs \<noteq> [] \<and> last bs \<noteq> newline" and "bs \<noteq> []" "last bs = newline"
    and "pending l = []"
  shows "log_adds l (bss @ [bs]) =
    \<lparr>lines = lines l @ [concat bss @ bs], pending = [], leaked = leaked l + length bss\<rparr>"
proof (cases bss)
  case Nil
  with assms show ?thesis by (simp add: log_add_def Let_def)
next
  case (Cons b rest)
  have first: "log_add l b = \<lparr>lines = lines l, pending = b, leaked = leaked l\<rparr>"
    using assms Cons by (simp add: log_add_def Let_def)
  have "log_adds (log_add l b) rest =
      \<lparr>lines = lines l, pending = concat bss, leaked = leaked l + length rest\<rparr>"
    using log_adds_more_pieces [of rest "log_add l b"] assms(1) Cons first by simp
  moreover have "concat bss \<noteq> []" using assms(1) Cons by simp
  ultimately show ?thesis
    using assms(2,3) Cons by (simp add: log_adds_append log_add_def Let_def)
qed

lemma fit_all_append: "fit_all l (xs @ ys) \<longleftrightarrow> fit_all l xs \<and> fit_all (log_adds l xs) ys"
  by (induction xs arbitrary: l) auto

lemma fit_all_pieces:
  assumes "\<forall>bs \<in> set bss. bs \<noteq> [] \<and> last bs \<noteq> newline"
    and "length (pending l) + length (concat bss) \<le> KMALLOC_MAX_SIZE"
    and "Suc (length (lines l)) < 4294967296"
  shows "fit_all l bss"
  using assms
proof (induction bss arbitrary: l)
  case Nil
  then show ?case by simp
next
  case (Cons bs bss)
  then have "fits l bs" by (simp add: fits_def)
  moreover have "pending (log_add l bs) = pending l @ bs" "lines (log_add l bs) = lines l"
    using Cons.prems(1) by (simp_all add: log_add_def Let_def)
  then have "fit_all (log_add l bs) bss"
    using Cons by simp
  ultimately show ?case by simp
qed

lemma fit_all_line_in_pieces:
  assumes "\<forall>bs \<in> set bss. bs \<noteq> [] \<and> last bs \<noteq> newline" and "bs \<noteq> []"
    and "length (concat bss @ bs) \<le> KMALLOC_MAX_SIZE"
  shows "fit_all empty_log (bss @ [bs])"
proof -
  have "fit_all empty_log bss"
    by (rule fit_all_pieces) (use assms in \<open>simp_all add: empty_log_def\<close>)
  moreover have "lines (log_adds empty_log bss) = [] \<and>
      length (pending (log_adds empty_log bss)) = length (concat bss)"
  proof (cases bss)
    case Nil
    then show ?thesis by (simp add: empty_log_def)
  next
    case (Cons b rest)
    with assms(1) show ?thesis
      using log_adds_more_pieces [of rest "log_add empty_log b"]
      by (simp add: log_add_def Let_def empty_log_def)
  qed
  ultimately show ?thesis
    using assms by (simp add: fit_all_append fits_def)
qed

section \<open>Sinks\<close>

fun run_writes :: "('s \<Rightarrow> byte list \<Rightarrow> fault + 's) \<Rightarrow> 's \<Rightarrow> byte list list \<Rightarrow> fault + 's" where
  "run_writes put s [] = Inr s"
| "run_writes put s (bs # bss) = bnd (put s bs) (\<lambda>s. run_writes put s bss)"

lemma run_writes_append:
  "run_writes put s (xs @ ys) = bnd (run_writes put s xs) (\<lambda>s. run_writes put s ys)"
  by (induction xs arbitrary: s) (simp_all add: bnd_assoc)

locale line_sink =
  fixes rep :: "'s \<Rightarrow> line_log \<Rightarrow> bool"
    and put :: "'s \<Rightarrow> byte list \<Rightarrow> fault + 's"
  assumes put: "rep s l \<Longrightarrow> fits l bs \<Longrightarrow> \<exists>s'. put s bs = Inr s' \<and> rep s' (log_add l bs)"
begin

lemma put_all:
  "rep s l \<Longrightarrow> fit_all l bss \<Longrightarrow> \<exists>s'. run_writes put s bss = Inr s' \<and> rep s' (log_adds l bss)"
proof (induction bss arbitrary: s l)
  case Nil
  then show ?case by simp
next
  case (Cons bs bss)
  then obtain s1 where "put s bs = Inr s1" "rep s1 (log_add l bs)"
    using put by fastforce
  with Cons show ?case by fastforce
qed

lemma put_lines:
  assumes "rep s l" "pending l = []" "length (lines l) + length bss < 4294967296"
    and "\<forall>bs \<in> set bss. bs \<noteq> [] \<and> last bs = newline \<and> length bs \<le> KMALLOC_MAX_SIZE"
  shows "\<exists>s'. run_writes put s bss = Inr s' \<and>
           rep s' \<lparr>lines = lines l @ bss, pending = [], leaked = leaked l\<rparr>"
  using put_all [OF assms(1) fit_all_whole_lines [OF assms(4,2,3)]] assms(2,4)
  by (simp add: log_adds_whole_lines)

end

end
