(* ===== verification/Driver_Refinement.thy ===== *)
theory Driver_Refinement
  imports Char_Driver Ring_Read Line_Sink
begin

text \<open>
  The driver as an append-only log with a window. \<open>drv_repr\<close> relates the state of the module to
  the log of \<^verbatim>\<open>Ring_Refinement\<close> and to the number of live kernel blocks; loading the module
  establishes it, every write is an append, and reads, seeks and \<^verbatim>\<open>ioctl\<close> are functions of
  the log.
\<close>

section \<open>The invariant of the module\<close>

text \<open>
  The block of the ring, and what the log accounts for, are all that is allocated (\<open>census 1\<close>);
  the ring's block is none of those that the entries own.
\<close>

definition drv_repr :: "driver \<Rightarrow> line_log \<Rightarrow> bool" where
  "drv_repr s l \<longleftrightarrow> (\<exists>m d bs.
     heap_is (heap s) m (census 1 l) \<and> buffer (aesd_device s) = Blk d \<and> m d = Some bs \<and>
     length bs = 184 \<and> \<not> cb_owned (tmp_entry s) (buffer_mem (aesd_device s)) l d \<and>
     cb_repr m (tmp_entry s) (buffer_mem (aesd_device s)) l)"

text \<open>An opened file, and user memory that behaves.\<close>

definition opened :: "kfile \<Rightarrow> bool" where
  "opened filp \<longleftrightarrow> private_data filp = DEV_AESD"

definition user_ok :: "user_access \<Rightarrow> bool" where
  "user_ok ua \<longleftrightarrow> direct_ok ua \<and> access_ok ua \<and> copy_ok ua"

abbreviation (input) ring :: "driver \<Rightarrow> aesd_circular_buffer" where
  "ring s \<equiv> buffer_mem (aesd_device s)"

lemma drv_reprE:
  assumes "drv_repr s l"
  obtains m d bs where "heap_is (heap s) m (census 1 l)" "buffer (aesd_device s) = Blk d"
    "m d = Some bs" "length bs = 184" "\<not> cb_owned (tmp_entry s) (ring s) l d"
    "cb_repr m (tmp_entry s) (ring s) l"
  using assms by (auto simp: drv_repr_def)

lemma drv_repr_buffer: "drv_repr s l \<Longrightarrow> buffer (aesd_device s) \<noteq> NULL"
  by (auto simp: drv_repr_def)

lemma deref_buffer_ok:
  assumes "drv_repr s l" shows "deref_buffer s = Inr (ring s)"
proof -
  obtain m d bs where "heap_is (heap s) m (census 1 l)" "buffer (aesd_device s) = Blk d"
    "m d = Some bs" "length bs = 184"
    using assms by (rule drv_reprE)
  then show ?thesis
    using kh.rd_prefix [of "heap s" m "census 1 l" d bs 184]
    by (simp add: deref_buffer_def sizeof_aesd_circular_buffer_def)
qed

lemma drv_repr_ring: "drv_repr s l \<Longrightarrow> \<exists>m. ring_repr m (ring s) (lines l)"
  by (auto simp: drv_repr_def cb_repr_def)

text \<open>The offsets of the ring, as numbers.\<close>

definition first_pos :: "byte list list \<Rightarrow> nat" where
  "first_pos ls = sum_list (map length (take (length ls - 10) (tl ls)))"

definition end_pos :: "byte list list \<Rightarrow> nat" where
  "end_pos ls = sum_list (map length ls)"

lemma first_pos_le: "first_pos ls \<le> end_pos ls"
proof -
  have "sum_list (map length (take k xs)) \<le> sum_list (map length xs)" for k and xs :: "byte list list"
    by (metis append_take_drop_id le_add1 map_append sum_list_append)
  moreover have "sum_list (map length (tl ls)) \<le> sum_list (map length ls)"
    by (cases ls) auto
  ultimately show ?thesis
    unfolding first_pos_def end_pos_def by (metis le_trans)
qed

lemma ring_positions:
  assumes "drv_repr s l" and "end_pos (lines l) < 4294967296"
  shows "unat (start_char_abs (ring s)) = first_pos (lines l)"
    and "unat (w_char_abs (ring s)) = end_pos (lines l)"
proof -
  obtain m where "ring_repr m (ring s) (lines l)"
    using drv_repr_ring [OF assms(1)] by blast
  then have "start_char_abs (ring s) = of_nat (first_pos (lines l))"
    and "w_char_abs (ring s) = of_nat (end_pos (lines l))"
    by (simp_all add: ring_repr_def offsets_repr_def first_pos_def end_pos_def)
  with assms(2) first_pos_le [of "lines l"]
  show "unat (start_char_abs (ring s)) = first_pos (lines l)"
    "unat (w_char_abs (ring s)) = end_pos (lines l)" by auto
qed

section \<open>Writing\<close>

lemma census_Suc: "census (Suc b) l = Suc (census b l)"
  by (simp add: census_def)

lemma aesd_write_appends:
  assumes r: "drv_repr s l" and f: "opened filp" and u: "user_ok ua" and fit: "fits l bs"
  shows "\<exists>s'. aesd_write s filp ua bs (of_nat (length bs)) = Inr (s', of_nat (length bs)) \<and>
           drv_repr s' (log_add l bs)"
proof -
  obtain m d js where h: "heap_is (heap s) m (census 1 l)" and d: "buffer (aesd_device s) = Blk d"
    "m d = Some js" "length js = 184" "\<not> cb_owned (tmp_entry s) (ring s) l d"
    and cb: "cb_repr m (tmp_entry s) (ring s) l"
    using r by (rule drv_reprE)
  let ?n = "of_nat (length bs) :: u64"
  have bs: "bs \<noteq> []" "length bs \<le> KMALLOC_MAX_SIZE"
    using fit by (auto simp: fits_def)
  have un: "unat ?n = length bs"
    using bs(2) by (simp add: KMALLOC_MAX_SIZE_def)
  have un1: "unat (?n - 1) = length bs - 1"
  proof -
    have "?n \<noteq> 0" using un bs(1) by auto
    then show ?thesis using un by (simp add: unat_minus_one)
  qed
  have ur: "\<exists>c. user_read ua bs (?n - 1) = Inr c"
    using u un1 bs(1) by (simp add: user_read_def user_ok_def)
  obtain k h1 ks where k: "kmalloc (heap s) ?n = (Blk k, h1)" "m k = None" "length ks = length bs"
    "heap_is h1 (m(k \<mapsto> ks)) (census 2 l)"
    using kh.alloc [OF h, of ?n] un bs by (auto simp: census_def)
  obtain h2 where h2: "memset h1 (Blk k) nul (length bs) = Inr h2"
    "heap_is h2 (m(k \<mapsto> replicate (length bs) nul)) (census 2 l)"
    using memset_Blk [OF k(4), of k ks "length bs" nul] k(3) by auto
  obtain h3 where h3: "store h2 (Blk k) 0 bs = Inr h3" "heap_is h3 (m(k \<mapsto> bs)) (census 2 l)"
    using kh.wr_whole [OF h2(2), of k "replicate (length bs) nul" bs] by auto
  let ?m = "m(k \<mapsto> bs)"
  have nok: "\<not> cb_owned (tmp_entry s) (ring s) l k"
    using cb_owned_live [OF cb] k(2) by blast
  have cb': "cb_repr ?m (tmp_entry s) (ring s) l"
    by (rule cb_repr_frame [OF cb nok])
  obtain h4 m4 tmp4 buf4 where a: "aesd_circular_buffer_add_entry h3 (tmp_entry s) (ring s)
      \<lparr>buffptr = Blk k, bsize = ?n\<rparr> = Inr (h4, tmp4, buf4)"
    "heap_is h4 m4 (census 2 (log_add l bs))" "cb_repr m4 tmp4 buf4 (log_add l bs)"
    and fr: "\<forall>b. ?m b \<noteq> None \<and> \<not> cb_owned (tmp_entry s) (ring s) l b \<longrightarrow>
         m4 b = ?m b \<and> \<not> cb_owned tmp4 buf4 (log_add l bs) b"
    using add_entry_refines [OF h3(2) cb', of "\<lparr>buffptr = Blk k, bsize = ?n\<rparr>" k bs] nok fit by auto
  have kd: "k \<noteq> d" using k(2) d(2) by auto
  have m4k: "m4 k = Some bs" "\<not> cb_owned tmp4 buf4 (log_add l bs) k"
    using fr nok by auto
  have m4d: "m4 d = Some js" "\<not> cb_owned tmp4 buf4 (log_add l bs) d"
    using fr d(2,4) kd by auto
  obtain h5 where h5: "kfree h4 (Blk k) = Inr h5" "heap_is h5 (m4(k := None)) (census 1 (log_add l bs))"
    using kh.dealloc [OF a(2) m4k(1)] by (auto simp: census_def)
  let ?s = "put_buffer buf4 (s\<lparr>heap := h5, tmp_entry := tmp4\<rparr>)"
  have "aesd_write s filp ua bs ?n = Inr (?s, ?n)"
    using f u d(1) ur k(1) h2(1) h3(1) a(1) h5(1) deref_buffer_ok [OF r] un
    by (auto simp: aesd_write_def opened_def user_ok_def copy_from_user_def)
  moreover have "cb_repr (m4(k := None)) tmp4 buf4 (log_add l bs)"
    by (rule cb_repr_frame [OF a(3) m4k(2)])
  then have "drv_repr ?s (log_add l bs)"
    unfolding drv_repr_def using h5(2) d(1,3) m4d kd
    by (intro exI [of _ "m4(k := None)"] exI [of _ d] exI [of _ js]) (simp add: put_buffer_def)
  ultimately show ?thesis by blast
qed

section \<open>Loading the module\<close>

lemma aesd_init_module_ok:
  assumes h: "heap_is h m 0" and res: "0 \<le> sint result"
  shows "\<exists>s. aesd_init_module (module_boot h) result dev 0 = Inr (s, 0) \<and> drv_repr s empty_log \<and>
           regions s = [dev] \<and> cdevs s = [MKDEV (MAJOR dev) aesd_minor]"
proof -
  have sz: "unat sizeof_aesd_circular_buffer = 184"
    by (simp add: sizeof_aesd_circular_buffer_def)
  obtain d h1 bs where d: "kmalloc h sizeof_aesd_circular_buffer = (Blk d, h1)" "length bs = 184"
    "heap_is h1 (m(d \<mapsto> bs)) 1"
    using kh.alloc [OF h, of sizeof_aesd_circular_buffer] sz by (auto simp: KMALLOC_MAX_SIZE_def)
  obtain h2 where h2: "memset h1 (Blk d) nul 184 = Inr h2" "heap_is h2 (m(d \<mapsto> replicate 184 nul)) 1"
    using memset_Blk [OF d(3), of d bs 184 nul] d(2) by auto
  let ?s = "\<lparr>heap = h2, tmp_entry = zero_entry, aesd_device = \<lparr>buffer = Blk d, buffer_mem = zero_buffer\<rparr>,
     aesd_major = MAJOR dev, regions = [dev], cdevs = [MKDEV (MAJOR dev) aesd_minor]\<rparr>"
  have "aesd_init_module (module_boot h) result dev 0 = Inr (?s, 0)"
    using res d(1) h2(1)
    by (simp add: aesd_init_module_def module_boot_def Let_def sz aesd_circular_buffer_init_def
        aesd_init_entry_def zero_entry_def put_buffer_def aesd_setup_cdev_def)
  moreover have "drv_repr ?s empty_log"
  proof -
    have "slots_repr (m(d \<mapsto> replicate 184 nul)) (entry zero_buffer) []"
      by (auto simp: slots_repr_def slots_distinct_def zero_buffer_def zero_entry_def)
    then have "cb_repr (m(d \<mapsto> replicate 184 nul)) zero_entry zero_buffer empty_log"
      by (simp add: cb_repr_def ring_repr_def offsets_repr_def tmp_repr_def empty_log_def zero_buffer_def
          zero_entry_def)
    moreover have "\<not> cb_owned zero_entry zero_buffer empty_log d"
      by (auto simp: cb_owned_def owned_def zero_buffer_def zero_entry_def empty_log_def)
    moreover have "census 1 empty_log = 1"
      by (simp add: census_def empty_log_def)
    ultimately show ?thesis
      unfolding drv_repr_def using h2(2)
      by (intro exI [of _ "m(d \<mapsto> replicate 184 nul)"] exI [of _ d] exI [of _ "replicate 184 nul"]) simp
  qed
  ultimately show ?thesis by (intro exI [of _ ?s]) simp
qed

section \<open>Reading\<close>

lemma drv_repr_put:
  assumes r: "drv_repr s l" and h: "heap_is h m (census 1 l)" "heap_is (heap s) m (census 1 l)"
    and same: "same_ring (ring s) buf"
  shows "drv_repr (put_buffer buf (s\<lparr>heap := h\<rparr>)) l"
proof -
  obtain m' d bs where p: "heap_is (heap s) m' (census 1 l)" "buffer (aesd_device s) = Blk d"
    "m' d = Some bs" "length bs = 184" "\<not> cb_owned (tmp_entry s) (ring s) l d"
    "cb_repr m' (tmp_entry s) (ring s) l"
    using r by (rule drv_reprE)
  have "m' = m" using p(1) h(2) by (simp add: heap_is_def)
  with p same h(1) ring_repr_same [OF same, of m "lines l"] show ?thesis
    unfolding drv_repr_def
    by (intro exI [of _ m] exI [of _ d] exI [of _ bs])
      (simp add: put_buffer_def cb_repr_def cb_owned_def same_ring_def)
qed

lemma aesd_read_cases:
  assumes r: "drv_repr s l" and f: "opened filp" and n: "length (lines l) < 2147483648"
    and small: "end_pos (lines l) < 4294967296" and c: "0 < n" "n \<le> KMALLOC_MAX_SIZE"
    and pos: "first_pos (lines l) + k \<le> end_pos (lines l)"
  shows "case raed_result (lines l) k n of
      None \<Rightarrow> aesd_read s filp ua (of_nat n) (of_nat (first_pos (lines l) + k)) = Inl OutOfBounds
    | Some bs \<Rightarrow>
        \<exists>s'. aesd_read s filp ua (of_nat n) (of_nat (first_pos (lines l) + k)) =
           Inr (s', of_nat (first_pos (lines l) + k + length bs),
                if bs = [] \<or> copy_ok ua then of_nat (length bs) else - 12, copy_to_user ua bs) \<and>
           drv_repr s' l"
proof -
  obtain m d js where h: "heap_is (heap s) m (census 1 l)" and d: "buffer (aesd_device s) = Blk d"
    "m d = Some js" and cb: "cb_repr m (tmp_entry s) (ring s) l"
    using r by (rule drv_reprE)
  let ?len = "of_nat n :: u64" and ?pos = "of_nat (first_pos (lines l) + k) :: s64"
  have ring: "ring_repr m (ring s) (lines l)" using cb by (simp add: cb_repr_def)
  note posn = ring_positions [OF r small]
  have un: "unat ?len = n"
    using c(2) by (simp add: KMALLOC_MAX_SIZE_def)
  obtain b h1 ks where b: "kmalloc (heap s) ?len = (Blk b, h1)" "m b = None" "length ks = n"
    "heap_is h1 (m(b \<mapsto> ks)) (Suc (census 1 l))"
    using kh.alloc [OF h, of ?len] un c by auto
  let ?m = "m(b \<mapsto> replicate n nul)"
  obtain h2 where h2: "memset h1 (Blk b) nul n = Inr h2" "heap_is h2 ?m (Suc (census 1 l))"
    using memset_Blk [OF b(4), of b ks n nul] b(3) by auto
  have nok: "\<not> cb_owned (tmp_entry s) (ring s) l b"
    using cb_owned_live [OF cb] b(2) by blast
  have ring': "ring_repr ?m (ring s) (lines l)"
    using cb_repr_frame [OF cb nok, of "Some (replicate n nul)"] by (simp add: cb_repr_def)
  have raed: "case raed_result (lines l) k n of
      None \<Rightarrow> aesd_circular_buffer_raed h2 (ring s) (Blk b) ?len ?pos = Inl OutOfBounds
    | Some bs \<Rightarrow> (\<exists>h' buf'. aesd_circular_buffer_raed h2 (ring s) (Blk b) ?len ?pos =
          Inr (h', buf', ?pos + of_nat (length bs), of_nat (length bs)) \<and>
        heap_is h' (?m(b \<mapsto> bs @ replicate (n - length bs) nul)) (Suc (census 1 l)) \<and>
        same_ring (ring s) buf')"
    by (rule raed_reads [OF h2(2) ring' \<open>length (lines l) < _\<close>])
      (use nok c pos posn in \<open>auto simp: cb_owned_def\<close>)
  have start: "aesd_read s filp ua ?len ?pos =
      bnd (aesd_circular_buffer_raed h2 (ring s) (Blk b) ?len ?pos) (\<lambda>(h, buf, pos, retval).
        bnd (if 0 < sint retval then
               bnd (load h (Blk b) 0 (unat retval)) (\<lambda>bs.
                 Inr (if copy_ok ua then retval else - ENOMEM, copy_to_user ua bs))
             else Inr (retval, [])) (\<lambda>(retval, bs).
        bnd (kfree h (Blk b)) (\<lambda>h.
        Inr (put_buffer buf (s\<lparr>heap := h\<rparr>), pos, retval, bs))))"
    using f d(1) b(1) h2(1) deref_buffer_ok [OF r] un by (simp add: aesd_read_def opened_def)
  show ?thesis
  proof (cases "raed_result (lines l) k n")
    case None
    with raed start show ?thesis by simp
  next
    case (Some bs)
    then have lb: "length bs \<le> n" by (auto simp: raed_result_def)
    obtain h3 buf3 where r3: "aesd_circular_buffer_raed h2 (ring s) (Blk b) ?len ?pos =
          Inr (h3, buf3, ?pos + of_nat (length bs), of_nat (length bs))"
      "heap_is h3 (m(b \<mapsto> bs @ replicate (n - length bs) nul)) (Suc (census 1 l))" "same_ring (ring s) buf3"
      using raed Some by auto
    have ub: "unat (of_nat (length bs) :: u64) = length bs"
      using lb c(2) by (simp add: KMALLOC_MAX_SIZE_def)
    have sb: "sint (of_nat (length bs) :: u64) = int (length bs)"
      using sint_eq_unat64 [of "of_nat (length bs)"] ub lb c(2) by (simp add: KMALLOC_MAX_SIZE_def)
    have ld: "load h3 (Blk b) 0 (length bs) = Inr bs"
      using kh.rd_prefix [OF r3(2), of b _ "length bs"] by simp
    obtain h4 where h4: "kfree h3 (Blk b) = Inr h4"
      "heap_is h4 ((m(b \<mapsto> bs @ replicate (n - length bs) nul))(b := None)) (census 1 l)"
      using kh.dealloc [OF r3(2), of b] by auto
    have "(m(b \<mapsto> bs @ replicate (n - length bs) nul))(b := None) = m"
      using b(2) by auto
    with h4(2) have "heap_is h4 m (census 1 l)" by simp
    then have "drv_repr (put_buffer buf3 (s\<lparr>heap := h4\<rparr>)) l"
      by (rule drv_repr_put [OF r _ h r3(3)])
    moreover have "aesd_read s filp ua ?len ?pos = Inr (put_buffer buf3 (s\<lparr>heap := h4\<rparr>),
        ?pos + of_nat (length bs), if bs = [] \<or> copy_ok ua then of_nat (length bs) else - 12,
        copy_to_user ua bs)"
      unfolding start r3(1) by (cases "bs = []") (auto simp: sb ub ld h4(1))
    ultimately show ?thesis using Some by (intro exI [of _ "put_buffer buf3 (s\<lparr>heap := h4\<rparr>)"] | simp add: add.assoc)+
  qed
qed

lemma aesd_read_served:
  assumes "drv_repr s l" and "opened filp" and "length (lines l) < 2147483648"
    and "end_pos (lines l) < 4294967296" and "0 < n" "n \<le> KMALLOC_MAX_SIZE"
    and "first_pos (lines l) + k \<le> end_pos (lines l)"
  shows "case raed_result (lines l) k n of
      None \<Rightarrow> aesd_read s filp ua (of_nat n) (of_nat (first_pos (lines l) + k)) = Inl OutOfBounds
    | Some bs \<Rightarrow> copy_ok ua \<longrightarrow>
        (\<exists>s'. aesd_read s filp ua (of_nat n) (of_nat (first_pos (lines l) + k)) =
           Inr (s', of_nat (first_pos (lines l) + k + length bs), of_nat (length bs), bs) \<and>
           drv_repr s' l)"
  using aesd_read_cases [OF assms, of ua] by (cases "raed_result (lines l) k n") auto

lemma aesd_read_zero_bytes:
  assumes "drv_repr s l" and "opened filp" and "length (lines l) < 2147483648"
    and "end_pos (lines l) < 4294967296"
    and "first_pos (lines l) + k \<le> end_pos (lines l)" and "k < length (contents (lines l))"
  shows "aesd_read s filp ua 0 (of_nat (first_pos (lines l) + k)) = Inl NullDeref"
proof -
  obtain m where ring: "ring_repr m (ring s) (lines l)"
    using drv_repr_ring [OF assms(1)] by blast
  note posn = ring_positions [OF assms(1,4)]
  have "aesd_circular_buffer_raed h (ring s) ZERO_SIZE_PTR 0 (of_nat (first_pos (lines l) + k)) =
      Inl NullDeref" for h
    by (rule raed_zero_size [OF ring assms(3) _ _ assms(6)]) (use posn assms(5) in simp_all)
  with assms(2) drv_repr_buffer [OF assms(1)] deref_buffer_ok [OF assms(1)] show ?thesis
    by (auto simp: aesd_read_def opened_def kmalloc_0 memset_def)
qed

section \<open>Sequences of writes\<close>

text \<open>One write through an opened file, with user memory that behaves.\<close>

definition user_fine :: user_access where
  "user_fine = \<lparr>direct_ok = True, access_ok = True, copy_ok = True, copied_part = 0\<rparr>"

definition fresh_file :: kfile where
  "fresh_file = aesd_open \<lparr>f_pos = 0, private_data = DEV_NULL\<rparr>"

definition driver_put :: "driver \<Rightarrow> byte list \<Rightarrow> fault + driver" where
  "driver_put s bs =
     bnd (aesd_write s fresh_file user_fine bs (of_nat (length bs))) (\<lambda>(s, _). Inr s)"

lemma user_fine_ok [simp]: "user_ok user_fine" "copy_ok user_fine"
  by (simp_all add: user_ok_def user_fine_def)

lemma fresh_file_opened [simp]: "opened fresh_file"
  by (simp add: opened_def fresh_file_def aesd_open_def)

interpretation dev: line_sink drv_repr driver_put
proof
  show "\<exists>s'. driver_put s bs = Inr s' \<and> drv_repr s' (log_add l bs)" if "drv_repr s l" "fits l bs" for s l bs
    using aesd_write_appends [OF that(1) fresh_file_opened user_fine_ok(1) that(2)]
    by (auto simp: driver_put_def)
qed

text \<open>Loading the module on an empty heap and writing.\<close>

definition load_and_write :: "kheap \<Rightarrow> u32 \<Rightarrow> byte list list \<Rightarrow> fault + driver" where
  "load_and_write h dev bss =
     bnd (aesd_init_module (module_boot h) 0 dev 0) (\<lambda>(s, _). run_writes driver_put s bss)"

definition empty_heap :: "(nat \<Rightarrow> nat \<Rightarrow> byte) \<Rightarrow> kheap" where
  "empty_heap junk = \<lparr>blocks = [], hcount = 0, hfail = {}, hjunk = junk\<rparr>"

lemma empty_heap_is: "heap_is (empty_heap junk) (\<lambda>_. None) 0"
  by (auto simp: heap_is_def empty_heap_def blk_def nlive_def avail_def)

lemma load_and_write_log:
  assumes "fit_all empty_log bss"
  shows "\<exists>s. load_and_write (empty_heap junk) dev bss = Inr s \<and> drv_repr s (log_adds empty_log bss)"
proof -
  obtain s0 where "aesd_init_module (module_boot (empty_heap junk)) 0 dev 0 = Inr (s0, 0)"
    "drv_repr s0 empty_log"
    using aesd_init_module_ok [OF empty_heap_is, of 0] by auto
  with dev.put_all [OF _ assms] show ?thesis by (auto simp: load_and_write_def)
qed

text \<open>Writers of whole lines: the log is the lines they wrote.\<close>

definition whole_lines :: "byte list list \<Rightarrow> bool" where
  "whole_lines bss \<longleftrightarrow>
     (\<forall>bs \<in> set bss. bs \<noteq> [] \<and> last bs = newline \<and> length bs \<le> KMALLOC_MAX_SIZE) \<and>
     length bss < 4294967296"

abbreviation (input) log_of :: "byte list list \<Rightarrow> line_log" where
  "log_of bss \<equiv> \<lparr>lines = bss, pending = [], leaked = 0\<rparr>"

lemma load_and_write_lines:
  assumes "whole_lines bss"
  shows "\<exists>s. load_and_write (empty_heap junk) dev bss = Inr s \<and> drv_repr s (log_of bss)"
proof -
  have "fit_all empty_log bss"
    by (rule fit_all_whole_lines) (use assms in \<open>simp_all add: whole_lines_def empty_log_def\<close>)
  moreover have "log_adds empty_log bss = log_of bss"
    using log_adds_whole_lines [of bss empty_log] assms by (simp add: whole_lines_def empty_log_def)
  ultimately show ?thesis using load_and_write_log by metis
qed

lemma drv_repr_nlive: "drv_repr s l \<Longrightarrow> nlive (heap s) = census 1 l"
  by (auto simp: drv_repr_def heap_is_def)

section \<open>Reading outside the window\<close>

lemma sint_pos: "p < 9223372036854775808 \<Longrightarrow> sint (of_nat p :: s64) = int p"
  using sint_eq_unat64 [of "of_nat p"] by simp

text \<open>The kernel copy of a read, for every count that the allocator serves, 0 included.\<close>

lemma read_scratch:
  assumes h: "heap_is h m k" and c: "n \<le> KMALLOC_MAX_SIZE"
  obtains p h1 h2 h3 where "kmalloc h (of_nat n) = (p, h1)" "p \<noteq> NULL"
    "memset h1 p nul n = Inr h2" "kfree h2 p = Inr h3" "heap_is h3 m k"
proof (cases "n = 0")
  case True
  have "heap_is (h\<lparr>hcount := Suc (hcount h)\<rparr>) m k"
    using h by (auto simp: heap_is_def blk_def nlive_def avail_def)
  with True show ?thesis by (intro that) (auto simp: kmalloc_0 memset_def)
next
  case False
  have "unat (of_nat n :: u64) = n" using c by (simp add: KMALLOC_MAX_SIZE_def)
  with False kh.scratch [OF h, of "of_nat n" "replicate n nul"] c show ?thesis
    by (auto simp: memset_def intro: that)
qed

lemma aesd_read_outside:
  assumes r: "drv_repr s l" and f: "opened filp" and small: "end_pos (lines l) < 4294967296"
    and c: "n \<le> KMALLOC_MAX_SIZE"
    and pos: "sint pos < int (first_pos (lines l)) \<or> int (end_pos (lines l)) < sint pos"
  shows "\<exists>s'. aesd_read s filp ua (of_nat n) pos = Inr (s', pos, - 1, []) \<and> drv_repr s' l"
proof -
  obtain m d js where h: "heap_is (heap s) m (census 1 l)" and d: "buffer (aesd_device s) = Blk d"
    "m d = Some js" and cb: "cb_repr m (tmp_entry s) (ring s) l"
    using r by (rule drv_reprE)
  let ?len = "of_nat n :: u64"
  have un: "unat ?len = n" using c by (simp add: KMALLOC_MAX_SIZE_def)
  obtain p h1 h2 h3 where b: "kmalloc (heap s) ?len = (p, h1)" "p \<noteq> NULL"
    "memset h1 p nul n = Inr h2" "kfree h2 p = Inr h3" "heap_is h3 m (census 1 l)"
    using h c by (rule read_scratch)
  have "aesd_circular_buffer_raed h2 (ring s) p ?len pos = Inr (h2, ring s, pos, - 1)"
    using pos ring_positions [OF r small] by (simp add: aesd_circular_buffer_raed_def)
  then have "aesd_read s filp ua ?len pos = Inr (put_buffer (ring s) (s\<lparr>heap := h3\<rparr>), pos, - 1, [])"
    using f d(1) b(1-4) deref_buffer_ok [OF r] un by (simp add: aesd_read_def opened_def)
  moreover have "drv_repr (put_buffer (ring s) (s\<lparr>heap := h3\<rparr>)) l"
    by (rule drv_repr_put [OF r b(5) h]) simp
  ultimately show ?thesis by blast
qed

section \<open>Where the offsets stand\<close>

lemma end_pos_contents:
  "end_pos ls = sum_list (map length (take (length ls - 10) ls)) + length (contents ls)"
  by (metis append_take_drop_id contents_def end_pos_def length_concat map_append sum_list_append window_def)

lemma first_pos_drift:
  assumes "ls \<noteq> []"
  shows "first_pos ls + length (hd ls) =
    sum_list (map length (take (length ls - 10) ls)) + length (hd (window ls))"
proof (cases "length ls \<le> 10")
  case True
  with assms show ?thesis by (simp add: first_pos_def window_def)
next
  case False
  then obtain k where k: "length ls = 10 + Suc k"
    by (metis less_imp_Suc_add linorder_not_less add_Suc_right)
  obtain x xs where ls: "ls = x # xs" using assms by (cases ls) auto
  have "take (Suc k) xs = take k xs @ [xs ! k]"
    using k ls by (simp add: take_Suc_conv_app_nth)
  moreover have "hd (window ls) = xs ! k"
    using k ls by (simp add: window_def hd_drop_conv_nth)
  ultimately show ?thesis
    using k ls by (simp add: first_pos_def)
qed

lemma first_pos_evicted:
  assumes "[] \<notin> set ls" and "10 < length ls" shows "0 < first_pos ls"
proof -
  obtain x xs where x: "ls = x # xs" using assms(2) by (cases ls) auto
  then obtain y zs where ls: "ls = x # y # zs" using assms(2) by (cases xs) auto
  have "length ls - 10 = Suc (length ls - 11)" using assms(2) by linarith
  with ls assms(1) show ?thesis by (auto simp: first_pos_def)
qed

lemma aesd_read_end:
  assumes r: "drv_repr s l" and f: "opened filp" and n: "length (lines l) < 2147483648"
    and small: "end_pos (lines l) < 4294967296" and c: "n \<le> KMALLOC_MAX_SIZE"
    and pos: "first_pos (lines l) + k \<le> end_pos (lines l)" and k: "length (contents (lines l)) \<le> k"
  shows "\<exists>s'. aesd_read s filp ua (of_nat n) (of_nat (first_pos (lines l) + k)) =
           Inr (s', of_nat (first_pos (lines l) + k), 0, []) \<and> drv_repr s' l"
proof -
  obtain m d js where h: "heap_is (heap s) m (census 1 l)" and d: "buffer (aesd_device s) = Blk d"
    and cb: "cb_repr m (tmp_entry s) (ring s) l"
    using r by (rule drv_reprE)
  let ?len = "of_nat n :: u64" and ?pos = "of_nat (first_pos (lines l) + k) :: s64"
  have un: "unat ?len = n" using c by (simp add: KMALLOC_MAX_SIZE_def)
  note posn = ring_positions [OF r small]
  obtain p h1 h2 h3 where b: "kmalloc (heap s) ?len = (p, h1)" "p \<noteq> NULL"
    "memset h1 p nul n = Inr h2" "kfree h2 p = Inr h3" "heap_is h3 m (census 1 l)"
    using h c by (rule read_scratch)
  have ring: "ring_repr m (ring s) (lines l)" using cb by (simp add: cb_repr_def)
  obtain buf' where buf': "aesd_circular_buffer_raed h2 (ring s) p ?len ?pos = Inr (h2, buf', ?pos, 0)"
    "same_ring (ring s) buf'"
    using raed_end [OF ring n, of ?pos k h2 p ?len] posn pos k by auto
  have "aesd_read s filp ua ?len ?pos = Inr (put_buffer buf' (s\<lparr>heap := h3\<rparr>), ?pos, 0, [])"
    using f d b deref_buffer_ok [OF r] un buf'(1) by (simp add: aesd_read_def opened_def)
  moreover have "drv_repr (put_buffer buf' (s\<lparr>heap := h3\<rparr>)) l"
    by (rule drv_repr_put [OF r b(5) h buf'(2)])
  ultimately show ?thesis by blast
qed

end
