(* ===== verification/Driver_Properties.thy ===== *)
theory Driver_Properties
  imports Driver_Refinement
begin

text \<open>
  The properties of the driver: what it does for the programs that write, read, seek and use
  \<^verbatim>\<open>ioctl\<close>, and what it does where they, or the kernel's allocator, do not behave.
\<close>

section \<open>Writing\<close>

text \<open>
  C3: a write through an opened file refines an append to the log. For a non-empty write that the
  allocator can serve, \<^verbatim>\<open>aesd_write\<close> runs without a fault, returns the number of bytes it was
  given, and leaves a module that represents the log with the bytes appended: joined to the
  pending ones, and a line of its own once the newline arrives.
\<close>

theorem write_refines_log:
  assumes "drv_repr s l" and "opened filp" and "user_ok ua" and "fits l bs"
  shows "\<exists>s'. aesd_write s filp ua bs (of_nat (length bs)) = Inr (s', of_nat (length bs)) \<and>
           drv_repr s' (log_add l bs)"
  using assms by (rule aesd_write_appends)

text \<open>
  C4: the module, loaded on a heap without allocation failures and given any sequence of writes
  that fit, never faults; the lines and the pending bytes it represents are the bytes written, in
  order and complete; every line ends with a newline; and the live blocks of the heap are the
  ring, the kept lines, the pending bytes and the leaked blocks.
\<close>

theorem loaded_driver_keeps_every_byte:
  assumes "fit_all empty_log bss"
  shows "\<exists>s l. load_and_write (empty_heap junk) dev bss = Inr s \<and> drv_repr s l \<and>
           concat (lines l) @ pending l = concat bss \<and>
           (\<forall>line \<in> set (lines l). line \<noteq> [] \<and> last line = newline) \<and>
           nlive (heap s) = 1 + min (length (lines l)) 10 + (if pending l = [] then 0 else 1) + leaked l"
proof -
  let ?l = "log_adds empty_log bss"
  obtain s where s: "load_and_write (empty_heap junk) dev bss = Inr s" "drv_repr s ?l"
    using load_and_write_log [OF assms] by blast
  have "concat (lines ?l) @ pending ?l = concat bss"
    by (simp add: log_adds_bytes) (simp add: empty_log_def)
  moreover have "\<forall>line \<in> set (lines ?l). line \<noteq> [] \<and> last line = newline"
    by (rule log_adds_lines [OF _ assms]) (simp add: empty_log_def)
  moreover have "nlive (heap s) = census 1 ?l"
    by (rule drv_repr_nlive [OF s(2)])
  ultimately show ?thesis
    using s by (intro exI [of _ s] exI [of _ ?l]) (simp add: census_def)
qed

text \<open>Three writes that make two lines, the second of them incomplete: the example of several
  properties.\<close>

definition sample_writes :: "byte list list" where
  "sample_writes = [''ab'' @ [newline], ''c'', ''d'' @ [newline], ''e'']"

lemma sample_fits: "fit_all empty_log sample_writes"
  by (simp add: sample_writes_def fits_def empty_log_def log_add_def Let_def KMALLOC_MAX_SIZE_def)

lemma loaded_driver_keeps_every_byte_witness:
  "\<exists>s l. load_and_write (empty_heap (\<lambda>_ _. nul)) 0 sample_writes = Inr s \<and> drv_repr s l \<and>
     concat (lines l) @ pending l = concat sample_writes \<and>
     (\<forall>line \<in> set (lines l). line \<noteq> [] \<and> last line = newline) \<and>
     nlive (heap s) = 1 + min (length (lines l)) 10 + (if pending l = [] then 0 else 1) + leaked l"
  by (rule loaded_driver_keeps_every_byte [OF sample_fits])

lemma write_refines_log_witness:
  "\<exists>s. load_and_write (empty_heap (\<lambda>_ _. nul)) 0 sample_writes = Inr s \<and>
     (\<exists>s'. aesd_write s fresh_file user_fine [newline] (of_nat (length [newline])) =
             Inr (s', of_nat (length [newline])) \<and>
           drv_repr s' (log_add (log_adds empty_log sample_writes) [newline]))"
proof -
  obtain s where s: "load_and_write (empty_heap (\<lambda>_ _. nul)) 0 sample_writes = Inr s"
    "drv_repr s (log_adds empty_log sample_writes)"
    using load_and_write_log [OF sample_fits] by blast
  have "fits (log_adds empty_log sample_writes) [newline]"
    by (simp add: sample_writes_def fits_def empty_log_def log_add_def Let_def KMALLOC_MAX_SIZE_def)
  from write_refines_log [OF s(2) fresh_file_opened user_fine_ok(1) this] s(1)
  show ?thesis by blast
qed

text \<open>
  Writers that write whole lines leak nothing. After any number of them the module represents
  exactly these lines, and the heap holds the ring's block and one block for each of the last ten
  lines.
\<close>

theorem whole_lines_do_not_leak:
  assumes "whole_lines bss"
  shows "\<exists>s. load_and_write (empty_heap junk) dev bss = Inr s \<and>
           drv_repr s \<lparr>lines = bss, pending = [], leaked = 0\<rparr> \<and>
           nlive (heap s) = 1 + min (length bss) 10"
  using load_and_write_lines [OF assms] drv_repr_nlive by (fastforce simp: census_def)

lemma whole_lines_do_not_leak_witness:
  "\<exists>s. load_and_write (empty_heap (\<lambda>_ _. nul)) 0 (replicate 12 [newline]) = Inr s \<and>
     drv_repr s \<lparr>lines = replicate 12 [newline], pending = [], leaked = 0\<rparr> \<and> nlive (heap s) = 11"
  using whole_lines_do_not_leak [of "replicate 12 [newline]" "\<lambda>_ _. nul" 0]
  by (simp add: whole_lines_def KMALLOC_MAX_SIZE_def)

text \<open>
  C34: a line written in pieces leaks one block for every piece after the first. The line itself is
  stored intact, but the block of the bytes collected before each later piece is never released.
\<close>

theorem pieces_leak:
  assumes "\<forall>bs \<in> set bss. bs \<noteq> [] \<and> last bs \<noteq> newline" and "bs \<noteq> []" "last bs = newline"
    and "length (concat bss @ bs) \<le> KMALLOC_MAX_SIZE"
  shows "\<exists>s. load_and_write (empty_heap junk) dev (bss @ [bs]) = Inr s \<and>
           drv_repr s \<lparr>lines = [concat bss @ bs], pending = [], leaked = length bss\<rparr> \<and>
           nlive (heap s) = 2 + length bss"
proof -
  obtain s where s: "load_and_write (empty_heap junk) dev (bss @ [bs]) = Inr s"
    "drv_repr s (log_adds empty_log (bss @ [bs]))"
    using load_and_write_log [OF fit_all_line_in_pieces [OF assms(1,2,4)]] by blast
  have l: "log_adds empty_log (bss @ [bs]) =
      \<lparr>lines = [concat bss @ bs], pending = [], leaked = length bss\<rparr>"
    using log_adds_pieces [OF assms(1-3), of empty_log] by (simp add: empty_log_def)
  have "nlive (heap s) = census 1 (log_adds empty_log (bss @ [bs]))"
    by (rule drv_repr_nlive [OF s(2)])
  with s l show ?thesis by (intro exI [of _ s]) (simp add: census_def)
qed

lemma pieces_leak_witness:
  "\<exists>s. load_and_write (empty_heap (\<lambda>_ _. nul)) 0 ([''a'', ''b''] @ [[newline]]) = Inr s \<and>
     drv_repr s \<lparr>lines = [concat [''a'', ''b''] @ [newline]], pending = [], leaked = length [''a'', ''b'']\<rparr> \<and>
     nlive (heap s) = 2 + length [''a'', ''b'']"
  by (rule pieces_leak) (simp_all add: KMALLOC_MAX_SIZE_def)

section \<open>Reading\<close>

text \<open>
  C6: what a read returns, for every state of the ring and every position inside the offsets it
  keeps. A read of \<open>n\<close> bytes at offset \<open>k\<close> from the first position either copies out exactly the
  first \<open>n\<close> of the served bytes, advances the position by their number, and leaves the log as it
  is, or it is one of the reads that leave a line's memory (\<open>served\<close> is \<open>None\<close>).
\<close>

theorem read_returns_served_bytes:
  assumes "drv_repr s l" and "opened filp" and "copy_ok ua" and "length (lines l) < 2147483648"
    and "end_pos (lines l) < 4294967296" and "0 < n" "n \<le> KMALLOC_MAX_SIZE"
    and "first_pos (lines l) + k \<le> end_pos (lines l)" and "pos = of_nat (first_pos (lines l) + k)"
  shows "case served (lines l) k of
      None \<Rightarrow> aesd_read s filp ua (of_nat n) pos = Inl OutOfBounds
    | Some bs \<Rightarrow> \<exists>s'. aesd_read s filp ua (of_nat n) pos =
          Inr (s', of_nat (first_pos (lines l) + k + length (take n bs)),
               of_nat (length (take n bs)), take n bs) \<and> drv_repr s' l"
  using aesd_read_served [OF assms(1,2,4-8), of ua] assms(3,9)
  by (cases "served (lines l) k") (simp_all add: raed_result_def)

lemma read_returns_served_bytes_witness:
  "\<exists>s. load_and_write (empty_heap (\<lambda>_ _. nul)) 0 [''ab'' @ [newline], ''c'' @ [newline]] = Inr s \<and>
     (\<exists>s'. aesd_read s fresh_file user_fine 3 1 = Inr (s', 4, 3, ''b'' @ [newline, CHR ''c'']))"
proof -
  let ?ls = "[''ab'' @ [newline], ''c'' @ [newline]]"
  obtain s where s: "load_and_write (empty_heap (\<lambda>_ _. nul)) 0 ?ls = Inr s" "drv_repr s (log_of ?ls)"
    using load_and_write_lines [of ?ls] by (auto simp: whole_lines_def KMALLOC_MAX_SIZE_def)
  have "served ?ls 1 = Some (''b'' @ [newline] @ ''c'' @ [newline])"
    by (simp add: served_in_order in_order_aligned contents_def window_def)
  with read_returns_served_bytes [OF s(2) fresh_file_opened user_fine_ok(2), of 3 1 1] s(1)
  show ?thesis by (auto simp: first_pos_def end_pos_def KMALLOC_MAX_SIZE_def)
qed

text \<open>
  C13: reads are correct whenever the array starts with the oldest line, or all kept lines have the
  same length: a read of \<open>n\<close> bytes at offset \<open>k\<close> returns the bytes \<open>k\<close> to \<open>k + n\<close> of the
  concatenation of the kept lines, the oldest first, and stops at its end.
\<close>

theorem read_in_order_returns_contents:
  assumes "drv_repr s l" and "opened filp" and "copy_ok ua" and "length (lines l) < 2147483648"
    and "end_pos (lines l) < 4294967296" and "0 < n" "n \<le> KMALLOC_MAX_SIZE"
    and "first_pos (lines l) + k \<le> end_pos (lines l)" and "pos = of_nat (first_pos (lines l) + k)"
    and order: "(length (lines l) - 10) mod 10 = 0 \<or> (\<forall>line \<in> set (window (lines l)). length line = c)"
  shows "\<exists>s'. aesd_read s filp ua (of_nat n) pos =
      Inr (s', of_nat (first_pos (lines l) + k + length (take n (drop k (contents (lines l))))),
           of_nat (length (take n (drop k (contents (lines l))))),
           take n (drop k (contents (lines l)))) \<and> drv_repr s' l"
proof -
  have "in_order (lines l)" using order by (auto intro: in_order_aligned in_order_uniform)
  then have "served (lines l) k = Some (drop k (contents (lines l)))"
    by (rule served_in_order)
  with aesd_read_served [OF assms(1,2,4-8), of ua] assms(3,9) show ?thesis
    by (simp add: raed_result_def)
qed

lemma read_in_order_returns_contents_witness:
  "\<exists>s. load_and_write (empty_heap (\<lambda>_ _. nul)) 0 (replicate 12 [newline]) = Inr s \<and>
     (\<exists>s'. aesd_read s fresh_file user_fine 4 5 = Inr (s', 9, 4, replicate 4 newline))"
proof -
  let ?ls = "replicate 12 [newline]"
  obtain s where s: "load_and_write (empty_heap (\<lambda>_ _. nul)) 0 ?ls = Inr s" "drv_repr s (log_of ?ls)"
    using load_and_write_lines [of ?ls] by (auto simp: whole_lines_def KMALLOC_MAX_SIZE_def)
  have "first_pos ?ls = 2" "end_pos ?ls = 12" "take 4 (drop 3 (contents ?ls)) = replicate 4 newline"
    "\<forall>line \<in> set (window ?ls). length line = 1"
    by code_simp+
  with read_in_order_returns_contents [OF s(2) fresh_file_opened user_fine_ok(2), of 4 3 5 1] s(1)
  show ?thesis by (auto simp: KMALLOC_MAX_SIZE_def)
qed

text \<open>
  C24: a read past the memory of a line. The walk that looks for the position adds up the sizes in
  the order of the array, while the copy starts at the oldest line; where the offset found is
  larger than the line it is applied to, \<^verbatim>\<open>memcpy\<close> reads outside the line's block.
\<close>

theorem misaligned_read_leaves_the_line:
  assumes "drv_repr s l" and "opened filp" and "length (lines l) < 2147483648"
    and "end_pos (lines l) < 4294967296" and "0 < n" "n \<le> KMALLOC_MAX_SIZE"
    and "first_pos (lines l) + k \<le> end_pos (lines l)"
    and "locate (slot_order (lines l)) k = (i, j)" and "i < 10" "i < length (lines l)"
    and "length (window (lines l) ! i) < j"
  shows "aesd_read s filp ua (of_nat n) (of_nat (first_pos (lines l) + k)) = Inl OutOfBounds"
proof -
  have "served (lines l) k = None" using assms(8-11) by (simp add: served_def)
  with aesd_read_served [OF assms(1-7), of ua] show ?thesis by (simp add: raed_result_def)
qed

text \<open>Eleven lines, the last longer than the second: the smallest case of it.\<close>

definition eleven_lines :: "byte list list" where
  "eleven_lines = replicate 10 [newline] @ [''abc'' @ [newline]]"

lemma eleven_lines_loaded:
  "\<exists>s. load_and_write (empty_heap (\<lambda>_ _. nul)) 0 eleven_lines = Inr s \<and> drv_repr s (log_of eleven_lines)"
  by (rule load_and_write_lines) (simp add: whole_lines_def eleven_lines_def KMALLOC_MAX_SIZE_def)

lemma eleven_lines_numbers:
  "length eleven_lines = 11" "first_pos eleven_lines = 1" "end_pos eleven_lines = 14"
  by (simp_all add: eleven_lines_def first_pos_def end_pos_def numeral_eq_Suc)

lemma eleven_lines_locate: "locate (slot_order eleven_lines) 2 = (0, 2)"
  by code_simp

lemma misaligned_read_leaves_the_line_witness:
  "\<exists>s. load_and_write (empty_heap (\<lambda>_ _. nul)) 0 eleven_lines = Inr s \<and>
     aesd_read s fresh_file user_fine (of_nat 4) (of_nat (first_pos (lines (log_of eleven_lines)) + 2)) =
       Inl OutOfBounds"
proof -
  obtain s where s: "load_and_write (empty_heap (\<lambda>_ _. nul)) 0 eleven_lines = Inr s"
    "drv_repr s (log_of eleven_lines)"
    using eleven_lines_loaded by blast
  have "length (window eleven_lines ! 0) = 1"
    by code_simp
  with misaligned_read_leaves_the_line [OF s(2) fresh_file_opened, of 4 2 0 2 user_fine] s(1)
  show ?thesis by (simp add: eleven_lines_numbers eleven_lines_locate KMALLOC_MAX_SIZE_def)
qed

section \<open>Positions\<close>

text \<open>
  Where the offsets of the ring stand. \<^verbatim>\<open>w_char_abs\<close> is the number of bytes of all lines
  ever added. \<^verbatim>\<open>start_char_abs\<close> is the number of bytes evicted only as long as the oldest
  line that is kept is as long as the very first line: the function adds the size of the line after
  the evicted one.
\<close>

theorem offsets_of_the_ring:
  assumes "drv_repr s l" and "end_pos (lines l) < 4294967296" and "lines l \<noteq> []"
  defines "evicted \<equiv> sum_list (map length (take (length (lines l) - 10) (lines l)))"
  shows "unat (w_char_abs (ring s)) = end_pos (lines l) \<and>
    end_pos (lines l) = evicted + length (contents (lines l)) \<and>
    unat (start_char_abs (ring s)) + length (hd (lines l)) =
      evicted + length (hd (window (lines l))) \<and>
    (unat (start_char_abs (ring s)) = evicted \<longleftrightarrow>
      length (hd (window (lines l))) = length (hd (lines l)))"
  using ring_positions [OF assms(1,2)] first_pos_drift [OF assms(3)] end_pos_contents [of "lines l"]
  by (auto simp: evicted_def)

lemma offsets_of_the_ring_witness:
  "\<exists>s. load_and_write (empty_heap (\<lambda>_ _. nul)) 0 eleven_lines = Inr s \<and>
     unat (w_char_abs (ring s)) = 14 \<and> unat (start_char_abs (ring s)) = 1"
proof -
  obtain s where s: "load_and_write (empty_heap (\<lambda>_ _. nul)) 0 eleven_lines = Inr s"
    "drv_repr s (log_of eleven_lines)"
    using eleven_lines_loaded by blast
  have "sum_list (map length (take (length eleven_lines - 10) eleven_lines)) = 1"
    "length (hd (window eleven_lines)) = 1" "length (hd eleven_lines) = 1" "eleven_lines \<noteq> []"
    by code_simp+
  with offsets_of_the_ring [OF s(2)] s(1) show ?thesis by (simp add: eleven_lines_numbers)
qed

text \<open>
  Outside its offsets the ring serves nothing. A read at a position before
  \<^verbatim>\<open>start_char_abs\<close> or after \<^verbatim>\<open>w_char_abs\<close> returns \<open>-1\<close>, which the caller sees as
  \<^verbatim>\<open>EPERM\<close>; position and log do not change and nothing is leaked.
\<close>

theorem read_outside_fails:
  assumes "drv_repr s l" and "opened filp" and "end_pos (lines l) < 4294967296"
    and "0 < n" "n \<le> KMALLOC_MAX_SIZE"
    and "sint pos < int (first_pos (lines l)) \<or> int (end_pos (lines l)) < sint pos"
  shows "\<exists>s'. aesd_read s filp ua (of_nat n) pos = Inr (s', pos, - 1, []) \<and> drv_repr s' l \<and>
           nlive (heap s') = nlive (heap s)"
proof -
  obtain s' where "aesd_read s filp ua (of_nat n) pos = Inr (s', pos, - 1, [])" "drv_repr s' l"
    using aesd_read_outside [OF assms(1-3,5,6), of ua] by blast
  with drv_repr_nlive [OF assms(1)] drv_repr_nlive [of s' l] show ?thesis by auto
qed

lemma read_outside_fails_witness:
  "\<exists>s. load_and_write (empty_heap (\<lambda>_ _. nul)) 0 eleven_lines = Inr s \<and>
     (\<exists>s'. aesd_read s fresh_file user_fine (of_nat 9) 15 = Inr (s', 15, - 1, []))"
proof -
  obtain s where s: "load_and_write (empty_heap (\<lambda>_ _. nul)) 0 eleven_lines = Inr s"
    "drv_repr s (log_of eleven_lines)"
    using eleven_lines_loaded by blast
  with read_outside_fails [OF s(2) fresh_file_opened, of 9 15 user_fine]
  show ?thesis by (auto simp: eleven_lines_numbers KMALLOC_MAX_SIZE_def)
qed

text \<open>
  A reader that opens the device after the eleventh line gets \<open>-1\<close>, not the lines that are
  kept: a new file has position 0, and the ring's first position is no longer 0.
\<close>

theorem fresh_reader_fails_after_eviction:
  assumes "whole_lines bss" and "10 < length bss" and "end_pos bss < 4294967296"
    and "0 < n" "n \<le> KMALLOC_MAX_SIZE"
  shows "\<exists>s s'. load_and_write (empty_heap junk) dev bss = Inr s \<and>
           drv_repr s \<lparr>lines = bss, pending = [], leaked = 0\<rparr> \<and>
           aesd_read s fresh_file user_fine (of_nat n) (f_pos fresh_file) = Inr (s', 0, - 1, [])"
proof -
  obtain s where s: "load_and_write (empty_heap junk) dev bss = Inr s" "drv_repr s (log_of bss)"
    using load_and_write_lines [OF assms(1)] by blast
  have "0 < first_pos bss"
    by (rule first_pos_evicted [OF _ assms(2)]) (use assms(1) in \<open>auto simp: whole_lines_def\<close>)
  then have "\<exists>s'. aesd_read s fresh_file user_fine (of_nat n) 0 = Inr (s', 0, - 1, []) \<and> drv_repr s' (log_of bss)"
    by (intro aesd_read_outside [OF s(2)]) (use assms in auto)
  with s show ?thesis by (auto simp: fresh_file_def aesd_open_def)
qed

lemma fresh_reader_fails_after_eviction_witness:
  "\<exists>s s'. load_and_write (empty_heap (\<lambda>_ _. nul)) 0 (replicate 11 [newline]) = Inr s \<and>
     drv_repr s \<lparr>lines = replicate 11 [newline], pending = [], leaked = 0\<rparr> \<and>
     aesd_read s fresh_file user_fine (of_nat 5) (f_pos fresh_file) = Inr (s', 0, - 1, [])"
  by (rule fresh_reader_fails_after_eviction)
    (simp_all add: whole_lines_def end_pos_def KMALLOC_MAX_SIZE_def sum_list_replicate)

text \<open>
  At the end of the kept bytes a read returns 0 and leaves the position alone, as the end of a
  file does, and it does so for every count, 0 included.
\<close>

theorem read_at_end_returns_zero:
  assumes "drv_repr s l" and "opened filp" and "length (lines l) < 2147483648"
    and "end_pos (lines l) < 4294967296" and "n \<le> KMALLOC_MAX_SIZE"
    and "first_pos (lines l) + k \<le> end_pos (lines l)" and "length (contents (lines l)) \<le> k"
  shows "\<exists>s'. aesd_read s filp ua (of_nat n) (of_nat (first_pos (lines l) + k)) =
           Inr (s', of_nat (first_pos (lines l) + k), 0, []) \<and> drv_repr s' l"
  using assms by (rule aesd_read_end)

text \<open>
  A read of 0 bytes where there is something to read brings the kernel down:
  \<^verbatim>\<open>kmalloc(0)\<close> succeeds with a pointer to nothing, and \<^verbatim>\<open>strlen\<close> is applied to it.
\<close>

theorem read_of_zero_bytes_faults:
  assumes "drv_repr s l" and "opened filp" and "length (lines l) < 2147483648"
    and "end_pos (lines l) < 4294967296"
    and "first_pos (lines l) + k \<le> end_pos (lines l)" and "k < length (contents (lines l))"
  shows "aesd_read s filp ua 0 (of_nat (first_pos (lines l) + k)) = Inl NullDeref"
  using assms by (rule aesd_read_zero_bytes)

lemma read_at_end_returns_zero_witness:
  "\<exists>s. load_and_write (empty_heap (\<lambda>_ _. nul)) 0 eleven_lines = Inr s \<and>
     (\<exists>s'. aesd_read s fresh_file user_fine 0 14 = Inr (s', 14, 0, []))"
proof -
  obtain s where s: "load_and_write (empty_heap (\<lambda>_ _. nul)) 0 eleven_lines = Inr s"
    "drv_repr s (log_of eleven_lines)"
    using eleven_lines_loaded by blast
  have "length (contents eleven_lines) = 13" by code_simp
  with read_at_end_returns_zero [OF s(2) fresh_file_opened, of 0 13 user_fine] s(1)
  show ?thesis by (auto simp: eleven_lines_numbers)
qed

lemma read_of_zero_bytes_faults_witness:
  "\<exists>s. load_and_write (empty_heap (\<lambda>_ _. nul)) 0 eleven_lines = Inr s \<and>
     aesd_read s fresh_file user_fine 0 1 = Inl NullDeref"
proof -
  obtain s where s: "load_and_write (empty_heap (\<lambda>_ _. nul)) 0 eleven_lines = Inr s"
    "drv_repr s (log_of eleven_lines)"
    using eleven_lines_loaded by blast
  have "length (contents eleven_lines) = 13" by code_simp
  with read_of_zero_bytes_faults [OF s(2) fresh_file_opened, of 0 user_fine] s(1)
  show ?thesis by (simp add: eleven_lines_numbers)
qed

end
