(* ===== verification/Ring_Lookup.thy ===== *)
theory Ring_Lookup
  imports Ring_Read
begin

text \<open>
  The operations of the ring beside adding and reading: the lookup of
  \<^verbatim>\<open>aesd_circular_buffer_find_entry_offset_for_fpos\<close>, the length up to a command, and the
  release of all entries.
\<close>

section \<open>Sizes of the slots\<close>

text \<open>The sizes in the order of the array; a slot that was never filled has size 0.\<close>

definition slot_size :: "byte list list \<Rightarrow> nat \<Rightarrow> nat" where
  "slot_size ls j = (if j < min (length ls) 10 then length (slot_order ls ! j) else 0)"

lemma bsize_slot:
  assumes "ring_repr m buf ls" and "j < 10"
  shows "bsize (entry buf ! j) = of_nat (slot_size ls j)"
proof (cases "j < length ls")
  case True
  with assms slot_sizes [OF assms(1), of j] show ?thesis by (simp add: slot_size_def)
next
  case False
  with assms have "entry buf ! j = zero_entry" by (simp add: ring_repr_def slots_repr_def)
  with False show ?thesis by (simp add: slot_size_def zero_entry_def)
qed

lemma sum_slot_sizes: 
  assumes "c \<le> 10"
  shows "sum_list (map (slot_size ls) [0..<c]) = sum_list (map length (take c (slot_order ls)))"
  using assms
proof (induction c)
  case 0
  then show ?case by simp
next
  case (Suc c)
  show ?case
  proof (cases "c < length (slot_order ls)")
    case True
    moreover from True have "slot_size ls c = length (slot_order ls ! c)" by (simp add: slot_size_def)
    ultimately show ?thesis using Suc by (simp add: take_Suc_conv_app_nth)
  next
    case False
    moreover from False have "slot_size ls c = 0" using Suc.prems by (simp add: slot_size_def)
    ultimately show ?thesis using Suc by simp
  qed
qed

lemma sum_slot_sizes_bound:
  assumes "ring_repr m buf ls" and "c \<le> 10"
  shows "sum_list (map (slot_size ls) [0..<c]) \<le> 41943040"
proof -
  have "sum_list (map length (take c (slot_order ls))) \<le> sum_list (map length (slot_order ls))"
    by (metis append_take_drop_id le_add1 map_append sum_list_append)
  also have "\<dots> \<le> 41943040"
    using slot_order_bound [OF assms(1)] by (simp add: length_concat)
  finally show ?thesis by (simp add: sum_slot_sizes [OF assms(2)])
qed

section \<open>The length up to a command\<close>

lemma get_bytes_walk:
  assumes ring: "ring_repr m buf ls" and c: "elem_ind = of_nat c" "c < 4294967296"
    and i: "i \<le> c" "i \<le> 10" "iw = of_nat i"
    and b: "byte_len = of_nat (sum_list (map (slot_size ls) [0..<i]))"
  shows "get_bytes_loop buf elem_ind iw byte_len =
    (if c \<le> 10 then Inr (of_nat (sum_list (map (slot_size ls) [0..<c]))) else Inl OutOfBounds)"
  using i b
proof (induction "10 - i" arbitrary: i iw byte_len)
  case 0
  then have "i = 10" by simp
  with 0 c show ?case
    by (subst get_bytes_loop.simps) (auto simp: entry_at_def word_less_nat_alt)
next
  case (Suc d)
  have iw: "iw < elem_ind \<longleftrightarrow> i < c" "unat iw = i"
    using Suc.prems(1,3) c by (auto simp: word_less_nat_alt)
  have i10: "i < 10" using Suc.hyps(2) by simp
  show ?case
  proof (cases "i < c")
    case True
    have "get_bytes_loop buf elem_ind (iw + 1) (ucast (ucast byte_len + bsize (entry buf ! i))) =
        (if c \<le> 10 then Inr (of_nat (sum_list (map (slot_size ls) [0..<c]))) else Inl OutOfBounds)"
    proof (rule Suc.hyps(1) [of "Suc i"])
      let ?t = "sum_list (map (slot_size ls) [0..<i])"
      have "?t < 4294967296"
        using sum_slot_sizes_bound [OF ring, of i] i10 by simp
      then have "ucast byte_len + bsize (entry buf ! i) = (of_nat (?t + slot_size ls i) :: u64)"
        by (simp only: Suc.prems(4) ucast_of_nat_32_64 bsize_slot [OF ring i10] of_nat_add)
      then show "ucast (ucast byte_len + bsize (entry buf ! i)) =
          (of_nat (sum_list (map (slot_size ls) [0..<Suc i])) :: u32)"
        by (simp only: ucast_of_nat_64_32) simp
    qed (use Suc.hyps(2) Suc.prems True in auto)
    then show ?thesis
      using True iw i10 by (subst get_bytes_loop.simps) (simp add: entry_at_def)
  next
    case False
    then have "i = c" using Suc.prems(1) by simp
    with False iw i10 Suc.prems(4) show ?thesis
      by (subst get_bytes_loop.simps) simp
  qed
qed

lemma get_bytes:
  assumes ring: "ring_repr m buf ls"
  shows "aesd_circular_buffer_get_bytes_to_ofs buf cmd ofs =
    (if unat cmd \<le> 10
     then Inr (of_nat (sum_list (map length (take (unat cmd) (slot_order ls)))) + ofs)
     else Inl OutOfBounds)"
proof -
  have "get_bytes_loop buf cmd 0 0 =
      (if unat cmd \<le> 10 then Inr (of_nat (sum_list (map (slot_size ls) [0..<unat cmd]))) else Inl OutOfBounds)"
    by (rule get_bytes_walk [OF ring, where i = 0]) (simp_all add: unat_lt32)
  then show ?thesis
    by (simp add: aesd_circular_buffer_get_bytes_to_ofs_def sum_slot_sizes)
qed

section \<open>The lookup\<close>

text \<open>The bytes of a slot; one that was never filled has none.\<close>

definition slot_bytes :: "byte list list \<Rightarrow> nat \<Rightarrow> byte list" where
  "slot_bytes ls j = (if j < min (length ls) 10 then slot_order ls ! j else [])"

lemma length_bytes_of_slot [simp]: "length (slot_bytes ls j) = slot_size ls j"
  by (simp add: slot_bytes_def slot_size_def)

lemma scan_entries_append:
  "scan_entries buf off (is @ js) T = bnd (scan_entries buf off is T) (\<lambda>(found, T).
     case found of Some r \<Rightarrow> Inr (Some r, T) | None \<Rightarrow> scan_entries buf off js T)"
  by (induction "is" arbitrary: T) (simp_all add: bnd_assoc if_distrib [where f = "\<lambda>x. bnd x f" for f] cong: if_cong)

lemma scan_slots:
  assumes ring: "ring_repr m buf ls" and "\<forall>i \<in> set is. i < 10"
    and "T = of_nat t" and "t + sum_list (map (slot_size ls) is) \<le> 41943040" and "t \<le> unat off"
  shows "bnd (scan_entries buf off is T) (\<lambda>(found, _). Inr found) =
    (let (i, j) = locate (map (slot_bytes ls) is) (unat off - t) in
     Inr (if i < length is then Some (is ! i, of_nat j) else None))"
  using assms(2-)
proof (induction "is" arbitrary: T t)
  case Nil
  then show ?case by simp
next
  case (Cons a "is")
  let ?x = "slot_size ls a"
  have a: "a < 10" and tx: "t + ?x \<le> 41943040" using Cons.prems by simp_all
  have T: "scast T = (of_nat t :: u64)"
    using scast_of_nat_32_64 [of t] tx Cons.prems(2) by simp
  have le: "off < scast T + bsize (entry buf ! a) \<longleftrightarrow> unat off < t + ?x"
  proof -
    have "scast T + bsize (entry buf ! a) = (of_nat (t + ?x) :: u64)"
      by (simp only: T bsize_slot [OF ring a] of_nat_add)
    moreover have "unat (of_nat (t + ?x) :: u64) = t + ?x" by (rule unat_of_nat64) (use tx in simp)
    ultimately show ?thesis by (simp only: word_less_nat_alt)
  qed
  show ?case
  proof (cases "unat off < t + ?x")
    case True
    have "off - of_nat t = (of_nat (unat off - t) :: u64)"
      using Cons.prems(4) by simp
    moreover have "unat off - t < ?x" using True Cons.prems(4) by linarith
    ultimately show ?thesis
      using True le a T Cons.prems(2,4) by (simp add: entry_at_def Let_def)
  next
    case False
    have "(ucast (scast T + bsize (entry buf ! a)) :: u32) = of_nat (t + ?x)"
      by (simp only: T bsize_slot [OF ring a] of_nat_add [symmetric] ucast_of_nat_64_32)
    then have "bnd (scan_entries buf off (a # is) T) (\<lambda>(found, _). Inr found) =
        bnd (scan_entries buf off is (of_nat (t + ?x))) (\<lambda>(found, _). Inr found)"
      using False le a by (simp add: entry_at_def)
    also note Cons.IH [of "of_nat (t + ?x)" "t + ?x"]
    moreover have "\<not> unat off - t < ?x" using False Cons.prems(4) by linarith
    ultimately show ?thesis
      using False Cons.prems tx by (simp add: Let_def case_prod_unfold)
  qed
qed

text \<open>
  The slots that the lookup visits, in its order, when \<open>n\<close> lines were stored and \<^verbatim>\<open>out_offs\<close> is \<open>out\<close>:
  from \<^verbatim>\<open>out_offs\<close> to \<^verbatim>\<open>in_offs\<close>, around the end of the array if need be.
\<close>

definition visited :: "nat \<Rightarrow> nat \<Rightarrow> nat list" where
  "visited n out = (if n mod 10 \<le> out then [out..<10] @ [0..<n mod 10] else [out..<n mod 10])"

lemma visited_slots: "i \<in> set (visited n out) \<Longrightarrow> i < 10"
  using mod_less_divisor [of 10 n] by (auto simp: visited_def split: if_splits)

lemma sum_visited: "sum_list (map f (visited n out)) \<le> sum_list (map f [0..<10])" for f :: "nat \<Rightarrow> nat"
proof -
  have r: "n mod 10 < 10" by simp
  have split: "[0..<10] = [0..<a] @ [a..<b] @ [b..<10]" if "a \<le> b" "b \<le> 10" for a b :: nat
    using that by (metis le_add_diff_inverse le_trans upt_add_eq_append zero_le)
  show ?thesis
  proof (cases "n mod 10 \<le> out")
    case True
    show ?thesis
    proof (cases "out \<le> 10")
      case le: True
      show ?thesis unfolding split [OF True le] using True by (simp add: visited_def)
    next
      case False
      show ?thesis unfolding split [of "n mod 10" 10, OF less_imp_le [OF r] le_refl] using True False by (simp add: visited_def)
    qed
  next
    case False
    then have o: "out \<le> n mod 10" by simp
    show ?thesis unfolding split [OF o less_imp_le [OF r]] using False by (simp add: visited_def)
  qed
qed

lemma find_entry_offset:
  assumes ring: "ring_repr m buf ls"
  shows "aesd_circular_buffer_find_entry_offset_for_fpos buf off =
    (let is = visited (length ls) (unat (out_offs buf)); (i, j) = locate (map (slot_bytes ls) is) (unat off) in
     Inr (if i < length is then Some (is ! i, of_nat j) else None))"
proof -
  let ?n = "length ls" and ?is = "visited (length ls) (unat (out_offs buf))"
  have i: "unat (in_offs buf) = ?n mod 10"
  proof -
    have "in_offs buf = of_nat (?n mod 10)" using ring by (simp add: ring_repr_def offsets_repr_def)
    moreover have "?n mod 10 < 10" by simp
    then have "unat (of_nat (?n mod 10) :: u8) = ?n mod 10" by (intro unat_of_nat_small) simp
    ultimately show ?thesis by simp
  qed
  have "aesd_circular_buffer_find_entry_offset_for_fpos buf off =
      bnd (scan_entries buf off ?is 0) (\<lambda>(found, _). Inr found)"
    using i by (simp add: aesd_circular_buffer_find_entry_offset_for_fpos_def visited_def word_le_nat_alt
        scan_entries_append bnd_assoc case_prod_unfold option.case_distrib [where h = "\<lambda>x. bnd x f" for f] cong: option.case_cong)
  also have "\<dots> = (let (i, j) = locate (map (slot_bytes ls) ?is) (unat off) in
      Inr (if i < length ?is then Some (?is ! i, of_nat j) else None))"
    using scan_slots [OF ring, of ?is 0 0 off] visited_slots sum_visited [of "slot_size ls" ?n "unat (out_offs buf)"]
      sum_slot_sizes_bound [OF ring, of 10] by simp
  finally show ?thesis by (simp add: Let_def)
qed

text \<open>
  With \<^verbatim>\<open>out_offs\<close> at 0, where adding leaves it, the lookup sees the slots up to
  \<^verbatim>\<open>in_offs\<close>, or all ten when \<^verbatim>\<open>in_offs\<close> is 0.
\<close>

definition seen_slots :: "byte list list \<Rightarrow> byte list list" where
  "seen_slots ls = (if length ls mod 10 = 0 then slot_order ls else take (length ls mod 10) (slot_order ls))"

lemma visited_from_0:
  assumes "ls \<noteq> []" shows "map (slot_bytes ls) (visited (length ls) 0) = seen_slots ls"
proof -
  let ?n = "length ls"
  define b where "b = (if ?n mod 10 = 0 then 10 else ?n mod 10)"
  have "visited ?n 0 = [0..<b]" by (auto simp: visited_def b_def)
  moreover have "b \<le> min ?n 10"
    using assms by (cases "?n < 10") (auto simp: b_def less_imp_le)
  moreover from this have "seen_slots ls = take b (slot_order ls)" by (auto simp: b_def seen_slots_def)
  ultimately show ?thesis
    by (intro nth_equalityI) (auto simp: slot_bytes_def)
qed

text \<open>Which lines these are.\<close>

lemma seen_slots_lines:
  "seen_slots ls =
    (if length ls \<le> 10 then ls else if length ls mod 10 = 0 then window ls
     else drop (length ls - length ls mod 10) ls)"
proof (cases "length ls \<le> 10")
  case True
  then have "slot_order ls = ls" by (simp add: slot_order_aligned window_def)
  moreover have "length ls mod 10 = 0 \<or> length ls mod 10 = length ls" using True by (cases "length ls = 10") auto
  ultimately show ?thesis using True by (auto simp: seen_slots_def)
next
  case False
  let ?n = "length ls" and ?r = "length ls mod 10"
  show ?thesis
  proof (cases "?r = 0")
    case True
    have "(?n - 10) mod 10 = 0" using False True by (metis le_mod_geq less_imp_le not_le)
    with False True show ?thesis by (simp add: seen_slots_def slot_order_aligned)
  next
    case r: False
    have "take ?r (slot_order ls) = drop (?n - ?r) ls"
    proof (rule nth_equalityI)
      show len: "length (take ?r (slot_order ls)) = length (drop (?n - ?r) ls)"
        using False by (simp add: less_imp_le)
      fix j assume "j < length (take ?r (slot_order ls))"
      then have j: "j < ?r" "j < 10" "j < ?n" using False by auto
      have r10: "?r < 10" "?r \<le> ?n" by simp_all
      have "?n - ?r = 10 * (?n div 10)" by (simp add: minus_mod_eq_mult_div)
      then have "(?n - ?r + j) mod 10 = j" using j(2) by simp
      with slot_line(3) [OF j(2,3)] have m: "slot_line ?n j mod 10 = (?n - ?r + j) mod 10" by simp
      have "slot_line ?n j = ?n - ?r + j"
        by (rule mod_eq_near [OF m]) (use slot_line [OF j(2,3)] j r10 in linarith)+
      then show "take ?r (slot_order ls) ! j = drop (?n - ?r) ls ! j"
        using j False by (simp add: nth_slot_order)
    qed
    with False r show ?thesis by (simp add: seen_slots_def)
  qed
qed

section \<open>Release\<close>

lemma kfree_blocks: "kfree h p = Inr h' \<Longrightarrow> length (blocks h') = length (blocks h)"
  by (auto simp: kfree_def split: kptr.splits block.splits if_splits)

definition block_ptrs :: "aesd_buffer_entry list \<Rightarrow> nat list" where
  "block_ptrs es = concat (map (\<lambda>e. case buffptr e of Blk b \<Rightarrow> [b] | _ \<Rightarrow> []) es)"

lemma block_ptrs_Cons [simp]:
  "block_ptrs (e # es) = (case buffptr e of Blk b \<Rightarrow> b # block_ptrs es | _ \<Rightarrow> block_ptrs es)"
  by (simp add: block_ptrs_def split: kptr.split)

lemma block_ptrs_Nil [simp]: "block_ptrs [] = []"
  by (simp add: block_ptrs_def)

lemma free_entries_live:
  assumes "heap_is h m k" and "distinct (block_ptrs es)" and "\<forall>b \<in> set (block_ptrs es). m b \<noteq> None"
  shows "\<exists>h'. free_entries h es = Inr h' \<and> length (blocks h') = length (blocks h) \<and>
    heap_is h' (\<lambda>b. if b \<in> set (block_ptrs es) then None else m b) (k - length (block_ptrs es)) \<and>
    length (block_ptrs es) \<le> k"
  using assms
proof (induction es arbitrary: h m k)
  case Nil
  then show ?case by simp
next
  case (Cons e es)
  show ?case
  proof (cases "buffptr e")
    case (Blk b)
    then obtain bs where b: "m b = Some bs" using Cons.prems(3) by auto
    obtain h1 where h1: "kfree h (Blk b) = Inr h1" "heap_is h1 (m(b := None)) (k - 1)" "0 < k"
      using kh.dealloc [OF Cons.prems(1) b] by auto
    have d: "distinct (block_ptrs es)" and a: "\<forall>c \<in> set (block_ptrs es). (m(b := None)) c \<noteq> None"
      using Cons.prems(2,3) Blk by auto
    obtain h' where "free_entries h1 es = Inr h'" "length (blocks h') = length (blocks h1)"
      "heap_is h' (\<lambda>c. if c \<in> set (block_ptrs es) then None else (m(b := None)) c)
         (k - 1 - length (block_ptrs es))" "length (block_ptrs es) \<le> k - 1"
      using Cons.IH [OF h1(2) d a] by blast
    moreover have "(\<lambda>c. if c \<in> set (block_ptrs es) then None else (m(b := None)) c) =
        (\<lambda>c. if c \<in> set (block_ptrs (e # es)) then None else m c)"
      using Blk by auto
    ultimately show ?thesis
      using h1 Blk kfree_blocks [OF h1(1)] by (intro exI [of _ h']) auto
  qed (use Cons in auto)
qed

lemma free_entries_again:
  "b \<in> set (block_ptrs es) \<Longrightarrow> \<forall>b \<in> set (block_ptrs es). b < length (blocks h) \<and> blk h b = None \<Longrightarrow>
   free_entries h es = Inl DoubleFree"
proof (induction es)
  case (Cons e es)
  then show ?case by (cases "buffptr e") (auto simp: kfree_Freed)
qed simp

lemma ring_block_ptrs:
  assumes ring: "ring_repr m buf ls"
  shows "distinct (block_ptrs (entry buf))" "\<forall>b \<in> set (block_ptrs (entry buf)). m b \<noteq> None"
    "length (block_ptrs (entry buf)) = min (length ls) 10"
proof -
  have len: "length (entry buf) = 10" and d: "slots_distinct (entry buf)"
    and none: "\<And>j. j < 10 \<Longrightarrow> length ls \<le> j \<Longrightarrow> entry buf ! j = zero_entry"
    using ring by (auto simp: ring_repr_def slots_repr_def)
  have some: "\<exists>b. buffptr (entry buf ! j) = Blk b \<and> m b \<noteq> None" if "j < 10" "j < length ls" for j
    using slots_reprD(1) [OF _ slot_line(1,2) [OF that], of m "entry buf"] slot_line(3) [OF that] ring
    by (auto simp: ring_repr_def)
  have ex: "\<exists>f. \<forall>j<min (length ls) 10. buffptr (entry buf ! j) = Blk (f j) \<and> m (f j) \<noteq> None"
    using some by (intro choice) auto
  then obtain f where f: "\<And>j. j < min (length ls) 10 \<Longrightarrow> buffptr (entry buf ! j) = Blk (f j) \<and> m (f j) \<noteq> None"
    by blast
  have "entry buf = map (\<lambda>j. entry buf ! j) [0..<10]" using len by (metis map_nth)
  also have "[0..<10] = [0..<min (length ls) 10] @ [min (length ls) 10..<10]"
    using upt_add_eq_append [of 0 "min (length ls) 10" "10 - min (length ls) 10"] by simp
  finally have e: "entry buf = map (\<lambda>j. entry buf ! j) [0..<min (length ls) 10] @
      map (\<lambda>j. entry buf ! j) [min (length ls) 10..<10]" by simp
  have p: "block_ptrs (entry buf) = map f [0..<min (length ls) 10]"
  proof -
    have filled: "block_ptrs (map (\<lambda>j. entry buf ! j) is) = map f is"
      if "\<forall>j \<in> set is. j < min (length ls) 10" for "is"
      using that by (induction "is") (auto simp: f)
    have empty: "block_ptrs (map (\<lambda>j. entry buf ! j) is) = []"
      if "\<forall>j \<in> set is. j < 10 \<and> length ls \<le> j" for "is"
      using that by (induction "is") (auto simp: none zero_entry_def)
    have "block_ptrs (entry buf) = block_ptrs (map (\<lambda>j. entry buf ! j) [0..<min (length ls) 10]) @
        block_ptrs (map (\<lambda>j. entry buf ! j) [min (length ls) 10..<10])"
      by (subst e) (simp only: block_ptrs_def map_append concat_append)
    also have "block_ptrs (map (\<lambda>j. entry buf ! j) [0..<min (length ls) 10]) = map f [0..<min (length ls) 10]"
      by (rule filled) auto
    also have "block_ptrs (map (\<lambda>j. entry buf ! j) [min (length ls) 10..<10]) = []"
      by (rule empty) auto
    finally show ?thesis by simp
  qed
  show "length (block_ptrs (entry buf)) = min (length ls) 10" by (simp add: p)
  show "\<forall>b \<in> set (block_ptrs (entry buf)). m b \<noteq> None" using f by (auto simp: p)
  show "distinct (block_ptrs (entry buf))"
    using f d by (auto simp: p distinct_map inj_on_def slots_distinct_def)
qed

end
