(* ===== verification/Driver_Control.thy ===== *)
theory Driver_Control
  imports Driver_Refinement Ring_Lookup
begin

text \<open>
  The rest of the driver's interface: seeking, \<^verbatim>\<open>ioctl\<close>, the error paths of writing, loading
  and unloading, and the functions of the ring that the driver does not call.
\<close>

section \<open>Seeking\<close>

lemma ucast_of_nat_mod: "ucast (of_nat n :: u32) = (of_nat (n mod 4294967296) :: u64)"
proof -
  have "(of_nat n :: u32) = of_nat (n mod 4294967296)" by (simp add: word_of_nat_eq_iff take_bit_nat_def)
  then show ?thesis by (simp only: ucast_of_nat_32_64 [of "n mod 4294967296"])
qed

definition seek_target :: "byte list list \<Rightarrow> nat \<Rightarrow> nat \<Rightarrow> nat" where
  "seek_target ls cmd ofs = first_pos ls + sum_list (map length (take cmd (slot_order ls))) + ofs"

lemma seekto_number: "AESDCHAR_IOCSEEKTO = 0xC0081601"
  by (simp add: AESDCHAR_IOCSEEKTO_def IOWR_def)

lemma ioctl_seekto:
  assumes r: "drv_repr s l" and f: "opened filp"
  shows "aesd_unlocked_ioctl s filp AESDCHAR_IOCSEEKTO (Some sk) =
    (if unat (write_cmd sk) \<le> 10
     then Inr (filp\<lparr>f_pos := of_nat (seek_target (lines l) (unat (write_cmd sk))
                                      (unat (write_cmd_offset sk)) mod 4294967296)\<rparr>, 0)
     else Inl OutOfBounds)"
proof -
  obtain m where ring: "ring_repr m (ring s) (lines l)"
    using drv_repr_ring [OF r] by blast
  let ?S = "sum_list (map length (take (unat (write_cmd sk)) (slot_order (lines l))))"
  have start: "start_char_abs (ring s) = of_nat (first_pos (lines l))"
    using ring by (simp add: ring_repr_def offsets_repr_def first_pos_def)
  have "of_nat ?S + write_cmd_offset sk + start_char_abs (ring s) =
      (of_nat (seek_target (lines l) (unat (write_cmd sk)) (unat (write_cmd_offset sk))) :: u32)"
    by (simp add: start seek_target_def)
  then have pos: "ucast (of_nat ?S + write_cmd_offset sk + start_char_abs (ring s)) =
      (of_nat (seek_target (lines l) (unat (write_cmd sk)) (unat (write_cmd_offset sk)) mod 4294967296) :: s64)"
    by (simp only: ucast_of_nat_mod)
  have cmd: "IOC_TYPE AESDCHAR_IOCSEEKTO = AESD_IOC_MAGIC" "IOC_NR AESDCHAR_IOCSEEKTO = 1"
    by (simp_all add: IOC_TYPE_def IOC_NR_def AESDCHAR_IOCSEEKTO_def IOWR_def)
  show ?thesis
    using f drv_repr_buffer [OF r] deref_buffer_ok [OF r] pos
    by (simp add: aesd_unlocked_ioctl_def opened_def cmd get_bytes [OF ring])
qed

text \<open>
  \<^verbatim>\<open>AESDCHAR_IOCSEEKTO\<close> as a function of the log. It moves the position to the offset
  within the command, counted from the ring's first position over the sizes of the array's first
  slots, modulo \<open>2^32\<close>, whatever the size of the command is; a command above 10 makes the kernel
  read past the array.
\<close>

theorem ioctl_seekto_moves_position:
  assumes "drv_repr s l" and "opened filp"
  shows "aesd_unlocked_ioctl s filp AESDCHAR_IOCSEEKTO (Some sk) =
    (if unat (write_cmd sk) \<le> 10
     then Inr (filp\<lparr>f_pos := of_nat (seek_target (lines l) (unat (write_cmd sk))
                                      (unat (write_cmd_offset sk)) mod 4294967296)\<rparr>, 0)
     else Inl OutOfBounds)"
  using assms by (rule ioctl_seekto)

text \<open>
  C15: a client that seeks to byte \<open>ofs\<close> of the kept command \<open>cmd\<close> and reads gets the rest of that
  command and the commands after it, up to the size of its buffer, when the array starts with the oldest
  line (up to the tenth line, and whenever the number of lines is a multiple of ten) and the driver's count of
  the first position leaves room for the kept bytes, which it does as long as no line has been dropped.
\<close>

theorem ioctl_then_read:
  assumes "drv_repr s l" and "opened filp" and "copy_ok ua" and "length (lines l) < 2147483648"
    and "end_pos (lines l) < 4294967296" and "0 < n" "n \<le> KMALLOC_MAX_SIZE"
    and "(length (lines l) - 10) mod 10 = 0"
    and "cmd < length (window (lines l))" and "ofs < length (window (lines l) ! cmd)"
    and "first_pos (lines l) + length (contents (lines l)) \<le> end_pos (lines l)"
  shows "\<exists>filp' s'. aesd_unlocked_ioctl s filp AESDCHAR_IOCSEEKTO
        (Some \<lparr>write_cmd = of_nat cmd, write_cmd_offset = of_nat ofs\<rparr>) = Inr (filp', 0) \<and>
      opened filp' \<and>
      aesd_read s filp' ua (of_nat n) (f_pos filp') =
        Inr (s', f_pos filp' + of_nat (length (take n (drop ofs (concat (drop cmd (window (lines l))))))),
             of_nat (length (take n (drop ofs (concat (drop cmd (window (lines l))))))),
             take n (drop ofs (concat (drop cmd (window (lines l)))))) \<and>
      drv_repr s' l"
proof -
  let ?ls = "lines l" and ?w = "window (lines l)"
  let ?k = "length (concat (take cmd ?w)) + ofs"
  have so: "slot_order ?ls = ?w" by (rule slot_order_aligned [OF assms(8)])
  have split: "contents ?ls = concat (take cmd ?w) @ concat (drop cmd ?w)"
    by (simp add: contents_def flip: concat_append)
  have "ofs < length (concat (drop cmd ?w))"
    using assms(9,10) by (simp add: take_append_drop_concat)
  then have k: "first_pos ?ls + ?k \<le> end_pos ?ls" "?k < 4294967296" "ofs < 4294967296"
    using assms(5,11) split by simp_all
  have c: "cmd < 10" using assms(9) by simp
  let ?filp = "filp\<lparr>f_pos := of_nat (first_pos ?ls + ?k)\<rparr>"
  have "seek_target ?ls cmd ofs = first_pos ?ls + ?k"
    by (simp add: seek_target_def so length_concat)
  moreover have "(first_pos ?ls + ?k) mod 4294967296 = first_pos ?ls + ?k"
    using k(1) assms(5) by simp
  ultimately have io: "aesd_unlocked_ioctl s filp AESDCHAR_IOCSEEKTO
      (Some \<lparr>write_cmd = of_nat cmd, write_cmd_offset = of_nat ofs\<rparr>) = Inr (?filp, 0)"
    using ioctl_seekto [OF assms(1,2), of "\<lparr>write_cmd = of_nat cmd, write_cmd_offset = of_nat ofs\<rparr>"] c k(3)
    by (simp del: of_nat_add)
  have f': "opened ?filp" using assms(2) by (simp add: opened_def)
  have "served ?ls ?k = Some (drop ofs (concat (drop cmd ?w)))"
    using served_in_order [OF in_order_aligned [OF assms(8)], of ?k] by (simp add: split)
  then have "\<exists>s'. aesd_read s ?filp ua (of_nat n) (of_nat (first_pos ?ls + ?k)) =
      Inr (s', of_nat (first_pos ?ls + ?k + length (take n (drop ofs (concat (drop cmd ?w))))),
           of_nat (length (take n (drop ofs (concat (drop cmd ?w))))),
           take n (drop ofs (concat (drop cmd ?w)))) \<and> drv_repr s' l"
    using aesd_read_served [OF assms(1) f' assms(4-7) k(1), of ua] assms(3)
    by (simp add: raed_result_def del: of_nat_add)
  then show ?thesis using io f'
    by (intro exI [of _ ?filp]) (simp add: add.assoc)
qed

text \<open>The state of the examples: two lines.\<close>

definition two_lines :: "byte list list" where
  "two_lines = [''ab'' @ [newline], ''cde'' @ [newline]]"

lemma two_lines_loaded:
  "\<exists>s. load_and_write (empty_heap (\<lambda>_ _. nul)) 0 two_lines = Inr s \<and> drv_repr s (log_of two_lines)"
  by (rule load_and_write_lines) (simp add: whole_lines_def two_lines_def KMALLOC_MAX_SIZE_def)

lemma two_lines_numbers:
  "length two_lines = 2" "first_pos two_lines = 0" "end_pos two_lines = 7"
  "contents two_lines = ''ab'' @ [newline] @ ''cde'' @ [newline]"
  "window two_lines = two_lines" "slot_order two_lines = two_lines"
  by code_simp+

lemma ioctl_seekto_moves_position_witness:
  "\<exists>s. load_and_write (empty_heap (\<lambda>_ _. nul)) 0 two_lines = Inr s \<and>
     aesd_unlocked_ioctl s fresh_file AESDCHAR_IOCSEEKTO (Some \<lparr>write_cmd = 1, write_cmd_offset = 2\<rparr>) =
       Inr (fresh_file\<lparr>f_pos := 5\<rparr>, 0) \<and>
     aesd_unlocked_ioctl s fresh_file AESDCHAR_IOCSEEKTO (Some \<lparr>write_cmd = 11, write_cmd_offset = 0\<rparr>) =
       Inl OutOfBounds"
proof -
  obtain s where s: "load_and_write (empty_heap (\<lambda>_ _. nul)) 0 two_lines = Inr s"
    "drv_repr s (log_of two_lines)"
    using two_lines_loaded by blast
  have "seek_target two_lines 1 2 = 5" by code_simp
  then show ?thesis
    using s(1) ioctl_seekto_moves_position [OF s(2) fresh_file_opened]
    by (intro exI [of _ s]) simp
qed

lemma ioctl_then_read_witness:
  "\<exists>s. load_and_write (empty_heap (\<lambda>_ _. nul)) 0 two_lines = Inr s \<and>
     (\<exists>filp' s'. aesd_unlocked_ioctl s fresh_file AESDCHAR_IOCSEEKTO
          (Some \<lparr>write_cmd = of_nat 1, write_cmd_offset = of_nat 2\<rparr>) = Inr (filp', 0) \<and>
        aesd_read s filp' user_fine (of_nat 8) (f_pos filp') = Inr (s', f_pos filp' + 2, 2, ''e'' @ [newline]))"
proof -
  obtain s where s: "load_and_write (empty_heap (\<lambda>_ _. nul)) 0 two_lines = Inr s"
    "drv_repr s (log_of two_lines)"
    using two_lines_loaded by blast
  have "length (two_lines ! 1) = 4" "drop 2 (concat (drop 1 two_lines)) = ''e'' @ [newline]"
    by code_simp+
  then show ?thesis
    using s(1) ioctl_then_read [OF s(2) fresh_file_opened user_fine_ok(2), of 8 1 2]
    by (intro exI [of _ s]) (auto simp: two_lines_numbers KMALLOC_MAX_SIZE_def)
qed

text \<open>
  Every other command is rejected. The command number of \<^verbatim>\<open>AESDCHAR_IOCSEEKTO\<close> is
  \<open>0xC0081601\<close>; a command of another type or with a number above 1 returns \<open>-EINVAL\<close> without
  looking at the argument; the remaining commands of the type return \<open>-EINVAL\<close>, after the argument
  was dereferenced; the position changes in none of these cases.
\<close>

theorem ioctl_rejects_other_commands:
  assumes "drv_repr s l" and "opened filp" and "cmd \<noteq> AESDCHAR_IOCSEEKTO"
  shows "AESDCHAR_IOCSEEKTO = 0xC0081601 \<and>
    aesd_unlocked_ioctl s filp cmd arg =
      (if IOC_TYPE cmd = 0x16 \<and> IOC_NR cmd \<le> 1 \<and> arg = None then Inl UserFault
       else Inr (filp, - 22))"
proof
  show "AESDCHAR_IOCSEEKTO = 0xC0081601" by (rule seekto_number)
  show "aesd_unlocked_ioctl s filp cmd arg =
      (if IOC_TYPE cmd = 0x16 \<and> IOC_NR cmd \<le> 1 \<and> arg = None then Inl UserFault
       else Inr (filp, - 22))"
    using assms(2,3) drv_repr_buffer [OF assms(1)]
    by (auto simp: aesd_unlocked_ioctl_def opened_def not_less split: option.split)
qed

lemma ioctl_rejects_other_commands_witness:
  "\<exists>s. load_and_write (empty_heap (\<lambda>_ _. nul)) 0 two_lines = Inr s \<and>
     aesd_unlocked_ioctl s fresh_file 0x1602 None = Inr (fresh_file, - 22) \<and>
     aesd_unlocked_ioctl s fresh_file 0x1600 None = Inl UserFault"
proof -
  obtain s where s: "load_and_write (empty_heap (\<lambda>_ _. nul)) 0 two_lines = Inr s"
    "drv_repr s (log_of two_lines)"
    using two_lines_loaded by blast
  have "0x1602 \<noteq> AESDCHAR_IOCSEEKTO" "0x1600 \<noteq> AESDCHAR_IOCSEEKTO"
    by (simp_all add: seekto_number)
  then show ?thesis
    using s(1) ioctl_rejects_other_commands [OF s(2) fresh_file_opened]
    by (intro exI [of _ s]) (simp add: IOC_TYPE_def IOC_NR_def word_le_nat_alt)
qed

lemma llseek_at:
  assumes "drv_repr s l" and "opened filp" and "end_pos (lines l) < 4294967296"
  shows "aesd_llseek s filp off whence =
    (if whence = 0 then Inr (filp\<lparr>f_pos := of_nat (first_pos (lines l)) + off\<rparr>, of_nat (first_pos (lines l)) + off)
     else if whence = 1 then Inr (filp\<lparr>f_pos := f_pos filp + off\<rparr>, f_pos filp + off)
     else if whence = 2 then Inr (filp\<lparr>f_pos := of_nat (end_pos (lines l)) + off\<rparr>, of_nat (end_pos (lines l)) + off)
     else Inr (filp, - 22))"
proof -
  have "ucast (start_char_abs (ring s)) = (of_nat (first_pos (lines l)) :: s64)"
    "ucast (w_char_abs (ring s)) = (of_nat (end_pos (lines l)) :: s64)"
    using ring_positions [OF assms(1,3)] by (metis of_nat_unat)+
  then show ?thesis
    using assms(2) drv_repr_buffer [OF assms(1)] deref_buffer_ok [OF assms(1)]
    by (simp add: aesd_llseek_def opened_def)
qed

text \<open>
  \<^verbatim>\<open>lseek\<close> as a function of the log. \<^verbatim>\<open>SEEK_SET\<close> counts from the ring's first position
  (so it is absolute only until the first eviction), \<^verbatim>\<open>SEEK_END\<close> from the number of all bytes
  ever added, \<^verbatim>\<open>SEEK_CUR\<close> from the position; the sum, of any sign, is the new position and the
  result. Any other \<^verbatim>\<open>whence\<close> returns \<open>-EINVAL\<close> and changes nothing.
\<close>

theorem llseek_positions:
  assumes "drv_repr s l" and "opened filp" and "end_pos (lines l) < 4294967296"
  shows "aesd_llseek s filp off whence =
    (if whence = 0 then Inr (filp\<lparr>f_pos := of_nat (first_pos (lines l)) + off\<rparr>, of_nat (first_pos (lines l)) + off)
     else if whence = 1 then Inr (filp\<lparr>f_pos := f_pos filp + off\<rparr>, f_pos filp + off)
     else if whence = 2 then Inr (filp\<lparr>f_pos := of_nat (end_pos (lines l)) + off\<rparr>, of_nat (end_pos (lines l)) + off)
     else Inr (filp, - 22))"
  using assms by (rule llseek_at)

lemma llseek_positions_witness:
  "\<exists>s. load_and_write (empty_heap (\<lambda>_ _. nul)) 0 two_lines = Inr s \<and>
     aesd_llseek s fresh_file (- 3) 2 = Inr (fresh_file\<lparr>f_pos := 4\<rparr>, 4) \<and>
     aesd_llseek s fresh_file 0 3 = Inr (fresh_file, - 22)"
proof -
  obtain s where s: "load_and_write (empty_heap (\<lambda>_ _. nul)) 0 two_lines = Inr s"
    "drv_repr s (log_of two_lines)"
    using two_lines_loaded by blast
  then show ?thesis
    using llseek_positions [OF s(2) fresh_file_opened]
    by (intro exI [of _ s]) (simp add: two_lines_numbers)
qed

end
