(* ===== verification/Driver_Faults.thy ===== *)
theory Driver_Faults
  imports Driver_Control
begin

text \<open>
  What the driver does when a write cannot be served: the error paths that clean up behind
  themselves and the allocations whose failure is not looked at. Loading and unloading, with what
  they leave behind, and the two functions of the ring that the driver does not call.
\<close>

section \<open>Failed writes\<close>

lemma heap_is_hcount: "heap_is (h\<lparr>hcount := k\<rparr>) m c \<longleftrightarrow> heap_is h m c"
  by (simp add: heap_is_def blk_def nlive_def avail_def fun_eq_iff)

lemma drv_repr_heap:
  assumes "drv_repr s l" and "heap_is (heap s) m (census 1 l)" and "heap_is h m (census 1 l)"
  shows "drv_repr (s\<lparr>heap := h\<rparr>) l"
  using drv_repr_put [OF assms(1,3,2), of "ring s"] by (simp add: put_buffer_def)

text \<open>
  A write that fails with an error code changes nothing: a count above what the allocator
  serves, a user buffer that \<^verbatim>\<open>access_ok\<close> refuses, and a copy that does not complete return
  \<open>-ENOMEM\<close>, \<open>-EFAULT\<close> and \<open>-ENOMEM\<close>, release the block they had allocated, and leave the log and
  the number of live blocks as they were.
\<close>

theorem failed_write_changes_nothing:
  assumes "drv_repr s l" and "opened filp" and "0 < unat count"
    and fail: "KMALLOC_MAX_SIZE < unat count \<or>
      direct_ok ua \<and> unat count \<le> length bs \<and> (\<not> access_ok ua \<or> \<not> copy_ok ua)"
  shows "\<exists>s'. aesd_write s filp ua bs count =
      Inr (s', if unat count \<le> KMALLOC_MAX_SIZE \<and> \<not> access_ok ua then - 14 else - 12) \<and>
      drv_repr s' l \<and> nlive (heap s') = nlive (heap s)"
proof -
  obtain m d js where h: "heap_is (heap s) m (census 1 l)" and d: "buffer (aesd_device s) = Blk d"
    using assms(1) by (rule drv_reprE)
  have "\<exists>h'. aesd_write s filp ua bs count =
      Inr (s\<lparr>heap := h'\<rparr>, if unat count \<le> KMALLOC_MAX_SIZE \<and> \<not> access_ok ua then - 14 else - 12) \<and>
      heap_is h' m (census 1 l)"
  proof (cases "unat count \<le> KMALLOC_MAX_SIZE")
    case False
    then show ?thesis
      using assms(2) d h deref_buffer_ok [OF assms(1)] kmalloc_too_big [of count "heap s"]
      by (auto simp: aesd_write_def opened_def heap_is_hcount)
  next
    case True
    with fail have f: "direct_ok ua" "unat count \<le> length bs" "\<not> access_ok ua \<or> \<not> copy_ok ua" by auto
    have "count \<noteq> 0" using assms(3) by auto
    then have "unat (count - 1) < length bs" using f(2) assms(3) by (simp add: unat_minus_one)
    then have ur: "\<exists>c. user_read ua bs (count - 1) = Inr c" using f(1) by (simp add: user_read_def)
    obtain b h1 ks where b: "kmalloc (heap s) count = (Blk b, h1)" "m b = None" "length ks = unat count"
      "heap_is h1 (m(b \<mapsto> ks)) (Suc (census 1 l))"
      using kh.alloc [OF h assms(3) True] by blast
    obtain h2 where h2: "memset h1 (Blk b) nul (unat count) = Inr h2"
      "heap_is h2 (m(b \<mapsto> replicate (unat count) nul)) (Suc (census 1 l))"
      using memset_Blk [OF b(4), of b ks "unat count" nul] b(3) by auto
    have restored: "(m(b := x))(b := None) = m" for x using b(2) by auto
    obtain h3 where h3: "kfree h1 (Blk b) = Inr h3" "heap_is h3 m (census 1 l)"
      using kh.dealloc [OF b(4), of b] restored by auto
    obtain h4 where h4: "kfree h2 (Blk b) = Inr h4" "heap_is h4 m (census 1 l)"
      using kh.dealloc [OF h2(2), of b] restored by auto
    show ?thesis
      using f(3) True assms(2) d ur b(1) h2(1) h3 h4 deref_buffer_ok [OF assms(1)]
      by (auto simp: aesd_write_def opened_def copy_from_user_def)
  qed
  then obtain h' where h': "aesd_write s filp ua bs count =
      Inr (s\<lparr>heap := h'\<rparr>, if unat count \<le> KMALLOC_MAX_SIZE \<and> \<not> access_ok ua then - 14 else - 12)"
    "heap_is h' m (census 1 l)" by blast
  show ?thesis
    using h' drv_repr_heap [OF assms(1) h h'(2)] drv_repr_nlive [OF assms(1)]
    by (intro exI [of _ "s\<lparr>heap := h'\<rparr>"]) (auto simp: heap_is_def)
qed

lemma failed_write_changes_nothing_witness:
  "\<exists>s. load_and_write (empty_heap (\<lambda>_ _. nul)) 0 two_lines = Inr s \<and>
     (\<exists>s'. aesd_write s fresh_file (user_fine\<lparr>access_ok := False\<rparr>) ''ab'' 2 = Inr (s', - 14) \<and>
        drv_repr s' (log_of two_lines) \<and> nlive (heap s') = nlive (heap s))"
proof -
  obtain s where s: "load_and_write (empty_heap (\<lambda>_ _. nul)) 0 two_lines = Inr s"
    "drv_repr s (log_of two_lines)"
    using two_lines_loaded by blast
  from failed_write_changes_nothing [OF s(2) fresh_file_opened, of 2 "user_fine\<lparr>access_ok := False\<rparr>" "''ab''"] s(1)
  show ?thesis by (auto simp: user_fine_def KMALLOC_MAX_SIZE_def)
qed

lemma aesd_write_user_pointer:
  assumes "drv_repr s l" and "opened filp" and "unat count \<le> KMALLOC_MAX_SIZE"
    and "\<not> direct_ok ua \<or> count = 0 \<and> length bs < 18446744073709551615"
  shows "aesd_write s filp ua bs count = Inl (if direct_ok ua then OutOfBounds else UserFault)"
proof -
  obtain m where h: "heap_is (heap s) m (census 1 l)"
    using assms(1) by (rule drv_reprE)
  obtain p h1 where p: "kmalloc (heap s) count = (p, h1)" "p \<noteq> NULL"
  proof (cases "count = 0")
    case True
    then show ?thesis by (intro that) (auto simp: kmalloc_0)
  next
    case False
    then have "0 < unat count" by (simp add: unat_gt_0)
    with kh.alloc [OF h _ assms(3)] show ?thesis by (auto intro: that)
  qed
  have minus_1: "unat (- 1 :: u64) = 18446744073709551615"
    using unat_neg_of_nat_u64 [of 1] by simp
  have "user_read ua bs (count - 1) = Inl (if direct_ok ua then OutOfBounds else UserFault)"
    using assms(4) minus_1 by (auto simp: user_read_def)
  with p show ?thesis
    using assms(2) drv_repr_buffer [OF assms(1)] deref_buffer_ok [OF assms(1)]
    by (simp add: aesd_write_def opened_def)
qed

text \<open>
  The driver trusts the user's pointer. A buffer that the kernel may not touch directly is
  dereferenced before \<^verbatim>\<open>access_ok\<close> is asked, and a write of 0 bytes reads the byte before
  the buffer; both are faults of the kernel, not errors of the call.
\<close>

theorem write_trusts_user_pointer:
  assumes "drv_repr s l" and "opened filp" and "unat count \<le> KMALLOC_MAX_SIZE"
    and "\<not> direct_ok ua \<or> count = 0 \<and> length bs < 18446744073709551615"
  shows "aesd_write s filp ua bs count = Inl (if direct_ok ua then OutOfBounds else UserFault)"
  using assms by (rule aesd_write_user_pointer)

lemma write_trusts_user_pointer_witness:
  "\<exists>s. load_and_write (empty_heap (\<lambda>_ _. nul)) 0 two_lines = Inr s \<and>
     aesd_write s fresh_file (user_fine\<lparr>direct_ok := False, access_ok := False\<rparr>) ''ab'' 2 = Inl UserFault \<and>
     aesd_write s fresh_file user_fine ''ab'' 0 = Inl OutOfBounds"
proof -
  obtain s where s: "load_and_write (empty_heap (\<lambda>_ _. nul)) 0 two_lines = Inr s"
    "drv_repr s (log_of two_lines)"
    using two_lines_loaded by blast
  then show ?thesis
    using write_trusts_user_pointer [OF s(2) fresh_file_opened, of 2 "user_fine\<lparr>direct_ok := False, access_ok := False\<rparr>" "''ab''"]
      write_trusts_user_pointer [OF s(2) fresh_file_opened, of 0 user_fine "''ab''"]
    by (intro exI [of _ s]) (simp add: user_fine_def KMALLOC_MAX_SIZE_def)
qed

section \<open>Allocations that are not checked\<close>

lemma add_entry_no_memory:
  assumes "kmalloc h (bsize tmp + bsize e) = (NULL, h')" and "0 < unat (bsize tmp + bsize e)"
  shows "aesd_circular_buffer_add_entry h tmp buf e = Inl NullDeref"
  using assms by (simp add: aesd_circular_buffer_add_entry_def memset_def store_NULL)

lemma aesd_write_add_faults:
  assumes r: "drv_repr s l" and f: "opened filp" and u: "user_ok ua"
    and bs: "bs \<noteq> []" "length bs \<le> KMALLOC_MAX_SIZE"
    and k: "kmalloc H (of_nat (length bs)) = (Blk b, h1)" "memset h1 (Blk b) nul (length bs) = Inr h2"
      "store h2 (Blk b) 0 bs = Inr h3"
    and fault: "aesd_circular_buffer_add_entry h3 (tmp_entry s) (ring s)
      \<lparr>buffptr = Blk b, bsize = of_nat (length bs)\<rparr> = Inl e"
    and H: "deref_buffer (s\<lparr>heap := H\<rparr>) = Inr (ring s)"
  shows "aesd_write (s\<lparr>heap := H\<rparr>) filp ua bs (of_nat (length bs)) = Inl e"
proof -
  let ?n = "of_nat (length bs) :: u64"
  have un: "unat ?n = length bs"
    using bs(2) by (simp add: KMALLOC_MAX_SIZE_def)
  have "?n \<noteq> 0" using un bs(1) by auto
  then have "unat (?n - 1) < length bs" using un bs(1) by (simp add: unat_minus_one)
  then have "\<exists>c. user_read ua bs (?n - 1) = Inr c" using u by (simp add: user_read_def user_ok_def)
  then show ?thesis
    using f u drv_repr_buffer [OF r] k fault H un
    by (auto simp: aesd_write_def opened_def user_ok_def copy_from_user_def)
qed

lemma aesd_write_overlong:
  assumes "drv_repr s l" and "opened filp" and "user_ok ua" and "bs \<noteq> []"
    and "length bs \<le> KMALLOC_MAX_SIZE" and "KMALLOC_MAX_SIZE < length (pending l) + length bs"
  shows "aesd_write s filp ua bs (of_nat (length bs)) = Inl NullDeref"
proof -
  obtain m d js where h: "heap_is (heap s) m (census 1 l)" and cb: "cb_repr m (tmp_entry s) (ring s) l"
    using assms(1) by (rule drv_reprE)
  let ?n = "of_nat (length bs) :: u64"
  have un: "unat ?n = length bs" using assms(5) by (simp add: KMALLOC_MAX_SIZE_def)
  obtain b h1 h2 h3 ks where b: "kmalloc (heap s) ?n = (Blk b, h1)" "length ks = length bs"
    "heap_is h1 (m(b \<mapsto> ks)) (Suc (census 1 l))"
    using kh.alloc [OF h, of ?n] un assms(4,5) by auto
  obtain h2 where h2: "memset h1 (Blk b) nul (length bs) = Inr h2"
    "heap_is h2 (m(b \<mapsto> replicate (length bs) nul)) (Suc (census 1 l))"
    using memset_Blk [OF b(3), of b ks "length bs" nul] b(2) by auto
  obtain h3 where h3: "store h2 (Blk b) 0 bs = Inr h3"
    using kh.wr_whole [OF h2(2), of b "replicate (length bs) nul" bs] by auto
  have pend: "bsize (tmp_entry s) = of_nat (length (pending l))" "length (pending l) \<le> KMALLOC_MAX_SIZE"
    using cb by (simp_all add: cb_repr_def tmp_repr_def)
  have "bsize (tmp_entry s) + ?n = of_nat (length (pending l) + length bs)"
    using pend(1) by simp
  then have un': "unat (bsize (tmp_entry s) + ?n) = length (pending l) + length bs"
    using pend(2) assms(5) by (simp only: unat_of_nat64 KMALLOC_MAX_SIZE_def)
  have "aesd_circular_buffer_add_entry h3 (tmp_entry s) (ring s) \<lparr>buffptr = Blk b, bsize = ?n\<rparr> = Inl NullDeref"
    by (rule add_entry_no_memory [OF kmalloc_too_big]) (use un' assms(4,6) in simp_all)
  from aesd_write_add_faults [OF assms(1-5) b(1) h2(1) h3 this] deref_buffer_ok [OF assms(1)]
  show ?thesis by simp
qed

text \<open>
  A line longer than the allocator's largest block faults. The write itself is small enough
  to be accepted, but with the bytes that wait for their newline it exceeds 4 MiB: the result of
  \<^verbatim>\<open>kmalloc\<close> is null and \<^verbatim>\<open>memset\<close> writes through it.
\<close>

theorem overlong_line_faults:
  assumes "drv_repr s l" and "opened filp" and "user_ok ua" and "bs \<noteq> []"
    and "length bs \<le> KMALLOC_MAX_SIZE" and "KMALLOC_MAX_SIZE < length (pending l) + length bs"
  shows "aesd_write s filp ua bs (of_nat (length bs)) = Inl NullDeref"
  using assms by (rule aesd_write_overlong)

text \<open>
  C35: a write whose second allocation fails faults. The first failure is handled (\<open>-ENOMEM\<close>);
  the next one, inside \<^verbatim>\<open>aesd_circular_buffer_add_entry\<close>, is not looked at and a null pointer
  is written through.
\<close>

theorem unchecked_allocation_faults:
  assumes "drv_repr s l" and "opened filp" and "user_ok ua" and "fits l bs"
  shows "aesd_write (s\<lparr>heap := (heap s)\<lparr>hfail := {hcount (heap s)}\<rparr>\<rparr>) filp ua bs (of_nat (length bs)) =
      Inr (s\<lparr>heap := (heap s)\<lparr>hfail := {hcount (heap s)}, hcount := Suc (hcount (heap s))\<rparr>\<rparr>, - 12) \<and>
    aesd_write (s\<lparr>heap := (heap s)\<lparr>hfail := {Suc (hcount (heap s))}\<rparr>\<rparr>) filp ua bs (of_nat (length bs)) =
      Inl NullDeref"
proof
  obtain m d js where cb: "cb_repr m (tmp_entry s) (ring s) l"
    using assms(1) by (rule drv_reprE)
  let ?n = "of_nat (length bs) :: u64" and ?h = "heap s"
  have bs: "bs \<noteq> []" "length (pending l) + length bs \<le> KMALLOC_MAX_SIZE"
    using assms(4) by (simp_all add: fits_def)
  have un: "unat ?n = length bs" using bs(2) by (simp add: KMALLOC_MAX_SIZE_def)
  have n0: "?n \<noteq> 0" using un bs(1) by auto
  have deref: "deref_buffer (s\<lparr>heap := ?h\<lparr>hfail := F\<rparr>\<rparr>) = Inr (ring s)" for F
    using deref_buffer_ok [OF assms(1)] by (simp add: deref_buffer_def)
  show "aesd_write (s\<lparr>heap := ?h\<lparr>hfail := {hcount ?h}\<rparr>\<rparr>) filp ua bs ?n =
      Inr (s\<lparr>heap := ?h\<lparr>hfail := {hcount ?h}, hcount := Suc (hcount ?h)\<rparr>\<rparr>, - 12)"
    using assms(2) drv_repr_buffer [OF assms(1)] deref [of "{hcount ?h}"] n0
    by (simp add: aesd_write_def opened_def kmalloc_def)
  let ?b = "length (blocks ?h)"
  let ?at = "\<lambda>x. ?h\<lparr>hfail := {Suc (hcount ?h)}, hcount := Suc (hcount ?h), blocks := blocks ?h @ [Live x]\<rparr>"
  let ?x = "map (hjunk ?h ?b) [0..<length bs]"
  have k: "kmalloc (?h\<lparr>hfail := {Suc (hcount ?h)}\<rparr>) ?n = (Blk ?b, ?at ?x)"
    using un n0 bs(2) by (simp add: kmalloc_def Let_def)
  have m: "memset (?at ?x) (Blk ?b) nul (length bs) = Inr (?at (replicate (length bs) nul))"
    using bs(1) by (simp add: memset_def store_def patch_def)
  have st: "store (?at (replicate (length bs) nul)) (Blk ?b) 0 bs = Inr (?at bs)"
    using bs(1) by (simp add: store_def patch_def)
  have pend: "bsize (tmp_entry s) = of_nat (length (pending l))"
    using cb by (simp add: cb_repr_def tmp_repr_def)
  then have "bsize (tmp_entry s) + ?n = of_nat (length (pending l) + length bs)" by simp
  then have "unat (bsize (tmp_entry s) + ?n) = length (pending l) + length bs"
    using bs(2) by (simp only: unat_of_nat64 KMALLOC_MAX_SIZE_def)
  then have pos: "0 < unat (bsize (tmp_entry s) + ?n)" using bs(1) by simp
  have "aesd_circular_buffer_add_entry (?at bs) (tmp_entry s) (ring s) \<lparr>buffptr = Blk ?b, bsize = ?n\<rparr> = Inl NullDeref"
    by (rule add_entry_no_memory [OF kmalloc_fails]) (use pos in simp_all)
  from aesd_write_add_faults [OF assms(1-3) bs(1) _ k m st this deref] bs(2)
  show "aesd_write (s\<lparr>heap := ?h\<lparr>hfail := {Suc (hcount ?h)}\<rparr>\<rparr>) filp ua bs ?n = Inl NullDeref"
    by simp
qed

lemma unchecked_allocation_faults_witness:
  "\<exists>s. load_and_write (empty_heap (\<lambda>_ _. nul)) 0 two_lines = Inr s \<and>
     aesd_write (s\<lparr>heap := (heap s)\<lparr>hfail := {Suc (hcount (heap s))}\<rparr>\<rparr>) fresh_file user_fine ''ab''
       (of_nat (length ''ab'')) = Inl NullDeref"
proof -
  obtain s where s: "load_and_write (empty_heap (\<lambda>_ _. nul)) 0 two_lines = Inr s"
    "drv_repr s (log_of two_lines)"
    using two_lines_loaded by blast
  have "fits (log_of two_lines) ''ab''"
    by (simp add: fits_def two_lines_numbers KMALLOC_MAX_SIZE_def)
  from unchecked_allocation_faults [OF s(2) fresh_file_opened user_fine_ok(1) this] s(1)
  show ?thesis by blast
qed

text \<open>The longest pending line: one more byte does not fit.\<close>

lemma overlong_line_faults_witness:
  "\<exists>s. load_and_write (empty_heap (\<lambda>_ _. nul)) 0 [replicate KMALLOC_MAX_SIZE (CHR ''x'')] = Inr s \<and>
     aesd_write s fresh_file user_fine ''y'' (of_nat (length ''y'')) = Inl NullDeref"
proof -
  let ?x = "replicate KMALLOC_MAX_SIZE (CHR ''x'')"
  have "fit_all empty_log [?x]"
    by (simp add: fits_def empty_log_def) (simp add: KMALLOC_MAX_SIZE_def)
  then obtain s where s: "load_and_write (empty_heap (\<lambda>_ _. nul)) 0 [?x] = Inr s"
    "drv_repr s (log_adds empty_log [?x])"
    using load_and_write_log by blast
  have "last ?x = CHR ''x''" by (rule last_replicate) (simp add: KMALLOC_MAX_SIZE_def)
  then have "length (pending (log_adds empty_log [?x])) = KMALLOC_MAX_SIZE"
    by (simp add: log_add_def Let_def empty_log_def)
  then show ?thesis
    using overlong_line_faults [OF s(2) fresh_file_opened user_fine_ok(1), of "''y''"] s(1)
    by (intro exI [of _ s]) (simp add: KMALLOC_MAX_SIZE_def)
qed

section \<open>Loading and unloading\<close>

lemma init_no_memory:
  assumes "0 \<le> sint result" and "hcount h \<in> hfail h"
  shows "\<exists>s. aesd_init_module (module_boot h) result dev err = Inr (s, - 12) \<and>
    regions s = [dev] \<and> cdevs s = [] \<and> nlive (heap s) = nlive h"
  using assms kmalloc_fails [of h sizeof_aesd_circular_buffer]
  by (simp add: aesd_init_module_def Let_def module_boot_def sizeof_aesd_circular_buffer_def nlive_def)

text \<open>
  The failures of loading. If no device number is assigned, nothing has been done. If the ring
  cannot be allocated, \<open>-ENOMEM\<close> is returned with the device number still registered. If
  \<^verbatim>\<open>cdev_add\<close> fails, its error is returned and the number is given back, but the ring stays
  allocated.
\<close>

theorem init_failures:
  "(sint result < 0 \<longrightarrow>
      aesd_init_module (module_boot h) result dev err = Inr ((module_boot h)\<lparr>aesd_major := 0\<rparr>, result)) \<and>
   (0 \<le> sint result \<and> hcount h \<in> hfail h \<longrightarrow>
      (\<exists>s. aesd_init_module (module_boot h) result dev err = Inr (s, - 12) \<and>
           regions s = [dev] \<and> cdevs s = [] \<and> nlive (heap s) = nlive h)) \<and>
   (0 \<le> sint result \<and> avail h \<and> err \<noteq> 0 \<longrightarrow>
      (\<exists>s. aesd_init_module (module_boot h) result dev err = Inr (s, err) \<and>
           regions s = [] \<and> cdevs s = [] \<and> nlive (heap s) = Suc (nlive h)))"
proof (intro conjI impI)
  assume "sint result < 0"
  then show "aesd_init_module (module_boot h) result dev err =
      Inr ((module_boot h)\<lparr>aesd_major := 0\<rparr>, result)"
    by (simp add: aesd_init_module_def Let_def MAJOR_def)
next
  assume "0 \<le> sint result \<and> hcount h \<in> hfail h"
  then show "\<exists>s. aesd_init_module (module_boot h) result dev err = Inr (s, - 12) \<and>
           regions s = [dev] \<and> cdevs s = [] \<and> nlive (heap s) = nlive h"
    using init_no_memory by blast
next
  assume a: "0 \<le> sint result \<and> avail h \<and> err \<noteq> 0"
  have sz: "unat sizeof_aesd_circular_buffer = 184"
    by (simp add: sizeof_aesd_circular_buffer_def)
  have h: "heap_is h (blk h) (nlive h)" using a by (simp add: heap_is_def)
  obtain d h1 bs where d: "kmalloc h sizeof_aesd_circular_buffer = (Blk d, h1)" "length bs = 184"
    "heap_is h1 ((blk h)(d \<mapsto> bs)) (Suc (nlive h))"
    using kh.alloc [OF h, of sizeof_aesd_circular_buffer] sz by (auto simp: KMALLOC_MAX_SIZE_def)
  obtain h2 where h2: "memset h1 (Blk d) nul 184 = Inr h2"
    "heap_is h2 ((blk h)(d \<mapsto> replicate 184 nul)) (Suc (nlive h))"
    using memset_Blk [OF d(3), of d bs 184 nul] d(2) by auto
  then show "\<exists>s. aesd_init_module (module_boot h) result dev err = Inr (s, err) \<and>
           regions s = [] \<and> cdevs s = [] \<and> nlive (heap s) = Suc (nlive h)"
    using a d(1)
    by (simp add: aesd_init_module_def module_boot_def Let_def sz aesd_circular_buffer_init_def
        aesd_init_entry_def zero_entry_def put_buffer_def aesd_setup_cdev_def heap_is_def)
qed

lemma init_failures_witness:
  "\<exists>s. aesd_init_module (module_boot (empty_heap (\<lambda>_ _. nul))) 0 0x0FC00000 (- 16) = Inr (s, - 16) \<and>
     regions s = [] \<and> cdevs s = [] \<and> nlive (heap s) = 1"
proof -
  have "avail (empty_heap (\<lambda>_ _. nul))" "nlive (empty_heap (\<lambda>_ _. nul)) = 0"
    by (simp_all add: avail_def empty_heap_def nlive_def)
  with init_failures [of 0 "empty_heap (\<lambda>_ _. nul)" "0x0FC00000" "- 16"]
  show ?thesis by simp
qed

text \<open>
  Unloading releases the ring and nothing else. The blocks of the kept lines, of the pending
  bytes and the leaked ones stay allocated, and nothing points to them any more.
\<close>

theorem cleanup_leaks_the_lines:
  assumes "drv_repr s l"
  shows "\<exists>s'. aesd_cleanup_module s = Inr s' \<and> deref_buffer s' = Inl UseAfterFree \<and>
    nlive (heap s') = min (length (lines l)) 10 + (if pending l = [] then 0 else 1) + leaked l \<and>
    cdevs s' = remove1 (MKDEV (aesd_major s) 0) (cdevs s) \<and>
    regions s' = remove1 (MKDEV (aesd_major s) 0) (regions s)"
proof -
  obtain m d js where h: "heap_is (heap s) m (census 1 l)" and d: "buffer (aesd_device s) = Blk d"
    "m d = Some js"
    using assms by (rule drv_reprE)
  obtain h' where h': "kfree (heap s) (Blk d) = Inr h'" "heap_is h' (m(d := None)) (census 1 l - 1)"
    using kh.dealloc [OF h d(2)] by blast
  have live: "d < length (blocks (heap s))" "blk h' d = None"
    using h d(2) h'(2) by (auto simp: heap_is_def dest: blk_SomeD)
  then have "load h' (Blk d) 0 184 = Inl UseAfterFree"
    using kfree_blocks [OF h'(1)] by (auto simp: load_def blk_def split: block.splits)
  moreover have "census 1 l - 1 = min (length (lines l)) 10 + (if pending l = [] then 0 else 1) + leaked l"
    by (simp add: census_def)
  ultimately show ?thesis
    using h' d(1)
    by (auto simp: aesd_cleanup_module_def Let_def deref_buffer_def sizeof_aesd_circular_buffer_def heap_is_def)
qed

lemma cleanup_leaks_the_lines_witness:
  "\<exists>s s'. load_and_write (empty_heap (\<lambda>_ _. nul)) 0 two_lines = Inr s \<and>
     aesd_cleanup_module s = Inr s' \<and> nlive (heap s') = 2"
proof -
  obtain s where s: "load_and_write (empty_heap (\<lambda>_ _. nul)) 0 two_lines = Inr s"
    "drv_repr s (log_of two_lines)"
    using two_lines_loaded by blast
  from cleanup_leaks_the_lines [OF s(2)] s(1) show ?thesis by (auto simp: two_lines_numbers)
qed

section \<open>The functions of the ring that the driver does not call\<close>

text \<open>
  C33: the lookup that the ring's header documents never leaves the array. Wherever earlier reads have
  left \<^verbatim>\<open>out_offs\<close>, it returns the slot and the offset of a position among the bytes of the slots from
  \<^verbatim>\<open>out_offs\<close> to \<^verbatim>\<open>in_offs\<close>, in this order, and nothing for a position behind them. While nothing
  has been read \<^verbatim>\<open>out_offs\<close> is 0, since adding never moves it: then it looks at all the lines in order up
  to the tenth, and after that at the newest \<open>n mod 10\<close> lines only, or at all ten if \<open>n\<close> is a multiple of ten.
\<close>

theorem find_entry_offset_spec:
  assumes "ring_repr m buf ls"
  shows "aesd_circular_buffer_find_entry_offset_for_fpos buf off =
      (let slots = visited (length ls) (unat (out_offs buf)); (i, j) = locate (map (slot_bytes ls) slots) (unat off) in
       Inr (if i < length slots then Some (slots ! i, of_nat j) else None)) \<and>
    (ls \<noteq> [] \<longrightarrow> map (slot_bytes ls) (visited (length ls) 0) =
      (if length ls \<le> 10 then ls
       else if length ls mod 10 = 0 then window ls
       else drop (length ls - length ls mod 10) ls))"
  using find_entry_offset [OF assms] visited_from_0 seen_slots_lines by simp

text \<open>
  C36: releasing the entries of a ring frees the block of every kept line and empties the offsets,
  but the entries keep their pointers: releasing twice is a double free.
\<close>

theorem free_releases_lines_once:
  assumes "heap_is h m k" and "ring_repr m buf ls"
  shows "\<exists>h' buf'. aesd_circular_buffer_free h buf = Inr (h', buf') \<and>
    nlive h' + min (length ls) 10 = nlive h \<and>
    w_abs buf' = 0 \<and> start_abs buf' = 0 \<and> w_char_abs buf' = 0 \<and> start_char_abs buf' = 0 \<and>
    (if ls = [] then aesd_circular_buffer_free h' buf' = Inr (h', buf')
     else aesd_circular_buffer_free h' buf' = Inl DoubleFree)"
proof -
  let ?es = "entry buf" and ?ps = "block_ptrs (entry buf)"
  note ptrs = ring_block_ptrs [OF assms(2)]
  have len: "take 10 ?es = ?es" using assms(2) by (simp add: ring_repr_def slots_repr_def)
  obtain h' where h': "free_entries h ?es = Inr h'" "length (blocks h') = length (blocks h)"
    "heap_is h' (\<lambda>b. if b \<in> set ?ps then None else m b) (k - length ?ps)" "length ?ps \<le> k"
    using free_entries_live [OF assms(1) ptrs(1,2)] by blast
  let ?buf = "buf\<lparr>in_offs := 0, out_offs := 0, w_abs := 0, start_abs := 0, w_char_abs := 0, start_char_abs := 0\<rparr>"
  have run: "aesd_circular_buffer_free h buf = Inr (h', ?buf)"
    using h'(1) len by (simp add: aesd_circular_buffer_free_def)
  have "nlive h' + min (length ls) 10 = nlive h"
    using h'(3,4) assms(1) ptrs(3) by (simp add: heap_is_def)
  moreover have "if ls = [] then aesd_circular_buffer_free h' ?buf = Inr (h', ?buf)
     else aesd_circular_buffer_free h' ?buf = Inl DoubleFree"
  proof (cases "ls = []")
    case True
    then have "?ps = []" using ptrs(3) by (metis length_0_conv list.size(3) min_0L)
    moreover have "block_ptrs es = [] \<Longrightarrow> free_entries g es = Inr g" for g es
      by (induction es) (auto split: kptr.splits)
    ultimately have "free_entries g ?es = Inr g" for g by simp
    with True len show ?thesis by (simp add: aesd_circular_buffer_free_def)
  next
    case False
    then have "0 < length ?ps" using ptrs(3) by simp
    then obtain b where b: "b \<in> set ?ps" by (cases ?ps) auto
    have "c < length (blocks h') \<and> blk h' c = None" if "c \<in> set ?ps" for c
      using that h'(2,3) ptrs(2) assms(1) by (auto simp: heap_is_def dest!: blk_SomeD)
    then have "free_entries h' ?es = Inl DoubleFree" by (intro free_entries_again [OF b]) blast
    with False len show ?thesis by (simp add: aesd_circular_buffer_free_def)
  qed
  ultimately show ?thesis using run by (intro exI [of _ h'] exI [of _ ?buf]) simp
qed

lemma free_releases_lines_once_witness:
  "\<exists>s h' buf'. load_and_write (empty_heap (\<lambda>_ _. nul)) 0 two_lines = Inr s \<and>
     aesd_circular_buffer_free (heap s) (ring s) = Inr (h', buf') \<and> nlive h' = 1 \<and>
     aesd_circular_buffer_free h' buf' = Inl DoubleFree"
proof -
  obtain s where s: "load_and_write (empty_heap (\<lambda>_ _. nul)) 0 two_lines = Inr s"
    "drv_repr s (log_of two_lines)"
    using two_lines_loaded by blast
  obtain m where m: "heap_is (heap s) m (census 1 (log_of two_lines))" "ring_repr m (ring s) two_lines"
    using s(2) by (auto simp: drv_repr_def cb_repr_def)
  have "nlive (heap s) = 3" "two_lines \<noteq> []"
    using m(1) by (auto simp: heap_is_def census_def two_lines_numbers) (simp add: two_lines_def)
  with free_releases_lines_once [OF m] s(1) show ?thesis
    by (fastforce simp: two_lines_numbers)
qed

text \<open>Writing never moves \<^verbatim>\<open>out_offs\<close>.\<close>

lemma advance_offsets_out_offs [simp]:
  "out_offs (advance_offsets buf n) = out_offs buf" "entry (advance_offsets buf n) = entry buf"
  by (simp_all add: advance_offsets_def Let_def)

lemma commit_line_out_offs:
  assumes "commit_line h tmp buf = Inr (h', tmp', buf')" shows "out_offs buf' = out_offs buf"
  using assms unfolding commit_line_def Let_def
  by (auto simp only: bnd_eq_Inr_iff split_paired_Ex prod.case case_prod_unfold fst_conv snd_conv
      sum.inject prod.inject advance_offsets_out_offs) simp

lemma add_entry_out_offs:
  assumes "aesd_circular_buffer_add_entry h tmp buf e = Inr (h', tmp', buf')"
  shows "out_offs buf' = out_offs buf"
proof -
  obtain h1 tmp1 where "commit_line h1 tmp1 buf = Inr (h', tmp', buf') \<or> buf' = buf"
    using assms unfolding aesd_circular_buffer_add_entry_def Let_def case_prod_unfold bnd_eq_Inr_iff
    by (auto simp only: split: if_splits)
  then show ?thesis using commit_line_out_offs by blast
qed

lemma driver_put_out_offs:
  "driver_put s bs = Inr s' \<Longrightarrow> out_offs (ring s') = out_offs (ring s)"
  by (auto simp: driver_put_def aesd_write_def put_buffer_def deref_buffer_def Let_def bnd_iffs
      dest!: add_entry_out_offs split: prod.splits if_splits)

lemma run_writes_out_offs:
  "run_writes driver_put s bss = Inr s' \<Longrightarrow> out_offs (ring s') = out_offs (ring s)"
  by (induction bss arbitrary: s) (auto simp: bnd_iffs dest: driver_put_out_offs)

lemma load_and_write_out_offs:
  assumes "load_and_write (empty_heap junk) dev bss = Inr s" shows "out_offs (ring s) = 0"
proof -
  obtain s0 r where s0: "aesd_init_module (module_boot (empty_heap junk)) 0 dev 0 = Inr (s0, r)"
    "run_writes driver_put s0 bss = Inr s"
    using assms by (auto simp: load_and_write_def bnd_iffs)
  then have "out_offs (ring s0) = 0"
    by (auto simp: aesd_init_module_def aesd_circular_buffer_init_def aesd_setup_cdev_def put_buffer_def
        zero_buffer_def Let_def bnd_iffs split: prod.splits if_splits)
  with run_writes_out_offs [OF s0(2)] show ?thesis by simp
qed

lemma find_entry_offset_spec_witness:
  "\<exists>s. load_and_write (empty_heap (\<lambda>_ _. nul)) 0 two_lines = Inr s \<and>
     aesd_circular_buffer_find_entry_offset_for_fpos (ring s) 4 = Inr (Some (1, 1)) \<and>
     aesd_circular_buffer_find_entry_offset_for_fpos ((ring s)\<lparr>out_offs := 1\<rparr>) 1 = Inr (Some (1, 1)) \<and>
     aesd_circular_buffer_find_entry_offset_for_fpos (ring s) 7 = Inr None"
proof -
  obtain s where s: "load_and_write (empty_heap (\<lambda>_ _. nul)) 0 two_lines = Inr s"
    "drv_repr s (log_of two_lines)"
    using two_lines_loaded by blast
  obtain m where m: "ring_repr m (ring s) two_lines"
    using s(2) by (auto simp: drv_repr_def cb_repr_def)
  have "same_ring (ring s) ((ring s)\<lparr>out_offs := 1\<rparr>)" by (simp add: same_ring_def)
  then have m1: "ring_repr m ((ring s)\<lparr>out_offs := 1\<rparr>) two_lines" using m ring_repr_same by blast
  have v: "visited (length two_lines) 0 = [0, 1]" "visited (length two_lines) 1 = [1]" by code_simp+
  have "locate (map (slot_bytes two_lines) [0, 1]) 4 = (1, 1)" "locate (map (slot_bytes two_lines) [0, 1]) 7 = (2, 0)"
    "locate (map (slot_bytes two_lines) [1]) 1 = (0, 1)" by code_simp+
  moreover have "out_offs (ring s) = 0" by (rule load_and_write_out_offs [OF s(1)])
  ultimately have "aesd_circular_buffer_find_entry_offset_for_fpos (ring s) 4 = Inr (Some (1, 1))"
    "aesd_circular_buffer_find_entry_offset_for_fpos (ring s) 7 = Inr None"
    "aesd_circular_buffer_find_entry_offset_for_fpos ((ring s)\<lparr>out_offs := 1\<rparr>) 1 = Inr (Some (1, 1))"
    using find_entry_offset_spec [OF m, of 4] find_entry_offset_spec [OF m, of 7] find_entry_offset_spec [OF m1, of 1] v
    by (simp_all add: Let_def del: locate.simps list.map)
  with s(1) show ?thesis by blast
qed

end
