(* ===== verification/File_Operations.thy ===== *)
theory File_Operations
  imports Driver_Faults
begin

text \<open>
  The driver behind its table of file operations (\<^verbatim>\<open>aesd_fops\<close>): any number of open files on
  one device, and any sequence of calls through them. The specification is the same table over the
  log of lines, without a heap, a ring or pointers; it says of every call, with every argument,
  what it replies, how it moves the position, what it does to the log, or which fault of the kernel
  it is. The module refines it, call by call and therefore for every sequence of calls.
\<close>

section \<open>Calls and the table of operations\<close>

datatype file_call =
    Call_open
  | Call_release
  | Call_read user_access u64
  | Call_write user_access "byte list" u64   \<comment> \<open>the bytes at the user's pointer, and the count\<close>
  | Call_llseek s64 s32
  | Call_ioctl u32 "aesd_seekto option"

text \<open>What the caller sees: the result, and the bytes copied to its buffer.\<close>

type_synonym reply = "s64 \<times> byte list"

text \<open>
  \<^verbatim>\<open>aesd_fops\<close>: which function serves which call. \<^verbatim>\<open>aesd_read\<close> and \<^verbatim>\<open>aesd_write\<close> get a pointer to
  the position; what the file's position is afterwards is up to the caller, the kernel's file
  layer, and an argument: \<open>keep ret old new\<close>.
\<close>

fun aesd_fops ::
  "(s64 \<Rightarrow> s64 \<Rightarrow> s64 \<Rightarrow> s64) \<Rightarrow> driver \<Rightarrow> kfile \<Rightarrow> file_call \<Rightarrow> fault + (driver \<times> kfile \<times> reply)" where
  "aesd_fops keep s filp Call_open = Inr (s, aesd_open filp, 0, [])"
| "aesd_fops keep s filp Call_release = (case aesd_release s filp of (s, ret) \<Rightarrow> Inr (s, filp, ret, []))"
| "aesd_fops keep s filp (Call_read ua count) =
     bnd (aesd_read s filp ua count (f_pos filp)) (\<lambda>(s, pos, ret, bs).
       Inr (s, filp\<lparr>f_pos := keep ret (f_pos filp) pos\<rparr>, ret, bs))"
| "aesd_fops keep s filp (Call_write ua ubuf count) =
     bnd (aesd_write s filp ua ubuf count) (\<lambda>(s, ret).
       Inr (s, filp\<lparr>f_pos := keep ret (f_pos filp) (f_pos filp)\<rparr>, ret, []))"
| "aesd_fops keep s filp (Call_llseek off whence) =
     bnd (aesd_llseek s filp off whence) (\<lambda>(filp, ret). Inr (s, filp, ret, []))"
| "aesd_fops keep s filp (Call_ioctl cmd arg) =
     bnd (aesd_unlocked_ioctl s filp cmd arg) (\<lambda>(filp, ret). Inr (s, filp, ret, []))"

text \<open>The kernel's file layer: a call that fails leaves the position of the file as it was.\<close>

definition vfs_keep :: "s64 \<Rightarrow> s64 \<Rightarrow> s64 \<Rightarrow> s64" where
  "vfs_keep ret old new = (if sint ret < 0 then old else new)"

text \<open>Any sequence of calls, each through one of the files; the replies are collected.\<close>

fun run_calls ::
  "('s \<Rightarrow> kfile \<Rightarrow> 'c \<Rightarrow> fault + ('s \<times> kfile \<times> 'r)) \<Rightarrow> 's \<Rightarrow> (nat \<Rightarrow> kfile) \<Rightarrow> (nat \<times> 'c) list \<Rightarrow>
   fault + ('s \<times> (nat \<Rightarrow> kfile) \<times> 'r list)" where
  "run_calls step s fs [] = Inr (s, fs, [])"
| "run_calls step s fs ((i, c) # cs) =
     bnd (step s (fs i) c) (\<lambda>(s, f, r).
     bnd (run_calls step s (fs(i := f)) cs) (\<lambda>(s, fs, rs). Inr (s, fs, r # rs)))"

section \<open>The specification\<close>

text \<open>
  Reading \<open>n\<close> bytes at \<open>pos\<close>: the new position, the result and the bytes. \<open>EPERM\<close> is 1, \<open>ENOMEM\<close> is
  12. The position moves even if the copy to the user fails, and the bytes before the failure are there.
\<close>

definition log_read :: "line_log \<Rightarrow> user_access \<Rightarrow> nat \<Rightarrow> s64 \<Rightarrow> fault + (s64 \<times> reply)" where
  "log_read l ua n pos =
     (let first = int (first_pos (lines l)); k = nat (sint pos - first) in
      if KMALLOC_MAX_SIZE < n then Inr (pos, - 12, [])
      else if sint pos < first \<or> int (end_pos (lines l)) < sint pos then Inr (pos, - 1, [])
      else if length (contents (lines l)) \<le> k then Inr (pos, 0, [])
      else if n = 0 then Inl NullDeref
      else (case served (lines l) k of
              None \<Rightarrow> Inl OutOfBounds
            | Some bs \<Rightarrow>
                (let out = take n bs in
                 Inr (pos + of_nat (length out),
                      if out = [] \<or> copy_ok ua then of_nat (length out) else - 12,
                      copy_to_user ua out))))"

definition log_write :: "line_log \<Rightarrow> user_access \<Rightarrow> byte list \<Rightarrow> nat \<Rightarrow> fault + (line_log \<times> s64)" where
  "log_write l ua ubuf n =
     (if KMALLOC_MAX_SIZE < n then Inr (l, - 12)
      else if \<not> direct_ok ua then Inl UserFault
      else if n = 0 \<or> length ubuf < n then Inl OutOfBounds
      else if \<not> access_ok ua then Inr (l, - 14)
      else if \<not> copy_ok ua then Inr (l, - 12)
      else if KMALLOC_MAX_SIZE < length (pending l) + n then Inl NullDeref
      else Inr (log_add l (take n ubuf), of_nat n))"

definition log_llseek :: "line_log \<Rightarrow> kfile \<Rightarrow> s64 \<Rightarrow> s32 \<Rightarrow> kfile \<times> s64" where
  "log_llseek l f off whence =
     (let base = (if whence = 0 then Some (of_nat (first_pos (lines l)))
                  else if whence = 1 then Some (f_pos f)
                  else if whence = 2 then Some (of_nat (end_pos (lines l))) else None)
      in case base of None \<Rightarrow> (f, - 22) | Some b \<Rightarrow> (f\<lparr>f_pos := b + off\<rparr>, b + off))"

definition log_ioctl :: "line_log \<Rightarrow> kfile \<Rightarrow> u32 \<Rightarrow> aesd_seekto option \<Rightarrow> fault + (kfile \<times> s64)" where
  "log_ioctl l f cmd arg =
     (if IOC_TYPE cmd \<noteq> 0x16 \<or> 1 < IOC_NR cmd then Inr (f, - 22)
      else case arg of
        None \<Rightarrow> Inl UserFault
      | Some sk \<Rightarrow>
          if cmd \<noteq> 0xC0081601 then Inr (f, - 22)
          else if 10 < unat (write_cmd sk) then Inl OutOfBounds
          else Inr (f\<lparr>f_pos := of_nat (seek_target (lines l) (unat (write_cmd sk))
                                         (unat (write_cmd_offset sk)) mod 4294967296)\<rparr>, 0))"

text \<open>A file that was not opened is not served: a null pointer in \<^verbatim>\<open>aesd_read\<close>, an error elsewhere.\<close>

fun log_call ::
  "(s64 \<Rightarrow> s64 \<Rightarrow> s64 \<Rightarrow> s64) \<Rightarrow> line_log \<Rightarrow> kfile \<Rightarrow> file_call \<Rightarrow> fault + (line_log \<times> kfile \<times> reply)" where
  "log_call keep l f Call_open = Inr (l, f\<lparr>private_data := DEV_AESD\<rparr>, 0, [])"
| "log_call keep l f Call_release = Inr (l, f, 0, [])"
| "log_call keep l f (Call_read ua count) =
     (if \<not> opened f then Inl NullDeref
      else bnd (log_read l ua (unat count) (f_pos f)) (\<lambda>(pos, ret, bs).
             Inr (l, f\<lparr>f_pos := keep ret (f_pos f) pos\<rparr>, ret, bs)))"
| "log_call keep l f (Call_write ua ubuf count) =
     bnd (if opened f then log_write l ua ubuf (unat count) else Inr (l, - 12)) (\<lambda>(l, ret).
       Inr (l, f\<lparr>f_pos := keep ret (f_pos f) (f_pos f)\<rparr>, ret, []))"
| "log_call keep l f (Call_llseek off whence) =
     (case if opened f then log_llseek l f off whence else (f, - 12) of (f, ret) \<Rightarrow> Inr (l, f, ret, []))"
| "log_call keep l f (Call_ioctl cmd arg) =
     bnd (if opened f then log_ioctl l f cmd arg else Inr (f, - 12)) (\<lambda>(f, ret). Inr (l, f, ret, []))"

section \<open>Refinement, for one call and for sequences\<close>

text \<open>Two outcomes agree: the same fault, or related states and the same of all that is seen.\<close>

definition agree :: "('s \<Rightarrow> 'l \<Rightarrow> bool) \<Rightarrow> fault + ('s \<times> 'o) \<Rightarrow> fault + ('l \<times> 'o) \<Rightarrow> bool" where
  "agree rep = rel_sum (=) (rel_prod rep (=))"

lemma agree_simps [simp]:
  "agree rep (Inl e) (Inl e') \<longleftrightarrow> e = e'"
  "agree rep (Inr (s, x)) (Inr (l, y)) \<longleftrightarrow> rep s l \<and> x = y"
  "\<not> agree rep (Inl e) (Inr p)" "\<not> agree rep (Inr q) (Inl e)"
  by (auto simp: agree_def)

lemma agree_Inr: "agree rep x (Inr (l, y)) \<longleftrightarrow> (\<exists>s. x = Inr (s, y) \<and> rep s l)"
  by (cases x) (auto simp: agree_def)

lemma agree_Inl: "agree rep x (Inl e) \<longleftrightarrow> x = Inl e"
  by (cases x) (auto simp: agree_def)

lemma agree_bnd:
  assumes "agree rep x y" and "\<And>s l v. rep s l \<Longrightarrow> x = Inr (s, v) \<Longrightarrow> y = Inr (l, v) \<Longrightarrow> agree rep (f (s, v)) (g (l, v))"
  shows "agree rep (bnd x f) (bnd y g)"
proof (cases y)
  case (Inl e)
  with assms(1) show ?thesis by (simp add: agree_Inl)
next
  case (Inr p)
  then obtain l v where "y = Inr (l, v)" by (cases p) auto
  with assms show ?thesis by (auto simp: agree_Inr)
qed

text \<open>
  What is enough for the calls of a file interface: each call refines its specification, as long as
  there is room, and the specification uses no more room than the call's cost.
\<close>

locale file_refinement =
  fixes rep :: "'s \<Rightarrow> 'l \<Rightarrow> bool"
    and step :: "'s \<Rightarrow> kfile \<Rightarrow> 'c \<Rightarrow> fault + ('s \<times> kfile \<times> 'r)"
    and spec :: "'l \<Rightarrow> kfile \<Rightarrow> 'c \<Rightarrow> fault + ('l \<times> kfile \<times> 'r)"
    and used :: "'l \<Rightarrow> nat" and cost :: "'c \<Rightarrow> nat" and ok :: "'c \<Rightarrow> bool" and room :: nat
  assumes one: "rep s l \<Longrightarrow> ok c \<Longrightarrow> used l + cost c < room \<Longrightarrow> agree rep (step s f c) (spec l f c)"
    and costs: "spec l f c = Inr (l', r) \<Longrightarrow> used l' \<le> used l + cost c"
begin

lemma all:
  assumes "rep s l" and "\<forall>(i, c) \<in> set cs. ok c" and "used l + sum_list (map (cost \<circ> snd) cs) < room"
  shows "agree rep (run_calls step s fs cs) (run_calls spec l fs cs)"
  using assms
proof (induction cs arbitrary: s l fs)
  case Nil
  then show ?case by simp
next
  case (Cons ic cs)
  obtain i c where ic: "ic = (i, c)" by (cases ic)
  have "agree rep (step s (fs i) c) (spec l (fs i) c)"
    by (rule one) (use Cons.prems ic in auto)
  then show ?case
    unfolding ic run_calls.simps
  proof (rule agree_bnd, clarsimp)
    fix s' l' f r assume "rep s' l'" "spec l (fs i) c = Inr (l', f, r)"
    then have "agree rep (run_calls step s' (fs(i := f)) cs) (run_calls spec l' (fs(i := f)) cs)"
      by (intro Cons.IH) (use Cons.prems ic costs [of l "fs i" c l' "(f, r)"] in auto)
    then show "agree rep (bnd (run_calls step s' (fs(i := f)) cs) (\<lambda>(s, fs, rs). Inr (s, fs, r # rs)))
        (bnd (run_calls spec l' (fs(i := f)) cs) (\<lambda>(s, fs, rs). Inr (s, fs, r # rs)))"
      by (rule agree_bnd) auto
  qed
qed

end

section \<open>The driver refines the specification\<close>

lemma lines_bounded:
  assumes "drv_repr s l" shows "length (lines l) \<le> end_pos (lines l)"
proof -
  obtain m where "ring_repr m (ring s) (lines l)" using drv_repr_ring [OF assms] by blast
  then have "[] \<notin> set (lines l)" by (auto simp: ring_repr_def line_ok_def)
  moreover have "length ls \<le> sum_list (map length ls)" if "[] \<notin> set ls" for ls :: "byte list list"
    using that
  proof (induction ls)
    case (Cons x xs)
    then show ?case by (cases x) auto
  qed simp
  ultimately show ?thesis by (simp add: end_pos_def)
qed

lemma aesd_read_agrees:
  assumes r: "drv_repr s l" and f: "opened filp" and small: "end_pos (lines l) < 2147483648"
  shows "agree drv_repr (aesd_read s filp ua count pos)
    (bnd (log_read l ua (unat count) pos) (\<lambda>v. Inr (l, v)))"
proof -
  let ?first = "int (first_pos (lines l))" and ?last = "int (end_pos (lines l))" and ?n = "unat count"
  let ?k = "nat (sint pos - ?first)"
  have n: "length (lines l) < 2147483648" "end_pos (lines l) < 4294967296"
    using lines_bounded [OF r] small by simp_all
  consider (big) "KMALLOC_MAX_SIZE < ?n"
    | (outside) "?n \<le> KMALLOC_MAX_SIZE" "sint pos < ?first \<or> ?last < sint pos"
    | (inside) "?n \<le> KMALLOC_MAX_SIZE" "\<not> sint pos < ?first" "\<not> ?last < sint pos"
    by linarith
  then show ?thesis
  proof cases
    case big
    have "drv_repr (s\<lparr>heap := (heap s)\<lparr>hcount := Suc (hcount (heap s))\<rparr>\<rparr>) l"
      using r by (auto simp: heap_is_hcount elim!: drv_reprE intro!: drv_repr_heap [OF r])
    then show ?thesis
      using big f drv_repr_buffer [OF r] deref_buffer_ok [OF r]
      by (simp add: aesd_read_def opened_def kmalloc_too_big log_read_def)
  next
    case outside
    then show ?thesis
      using aesd_read_outside [OF r f n(2) outside(1), of pos ua] by (auto simp: agree_Inr log_read_def)
  next
    case inside
    have k: "first_pos (lines l) + ?k \<le> end_pos (lines l)" using inside(2,3) by linarith
    have "int (first_pos (lines l) + ?k) = sint pos" using inside(2) by simp
    moreover have "of_int (sint pos) = pos" by simp
    ultimately have pos: "of_nat (first_pos (lines l) + ?k) = pos"
      by (metis of_int_of_nat_eq)
    have pos_add: "of_nat (first_pos (lines l) + ?k + j) = pos + of_nat j" for j
      using pos by (metis of_nat_add)
    show ?thesis
    proof (cases "length (contents (lines l)) \<le> ?k")
      case True
      then show ?thesis
        using aesd_read_end [OF r f n inside(1) k True, of ua] inside pos
        by (auto simp: agree_Inr log_read_def Let_def simp del: of_nat_add)
    next
      case False
      show ?thesis
      proof (cases "?n = 0")
        case True
        then have "count = 0" by (simp add: unat_eq_zero)
        with True show ?thesis
          using aesd_read_zero_bytes [OF r f n k, of ua] False inside pos
          by (simp add: log_read_def Let_def del: of_nat_add)
      next
        case n0: False
        then show ?thesis
          using aesd_read_cases [OF r f n _ inside(1) k, of ua] False inside pos
          by (cases "served (lines l) ?k")
            (auto simp: agree_Inr log_read_def Let_def raed_result_def pos_add simp del: of_nat_add)
      qed
    qed
  qed
qed

text \<open>A write looks at no more of the user's buffer than the count says.\<close>

lemma aesd_write_take:
  assumes "0 < unat count" and "unat count \<le> length ubuf"
  shows "aesd_write s filp ua ubuf count = aesd_write s filp ua (take (unat count) ubuf) count"
proof -
  have "count \<noteq> 0" using assms(1) by auto
  then have "unat (count - 1) < unat count" using assms(1) by (simp add: unat_minus_one)
  then have ur: "user_read ua ubuf (count - 1) = user_read ua (take (unat count) ubuf) (count - 1)"
    using assms(2) by (simp add: user_read_def)
  have cp: "copy_from_user ua h p ubuf (unat count) =
      copy_from_user ua h p (take (unat count) ubuf) (unat count)" for h p
    using assms(2) by (simp add: copy_from_user_def)
  show ?thesis unfolding aesd_write_def ur cp ..
qed

lemma aesd_write_short_buffer:
  assumes r: "drv_repr s l" and f: "opened filp" and c: "length ubuf < unat count" "unat count \<le> KMALLOC_MAX_SIZE"
    and ua: "direct_ok ua"
  shows "aesd_write s filp ua ubuf count = Inl OutOfBounds"
proof -
  obtain m where h: "heap_is (heap s) m (census 1 l)" using r by (rule drv_reprE)
  have n0: "0 < unat count" using c(1) by simp
  obtain b h1 where "kmalloc (heap s) count = (Blk b, h1)"
    using kh.alloc [OF h n0 c(2)] by blast
  moreover have "count \<noteq> 0" using n0 by auto
  then have "user_read ua ubuf (count - 1) = Inl OutOfBounds"
    using c(1) ua by (simp add: user_read_def unat_minus_one)
  ultimately show ?thesis
    using f drv_repr_buffer [OF r] deref_buffer_ok [OF r] by (simp add: aesd_write_def opened_def)
qed

lemma aesd_write_agrees:
  assumes r: "drv_repr s l" and f: "opened filp" and small: "end_pos (lines l) < 2147483648"
    and ubuf: "length ubuf < 18446744073709551615"
  shows "agree drv_repr (aesd_write s filp ua ubuf count) (log_write l ua ubuf (unat count))"
proof -
  let ?n = "unat count"
  consider (big) "KMALLOC_MAX_SIZE < ?n"
    | (pointer) "?n \<le> KMALLOC_MAX_SIZE" "\<not> direct_ok ua \<or> ?n = 0"
    | (short) "?n \<le> KMALLOC_MAX_SIZE" "direct_ok ua" "length ubuf < ?n"
    | (denied) "?n \<le> KMALLOC_MAX_SIZE" "direct_ok ua" "0 < ?n" "?n \<le> length ubuf"
        "\<not> access_ok ua \<or> \<not> copy_ok ua"
    | (served) "?n \<le> KMALLOC_MAX_SIZE" "user_ok ua" "0 < ?n" "?n \<le> length ubuf"
    unfolding user_ok_def by linarith
  then show ?thesis
  proof cases
    case big
    then have "0 < ?n" by simp
    then show ?thesis
      using failed_write_changes_nothing [OF r f _ disjI1 [OF big], of ua ubuf] big
      by (auto simp: agree_Inr log_write_def)
  next
    case pointer
    have "\<not> direct_ok ua \<or> count = 0 \<and> length ubuf < 18446744073709551615"
      using pointer(2) ubuf by (auto simp: unat_eq_zero)
    then show ?thesis
      using aesd_write_user_pointer [OF r f pointer(1)] pointer by (auto simp: log_write_def)
  next
    case short
    then show ?thesis
      using aesd_write_short_buffer [OF r f short(3,1,2)] by (simp add: log_write_def)
  next
    case denied
    then show ?thesis
      using failed_write_changes_nothing [OF r f denied(3), of ua ubuf]
      by (auto simp: agree_Inr log_write_def)
  next
    case served
    let ?bs = "take ?n ubuf"
    have bs: "length ?bs = ?n" "?bs \<noteq> []" "of_nat (length ?bs) = count" using served by auto
    have w: "aesd_write s filp ua ubuf count = aesd_write s filp ua ?bs count"
      by (rule aesd_write_take [OF served(3,4)])
    have u: "direct_ok ua" "access_ok ua" "copy_ok ua" using served(2) by (simp_all add: user_ok_def)
    show ?thesis
    proof (cases "KMALLOC_MAX_SIZE < length (pending l) + ?n")
      case True
      then show ?thesis
        using aesd_write_overlong [OF r f served(2) bs(2)] bs served u w
        by (simp add: log_write_def)
    next
      case False
      then have "fits l ?bs" using bs lines_bounded [OF r] small by (simp add: fits_def)
      then show ?thesis
        using aesd_write_appends [OF r f served(2), of ?bs] bs served u w False
        by (auto simp: agree_Inr log_write_def)
    qed
  qed
qed

lemma ioctl_agrees:
  assumes r: "drv_repr s l" and f: "opened filp"
  shows "aesd_unlocked_ioctl s filp cmd arg = log_ioctl l filp cmd arg"
proof (cases "cmd = AESDCHAR_IOCSEEKTO")
  case False
  then show ?thesis
    using ioctl_rejects_other_commands [OF r f False, of arg] seekto_number
    by (auto simp: log_ioctl_def not_less split: option.split)
next
  case True
  have cmd: "IOC_TYPE AESDCHAR_IOCSEEKTO = 0x16" "IOC_NR AESDCHAR_IOCSEEKTO = 1"
    by (simp_all add: IOC_TYPE_def IOC_NR_def AESDCHAR_IOCSEEKTO_def IOWR_def)
  show ?thesis
  proof (cases arg)
    case None
    with True show ?thesis
      using f drv_repr_buffer [OF r] cmd by (simp add: aesd_unlocked_ioctl_def log_ioctl_def opened_def)
  next
    case (Some sk)
    with True show ?thesis
      using ioctl_seekto [OF r f, of sk] cmd by (auto simp: log_ioctl_def seekto_number)
  qed
qed

lemma llseek_agrees:
  assumes "drv_repr s l" and "opened filp" and "end_pos (lines l) < 4294967296"
  shows "aesd_llseek s filp off whence = Inr (log_llseek l filp off whence)"
  using llseek_at [OF assms] by (simp add: log_llseek_def)

text \<open>The address space is smaller than \<open>2^64\<close> bytes: the only bound on a user's buffer.\<close>

fun call_ok :: "file_call \<Rightarrow> bool" where
  "call_ok (Call_write ua ubuf count) = (length ubuf < 18446744073709551615)"
| "call_ok _ = True"

text \<open>The bytes the log holds or ever held, and what a call can add to them.\<close>

definition bytes_ever :: "line_log \<Rightarrow> nat" where
  "bytes_ever l = end_pos (lines l) + length (pending l)"

fun bytes_of :: "file_call \<Rightarrow> nat" where
  "bytes_of (Call_write ua ubuf count) = unat count"
| "bytes_of _ = 0"

lemma bytes_ever_log_add: "bytes_ever (log_add l bs) = bytes_ever l + length bs"
  using arg_cong [OF log_add_bytes [of l bs], of length]
  by (simp add: bytes_ever_def end_pos_def length_concat)

lemma aesd_fops_agrees:
  assumes r: "drv_repr s l" and ok: "call_ok c" and small: "bytes_ever l + bytes_of c < 2147483648"
  shows "agree drv_repr (aesd_fops keep s f c) (log_call keep l f c)"
proof (cases "opened f")
  case False
  then have "private_data f = DEV_NULL" by (cases "private_data f") (simp_all add: opened_def)
  with r False show ?thesis
    by (cases c) (simp_all add: aesd_open_def aesd_release_def aesd_read_def aesd_write_def
        aesd_llseek_def aesd_unlocked_ioctl_def)
next
  case f: True
  have e: "end_pos (lines l) < 2147483648" "end_pos (lines l) < 4294967296"
    using small by (simp_all add: bytes_ever_def)
  show ?thesis
  proof (cases c)
    case (Call_read ua count)
    have "agree drv_repr (bnd (aesd_read s f ua count (f_pos f)) g)
        (bnd (bnd (log_read l ua (unat count) (f_pos f)) (\<lambda>v. Inr (l, v))) h)"
      if "\<And>s l v. drv_repr s l \<Longrightarrow> agree drv_repr (g (s, v)) (h (l, v))" for g h
      using aesd_read_agrees [OF r f e(1)] that by (rule agree_bnd)
    from this [of "\<lambda>(s, pos, ret, bs). Inr (s, f\<lparr>f_pos := keep ret (f_pos f) pos\<rparr>, ret, bs)"
        "\<lambda>(l, pos, ret, bs). Inr (l, f\<lparr>f_pos := keep ret (f_pos f) pos\<rparr>, ret, bs)"]
    show ?thesis using f Call_read by (simp add: bnd_assoc case_prod_unfold)
  next
    case (Call_write ua ubuf count)
    have "agree drv_repr (aesd_write s f ua ubuf count) (log_write l ua ubuf (unat count))"
      by (rule aesd_write_agrees [OF r f e(1)]) (use ok Call_write in simp)
    then show ?thesis
      unfolding Call_write using f by (simp, intro agree_bnd) auto
  next
    case (Call_ioctl cmd arg)
    with r f show ?thesis
      by (cases "log_ioctl l f cmd arg") (auto simp: ioctl_agrees [OF r f])
  qed (use r f e in \<open>auto simp: aesd_open_def aesd_release_def llseek_agrees [OF r f e(2)]
      split: prod.split\<close>)
qed

lemma log_call_bytes:
  assumes "log_call keep l f c = Inr (l', v)" shows "bytes_ever l' \<le> bytes_ever l + bytes_of c"
  using assms
  by (cases c) (auto simp: bnd_iffs log_write_def bytes_ever_log_add split: if_splits prod.splits)

interpretation fops: file_refinement drv_repr "aesd_fops keep" "log_call keep" bytes_ever bytes_of call_ok 2147483648
  for keep
  by unfold_locales (erule (2) aesd_fops_agrees, erule log_call_bytes)

section \<open>The properties\<close>

text \<open>
  C2: every file operation refines its specification on the log, for every argument and every file,
  opened or not. The call ends in the fault that the specification names, or it replies what the
  specification says, moves the position as it says, and leaves a module that represents the log it
  says; what the kernel's file layer makes of the returned position is arbitrary.
\<close>

theorem file_call_refines_log:
  assumes "drv_repr s l" and "call_ok c" and "bytes_ever l + bytes_of c < 2147483648"
  shows "case log_call keep l f c of
      Inl e \<Rightarrow> aesd_fops keep s f c = Inl e
    | Inr (l', f', r) \<Rightarrow> \<exists>s'. aesd_fops keep s f c = Inr (s', f', r) \<and> drv_repr s' l'"
  using fops.one [OF assms, of keep f]
  by (cases "log_call keep l f c") (auto simp: agree_Inl agree_Inr)

text \<open>
  C1: the module is a log, for all its users together. On a freshly loaded module, any number of
  files and any sequence of opens, reads, writes, seeks, \<^verbatim>\<open>ioctl\<close>s and releases through them, with
  whatever arguments, gives exactly the replies, positions and faults of the specification, which
  has no heap; and the live kernel blocks are those the log accounts for.
\<close>

theorem any_calls_refine_log:
  assumes "\<forall>(i, c) \<in> set cs. call_ok c" and "sum_list (map (bytes_of \<circ> snd) cs) < 2147483648"
  shows "\<exists>s. aesd_init_module (module_boot (empty_heap junk)) 0 dev 0 = Inr (s, 0) \<and>
    (case run_calls (log_call keep) empty_log fs cs of
       Inl e \<Rightarrow> run_calls (aesd_fops keep) s fs cs = Inl e
     | Inr (l, fs', rs) \<Rightarrow>
         \<exists>s'. run_calls (aesd_fops keep) s fs cs = Inr (s', fs', rs) \<and> drv_repr s' l \<and>
              nlive (heap s') = 1 + min (length (lines l)) 10 + (if pending l = [] then 0 else 1) + leaked l)"
proof -
  obtain s where s: "aesd_init_module (module_boot (empty_heap junk)) 0 dev 0 = Inr (s, 0)"
    "drv_repr s empty_log"
    using aesd_init_module_ok [OF empty_heap_is, of 0] by auto
  have "bytes_ever empty_log = 0" by (simp add: bytes_ever_def end_pos_def empty_log_def)
  then have "agree drv_repr (run_calls (aesd_fops keep) s fs cs) (run_calls (log_call keep) empty_log fs cs)"
    using assms by (intro fops.all [OF s(2)]) simp_all
  with s(1) show ?thesis
    by (cases "run_calls (log_call keep) empty_log fs cs")
      (auto simp: agree_Inl agree_Inr census_def drv_repr_nlive)
qed

text \<open>
  Two files: the first writes a line in two pieces, the second reads it, seeks back by two bytes
  and reads again; then a file that nobody opened is read.
\<close>

definition example_calls :: "(nat \<times> file_call) list" where
  "example_calls =
     [(1, Call_open), (1, Call_write user_fine ''ab'' 2), (1, Call_write user_fine (''c'' @ [newline, CHR ''x'']) 2),
      (2, Call_open), (2, Call_read user_fine 9), (2, Call_llseek (- 2) 1), (2, Call_read user_fine 9),
      (1, Call_release)]"

definition closed_file :: kfile where
  "closed_file = \<lparr>f_pos = 0, private_data = DEV_NULL\<rparr>"

text \<open>The outcome of a run without the positions of the files.\<close>

definition seen :: "fault + ('l \<times> (nat \<Rightarrow> kfile) \<times> 'r list) \<Rightarrow> fault + ('l \<times> 'r list)" where
  "seen x = bnd x (\<lambda>(l, _, rs). Inr (l, rs))"

lemma example_calls_log:
  "seen (run_calls (log_call vfs_keep) empty_log (\<lambda>_. closed_file) example_calls) =
     Inr (\<lparr>lines = [''abc'' @ [newline]], pending = [], leaked = 1\<rparr>,
       [(0, []), (2, []), (2, []), (0, []), (4, ''abc'' @ [newline]), (2, []), (2, ''c'' @ [newline]), (0, [])])"
  "seen (run_calls (log_call vfs_keep) empty_log (\<lambda>_. closed_file) (example_calls @ [(3, Call_read user_fine 1)])) =
     Inl NullDeref"
proof -
  let ?ls = "[[CHR ''a'', CHR ''b'', CHR ''c'', newline]]"
  have "first_pos ?ls = 0" "end_pos ?ls = 4" "contents ?ls = ''abc'' @ [newline]"
    "served ?ls 0 = Some (''abc'' @ [newline])" "served ?ls 2 = Some (''c'' @ [newline])"
    by code_simp+
  note eval = this log_write_def log_read_def log_llseek_def log_add_def empty_log_def opened_def closed_file_def
    user_fine_def vfs_keep_def KMALLOC_MAX_SIZE_def Let_def seen_def
  show "seen (run_calls (log_call vfs_keep) empty_log (\<lambda>_. closed_file) example_calls) =
     Inr (\<lparr>lines = [''abc'' @ [newline]], pending = [], leaked = 1\<rparr>,
       [(0, []), (2, []), (2, []), (0, []), (4, ''abc'' @ [newline]), (2, []), (2, ''c'' @ [newline]), (0, [])])"
    "seen (run_calls (log_call vfs_keep) empty_log (\<lambda>_. closed_file) (example_calls @ [(3, Call_read user_fine 1)])) =
     Inl NullDeref"
    by (simp_all add: example_calls_def eval)
qed

lemma seen_iffs:
  "seen x = Inr (l, rs) \<longleftrightarrow> (\<exists>fs. x = Inr (l, fs, rs))" "seen x = Inl e \<longleftrightarrow> x = Inl e"
  by (auto simp: seen_def bnd_iffs)

lemma file_call_refines_log_witness:
  "\<exists>s s'. load_and_write (empty_heap (\<lambda>_ _. nul)) 0 two_lines = Inr s \<and>
     aesd_fops vfs_keep s fresh_file (Call_write user_fine ''x'' 1) = Inr (s', fresh_file, 1, []) \<and>
     drv_repr s' \<lparr>lines = two_lines, pending = ''x'', leaked = 0\<rparr>"
proof -
  obtain s where s: "load_and_write (empty_heap (\<lambda>_ _. nul)) 0 two_lines = Inr s"
    "drv_repr s (log_of two_lines)"
    using two_lines_loaded by blast
  have "log_call vfs_keep (log_of two_lines) fresh_file (Call_write user_fine ''x'' 1) =
      Inr (\<lparr>lines = two_lines, pending = ''x'', leaked = 0\<rparr>, fresh_file, 1, [])"
    by (simp add: log_write_def log_add_def vfs_keep_def KMALLOC_MAX_SIZE_def user_fine_def fresh_file_def
        aesd_open_def opened_def)
  moreover have "call_ok (Call_write user_fine ''x'' 1)"
    "bytes_ever (log_of two_lines) + bytes_of (Call_write user_fine ''x'' 1) < 2147483648"
    by (simp_all add: bytes_ever_def two_lines_numbers)
  ultimately show ?thesis
    using file_call_refines_log [OF s(2), of "Call_write user_fine ''x'' 1" vfs_keep fresh_file] s(1)
    by auto
qed

lemma any_calls_refine_log_witness:
  "\<exists>s. aesd_init_module (module_boot (empty_heap (\<lambda>_ _. nul))) 0 0x0FC00000 0 = Inr (s, 0) \<and>
     (\<exists>s' fs'. run_calls (aesd_fops vfs_keep) s (\<lambda>_. closed_file) example_calls = Inr (s', fs',
         [(0, []), (2, []), (2, []), (0, []), (4, ''abc'' @ [newline]), (2, []), (2, ''c'' @ [newline]), (0, [])]) \<and>
       nlive (heap s') = 3)"
proof -
  obtain fs' where run: "run_calls (log_call vfs_keep) empty_log (\<lambda>_. closed_file) example_calls =
     Inr (\<lparr>lines = [''abc'' @ [newline]], pending = [], leaked = 1\<rparr>, fs',
       [(0, []), (2, []), (2, []), (0, []), (4, ''abc'' @ [newline]), (2, []), (2, ''c'' @ [newline]), (0, [])])"
    using example_calls_log(1) unfolding seen_iffs by blast
  have "\<forall>(i, c) \<in> set example_calls. call_ok c" "sum_list (map (bytes_of \<circ> snd) example_calls) < 2147483648"
    by (simp_all add: example_calls_def)
  from any_calls_refine_log [OF this, of "\<lambda>_ _. nul" "0x0FC00000" vfs_keep "\<lambda>_. closed_file"] run
  show ?thesis by auto
qed

end
