(* ===== verification/Ring_Types.thy ===== *)
theory Ring_Types
  imports File_Operations
begin

text \<open>
  What the types of the ring's fields promise and C does not check: the array keeps its ten slots,
  the write index points into it, at most ten entries lie between the two absolute indices, and no
  entry is larger than the allocator's largest block. Unlike the refinement of the log this needs
  nothing of the heap, of the user or of the number of lines: it survives failed allocations and
  the wrap-around of the 32-bit counters.
\<close>

definition ring_typed :: "aesd_circular_buffer \<Rightarrow> bool" where
  "ring_typed buf \<longleftrightarrow> length (entry buf) = 10 \<and> in_offs buf < 10 \<and> w_abs buf - start_abs buf \<le> 10 \<and>
     (\<forall>e \<in> set (entry buf). unat (bsize e) \<le> KMALLOC_MAX_SIZE)"

lemma ring_typed_zero: "ring_typed zero_buffer"
  by (simp add: ring_typed_def zero_buffer_def zero_entry_def)

text \<open>The fields that the invariant is about.\<close>

definition same_fields :: "aesd_circular_buffer \<Rightarrow> aesd_circular_buffer \<Rightarrow> bool" where
  "same_fields a b \<longleftrightarrow> entry a = entry b \<and> in_offs a = in_offs b \<and> w_abs a = w_abs b \<and> start_abs a = start_abs b"

lemma same_fields_typed: "same_fields a b \<Longrightarrow> ring_typed a = ring_typed b"
  by (simp add: same_fields_def ring_typed_def)

lemma same_fields_simps [simp]:
  "same_fields a a"
  "same_fields (a\<lparr>out_offs := i\<rparr>) b = same_fields a b"
  "same_fields (a\<lparr>full := c\<rparr>) b = same_fields a b"
  "same_fields (if d then a else a') b = (if d then same_fields a b else same_fields a' b)"
  by (simp_all add: same_fields_def)

section \<open>Adding\<close>

lemma u8_wrap: "(i :: u8) < 10 \<Longrightarrow> (if 10 \<le> i + 1 then 0 else i + 1) < 10"
  by (simp add: word_less_nat_alt word_le_nat_alt unat_word_ariths split: if_splits)

lemma u32_window: "(d :: u32) \<le> 10 \<Longrightarrow> \<not> 10 \<le> d \<Longrightarrow> d + 1 \<le> 10"
  by (simp add: word_le_nat_alt unat_word_ariths)

lemma advance_offsets_words:
  "entry (advance_offsets buf n) = entry buf"
  "in_offs (advance_offsets buf n) = (if 10 \<le> in_offs buf + 1 then 0 else in_offs buf + 1)"
  "w_abs (advance_offsets buf n) = w_abs buf + 1"
  "start_abs (advance_offsets buf n) = (if 10 \<le> w_abs buf - start_abs buf then start_abs buf + 1 else start_abs buf)"
  by (auto simp: advance_offsets_def Let_def)

lemma advance_offsets_typed:
  assumes "ring_typed buf" shows "ring_typed (advance_offsets buf n)"
proof -
  have w: "w_abs buf + 1 - start_abs buf = w_abs buf - start_abs buf + 1" by simp
  show ?thesis
    using assms u8_wrap [of "in_offs buf"] u32_window [of "w_abs buf - start_abs buf"]
    by (auto simp: ring_typed_def advance_offsets_words w)
qed

text \<open>A copy into a new block tells that the block was allocated, and so its size.\<close>

lemma load_length: "load h p off n = Inr bs \<Longrightarrow> length bs = n"
  by (auto simp: load_def split: if_splits kptr.splits block.splits)

lemma memcpy_new_block:
  assumes "kmalloc h n = (p, h')" and "memcpy h' p off q soff (unat n) = Inr h''"
  shows "unat n \<le> KMALLOC_MAX_SIZE"
proof (rule ccontr)
  assume big: "\<not> unat n \<le> KMALLOC_MAX_SIZE"
  then have "p = NULL" using assms(1) kmalloc_too_big [of n h] by simp
  moreover obtain bs where "load h' q soff (unat n) = Inr bs" "store h' p off bs = Inr h''"
    using assms(2) by (auto simp: memcpy_def bnd_iffs)
  moreover from this(1) big have "bs \<noteq> []" using load_length by fastforce
  ultimately show False by (simp add: store_NULL)
qed

lemma ring_typed_entry:
  assumes "ring_typed buf" and "unat n \<le> KMALLOC_MAX_SIZE"
  shows "ring_typed (buf\<lparr>entry := (entry buf)[i := \<lparr>buffptr = p, bsize = n\<rparr>]\<rparr>)"
  using assms set_update_subset_insert [of "entry buf" i] by (fastforce simp: ring_typed_def)

lemma commit_line_typed:
  assumes "commit_line h tmp buf = Inr (h', tmp', buf')" and "ring_typed buf"
  shows "ring_typed buf'"
proof -
  let ?i = "unat (ucast (w_abs buf mod 10) :: u8)"
  let ?k = "\<lambda>h. kmalloc h (bsize tmp)"
  obtain h1 h2 where k: "memcpy (snd (?k h1)) (fst (?k h1)) 0 (buffptr tmp) 0 (unat (bsize tmp)) = Inr h2"
    and buf': "buf' = advance_offsets (buf\<lparr>entry := (entry buf)[?i := \<lparr>buffptr = fst (?k h1), bsize = bsize tmp\<rparr>]\<rparr>)
      (bsize tmp)"
    using assms(1) by (auto simp: commit_line_def Let_def bnd_eq_Inr_iff case_prod_unfold)
  have "unat (bsize tmp) \<le> KMALLOC_MAX_SIZE"
    by (rule memcpy_new_block [OF prod.collapse [symmetric] k])
  then show ?thesis
    unfolding buf' by (intro advance_offsets_typed ring_typed_entry assms(2))
qed

lemma add_entry_typed:
  assumes "aesd_circular_buffer_add_entry h tmp buf e = Inr (h', tmp', buf')" and "ring_typed buf"
  shows "ring_typed buf'"
proof -
  obtain h1 tmp1 where "commit_line h1 tmp1 buf = Inr (h', tmp', buf') \<or> buf' = buf"
    using assms(1) unfolding aesd_circular_buffer_add_entry_def Let_def case_prod_unfold bnd_eq_Inr_iff
    by (auto simp only: split: if_splits)
  then show ?thesis using commit_line_typed assms(2) by blast
qed

section \<open>Reading\<close>

lemma raed_body_fields:
  assumes "raed_body q cs ofs len st = Inr (leave, st')" shows "same_fields (rl_buf st') (rl_buf st)"
  using assms unfolding raed_body_def Let_def bnd_eq_Inr_iff
  by (elim exE conjE) (auto simp only: bnd_eq_Inr_iff sum.inject prod.inject split: if_split_asm;
      simp (no_asm))

lemma raed_loop_fields:
  "raed_loop q cs ofs len st = Inr st' \<Longrightarrow> same_fields (rl_buf st') (rl_buf st)"
proof (induction q cs ofs len st rule: raed_loop.induct)
  case (1 q cs ofs len st)
  then obtain leave st1 where st1: "raed_body q cs ofs len st = Inr (leave, st1)"
    "if leave then st' = st1 else raed_loop q cs ofs len st1 = Inr st'"
    by (subst (asm) (2) raed_loop.simps) (auto simp: bnd_eq_Inr_iff split: if_splits)
  then have "same_fields (rl_buf st') (rl_buf st1)"
    using "1.IH" [OF st1(1) refl] by (cases leave) (auto simp: same_fields_def)
  with raed_body_fields [OF st1(1)] show ?case by (simp add: same_fields_def)
qed

lemma raed_fields:
  assumes "aesd_circular_buffer_raed h buf q len pos = Inr (h', buf', pos', r)"
  shows "same_fields buf' buf"
  using assms
  by (auto simp: aesd_circular_buffer_raed_def Let_def bnd_eq_Inr_iff same_fields_def
      dest!: raed_loop_fields split: if_splits)

section \<open>The module\<close>

lemma fops_typed:
  assumes "aesd_fops keep s f c = Inr (s', f', r)" and "ring_typed (ring s)"
  shows "ring_typed (ring s')"
proof (cases c)
  case (Call_read ua count)
  with assms(1) have "same_fields (ring s') (ring s)"
    by (auto simp: aesd_read_def deref_buffer_def put_buffer_def Let_def bnd_eq_Inr_iff same_fields_def
        dest!: raed_fields split: prod.splits if_splits)
  with assms(2) show ?thesis by (simp add: same_fields_typed)
next
  case (Call_write ua ubuf count)
  with assms show ?thesis
    by (auto simp: aesd_write_def deref_buffer_def put_buffer_def Let_def bnd_eq_Inr_iff
        dest!: add_entry_typed split: prod.splits if_splits)
qed (use assms in \<open>auto simp: aesd_open_def aesd_release_def bnd_eq_Inr_iff\<close>)

lemma run_calls_keeps:
  assumes "\<And>s f c s' f' r. step s f c = Inr (s', f', r) \<Longrightarrow> P s \<Longrightarrow> P s'"
  shows "run_calls step s fs cs = Inr (s', fs', rs) \<Longrightarrow> P s \<Longrightarrow> P s'"
proof (induction cs arbitrary: s fs rs)
  case Nil
  then show ?case by simp
next
  case (Cons ic cs)
  obtain i c where ic: "ic = (i, c)" by (cases ic)
  then obtain s1 f r1 rs1 where "step s (fs i) c = Inr (s1, f, r1)"
    "run_calls step s1 (fs(i := f)) cs = Inr (s', fs', rs1)"
    using Cons.prems(1) by (auto simp: bnd_eq_Inr_iff)
  then show ?case using Cons.IH Cons.prems(2) assms by blast
qed

lemma init_typed: "aesd_init_module (module_boot h) result dev err = Inr (s, 0) \<Longrightarrow> ring_typed (ring s)"
  using ring_typed_zero
  by (auto simp: aesd_init_module_def aesd_circular_buffer_init_def aesd_setup_cdev_def put_buffer_def
      module_boot_def Let_def bnd_eq_Inr_iff split: prod.splits if_splits)

text \<open>
  C5: the type of the ring. From loading on, whatever allocations fail, whatever the users' calls
  and their pointers are, and even after the counters have wrapped around, the array has its ten
  slots, \<^verbatim>\<open>in_offs\<close> is an index of it, \<^verbatim>\<open>w_abs\<close> is at most ten ahead of \<^verbatim>\<open>start_abs\<close>, and no entry
  exceeds 4 MiB, so the \<^verbatim>\<open>int\<close> in which the lookups add the sizes cannot overflow.
\<close>

theorem ring_type_preserved:
  assumes "aesd_init_module (module_boot h) result dev err = Inr (s, 0)"
    and "run_calls (aesd_fops keep) s fs cs = Inr (s', fs', rs)"
  shows "ring_typed (buffer_mem (aesd_device s')) \<and>
    sum_list (map (unat \<circ> bsize) (entry (buffer_mem (aesd_device s')))) < 2147483648"
proof -
  have t: "ring_typed (ring s')"
    by (rule run_calls_keeps [where P = "\<lambda>s. ring_typed (ring s)", OF _ assms(2) init_typed [OF assms(1)]]) (rule fops_typed)
  have "sum_list (map (unat \<circ> bsize) es) \<le> length es * KMALLOC_MAX_SIZE"
    if "\<forall>e \<in> set es. unat (bsize e) \<le> KMALLOC_MAX_SIZE" for es
    using that by (induction es) auto
  from this [of "entry (ring s')"] t show ?thesis
    by (simp add: ring_typed_def KMALLOC_MAX_SIZE_def)
qed

lemma ring_type_preserved_witness:
  "\<exists>s s' fs' rs. aesd_init_module (module_boot (empty_heap (\<lambda>_ _. nul))) 0 0x0FC00000 0 = Inr (s, 0) \<and>
     run_calls (aesd_fops vfs_keep) s (\<lambda>_. closed_file) example_calls = Inr (s', fs', rs) \<and>
     ring_typed (buffer_mem (aesd_device s'))"
proof -
  obtain fs' rs l where run: "run_calls (log_call vfs_keep) empty_log (\<lambda>_. closed_file) example_calls = Inr (l, fs', rs)"
    using example_calls_log(1) unfolding seen_iffs by blast
  obtain s where s: "aesd_init_module (module_boot (empty_heap (\<lambda>_ _. nul))) 0 0x0FC00000 0 = Inr (s, 0)"
    "drv_repr s empty_log"
    using aesd_init_module_ok [OF empty_heap_is, of 0] by auto
  have "agree drv_repr (run_calls (aesd_fops vfs_keep) s (\<lambda>_. closed_file) example_calls)
      (run_calls (log_call vfs_keep) empty_log (\<lambda>_. closed_file) example_calls)"
    by (rule fops.all [OF s(2)])
      (simp_all add: example_calls_def bytes_ever_def end_pos_def empty_log_def)
  then obtain s' where "run_calls (aesd_fops vfs_keep) s (\<lambda>_. closed_file) example_calls = Inr (s', fs', rs)"
    using run by (auto simp: agree_Inr)
  with s(1) ring_type_preserved [OF s(1) this] show ?thesis by blast
qed

section \<open>Iterating\<close>

lemma foreach_loop_entries:
  assumes "length (entry buf) = 10" and "unat index \<le> 10"
  shows "foreach_loop (\<lambda>e h. kfree h (buffptr e)) buf index h = free_entries h (drop (unat index) (entry buf))"
  using assms(2)
proof (induction "10 - unat index" arbitrary: index h)
  case 0
  then have "\<not> index < 10" by (simp add: word_less_nat_alt)
  with 0 assms(1) show ?case by (subst foreach_loop.simps) simp
next
  case (Suc n)
  then have i: "unat index < 10" by simp
  then have next_index: "unat (index + 1) = Suc (unat index)" by (simp add: unat_word_ariths)
  have d: "drop (unat index) (entry buf) = entry buf ! unat index # drop (Suc (unat index)) (entry buf)"
    using i assms(1) by (simp add: Cons_nth_drop_Suc)
  have "(if p \<noteq> NULL then kfree h p else Inr h) = kfree h p" for p by simp
  moreover have "foreach_loop (\<lambda>e h. kfree h (buffptr e)) buf (index + 1) =
      (\<lambda>h'. free_entries h' (drop (Suc (unat index)) (entry buf)))"
    using Suc.hyps(1) [of "index + 1"] Suc.hyps(2) next_index i by (simp add: fun_eq_iff)
  ultimately show ?case
    using i by (subst foreach_loop.simps) (simp add: d word_less_nat_alt)
qed

text \<open>
  The loop of the header visits every entry once, in the order of the array: with the body that
  its comment shows, it releases exactly what \<^verbatim>\<open>aesd_circular_buffer_free\<close> releases, with the same
  result or the same fault.
\<close>

theorem foreach_frees_entries:
  assumes "length (entry buf) = 10"
  shows "AESD_CIRCULAR_BUFFER_FOREACH (\<lambda>e h. kfree h (buffptr e)) buf h =
    bnd (aesd_circular_buffer_free h buf) (\<lambda>(h, _). Inr h)"
  using foreach_loop_entries [OF assms, of 0 h] assms
  by (simp add: AESD_CIRCULAR_BUFFER_FOREACH_def aesd_circular_buffer_free_def bnd_assoc)

lemma foreach_frees_entries_witness:
  "\<exists>s h' buf'. load_and_write (empty_heap (\<lambda>_ _. nul)) 0 two_lines = Inr s \<and>
     AESD_CIRCULAR_BUFFER_FOREACH (\<lambda>e h. kfree h (buffptr e)) (ring s) (heap s) = Inr h' \<and>
     aesd_circular_buffer_free (heap s) (ring s) = Inr (h', buf') \<and> nlive h' = 1"
proof -
  obtain s where s: "load_and_write (empty_heap (\<lambda>_ _. nul)) 0 two_lines = Inr s"
    "drv_repr s (log_of two_lines)"
    using two_lines_loaded by blast
  obtain m where m: "heap_is (heap s) m (census 1 (log_of two_lines))" "ring_repr m (ring s) two_lines"
    using s(2) by (auto simp: drv_repr_def cb_repr_def)
  have len: "length (entry (ring s)) = 10" using m(2) by (simp add: ring_repr_def slots_repr_def)
  obtain h' where "free_entries (heap s) (entry (ring s)) = Inr h'" "nlive h' = 1"
    using free_entries_live [OF m(1) ring_block_ptrs(1,2) [OF m(2)]] ring_block_ptrs(3) [OF m(2)]
    by (auto simp: heap_is_def census_def two_lines_numbers)
  then show ?thesis
    using s(1) len foreach_frees_entries [OF len, of "heap s"]
    by (auto simp: aesd_circular_buffer_free_def)
qed

end
