(* ===== verification/Racing_Writers.thy ===== *)
theory Racing_Writers
  imports Ring_Types
begin

text \<open>
  Two writers at the same time. \<^verbatim>\<open>aesd_circular_buffer_add_entry\<close> leaves the locking to its caller,
  and its caller has commented out \<^verbatim>\<open>mutex_lock\<close>; so the statements of two calls can interleave on
  the static \<^verbatim>\<open>tmp_entry\<close> and on the ring. Here the function is a machine that executes one
  statement at a time. Run alone it is the function of \<^verbatim>\<open>Circular_Buffer\<close>; under a schedule of
  several writers it need not be.
\<close>

section \<open>One statement at a time\<close>

text \<open>
  The statement that a writer executes next. The condition of an \<^verbatim>\<open>if\<close> that reads what others write is
  a statement of its own, and so is each statement in its body; a writer whose condition was false passes
  the body without doing anything.
\<close>

datatype add_pc =
  ReadOld | ReadSize | AllocNew | ClearNew | CopyOld | CopyNew | SetSize | TestLast | PickSlot
  | TestOld | FreeOld | AllocLine | CopyLine | SetLine | IncIn | TestFull | IncStart | AddStart
  | IncW | AddW | TestWrap | ResetIn | TestEqual | SetFull | TestTmp | FreeTmp | ResetTmp
  | Done

text \<open>The order in which the statements stand.\<close>

fun pc_rank :: "add_pc \<Rightarrow> nat" where
  "pc_rank ReadOld = 0" | "pc_rank ReadSize = 1" | "pc_rank AllocNew = 2" | "pc_rank ClearNew = 3"
| "pc_rank CopyOld = 4" | "pc_rank CopyNew = 5" | "pc_rank SetSize = 6" | "pc_rank TestLast = 7"
| "pc_rank PickSlot = 8" | "pc_rank TestOld = 9" | "pc_rank FreeOld = 10" | "pc_rank AllocLine = 11"
| "pc_rank CopyLine = 12" | "pc_rank SetLine = 13" | "pc_rank IncIn = 14" | "pc_rank TestFull = 15"
| "pc_rank IncStart = 16" | "pc_rank AddStart = 17" | "pc_rank IncW = 18" | "pc_rank AddW = 19"
| "pc_rank TestWrap = 20" | "pc_rank ResetIn = 21" | "pc_rank TestEqual = 22" | "pc_rank SetFull = 23"
| "pc_rank TestTmp = 24" | "pc_rank FreeTmp = 25" | "pc_rank ResetTmp = 26" | "pc_rank Done = 27"

lemma pc_rank_inject: "pc_rank a = pc_rank b \<Longrightarrow> a = b"
  by (cases a; cases b) simp_all

instantiation add_pc :: linorder
begin

definition less_eq_add_pc :: "add_pc \<Rightarrow> add_pc \<Rightarrow> bool" where
  "less_eq_add_pc a b \<longleftrightarrow> pc_rank a \<le> pc_rank b"

definition less_add_pc :: "add_pc \<Rightarrow> add_pc \<Rightarrow> bool" where
  "less_add_pc a b \<longleftrightarrow> pc_rank a < pc_rank b"

instance
  by standard (auto simp: less_eq_add_pc_def less_add_pc_def intro: pc_rank_inject)

end

lemma add_pc_le_Done: "pc \<le> Done" for pc :: add_pc
  by (cases pc) (simp_all add: less_eq_add_pc_def)

text \<open>The locals of a call, with its argument, and what the calls share.\<close>

record writer =
  w_pc :: add_pc
  w_arg :: aesd_buffer_entry
  current_str :: kptr
  new_size :: u64
  wi :: nat
  taken :: bool

record shared =
  sh_heap :: kheap
  sh_tmp :: aesd_buffer_entry
  sh_buf :: aesd_circular_buffer

definition with_heap :: "(fault + kheap) \<Rightarrow> add_pc \<Rightarrow> writer \<Rightarrow> shared \<Rightarrow> fault + (writer \<times> shared)" where
  "with_heap r next_pc w sh = bnd r (\<lambda>h. Inr (w\<lparr>w_pc := next_pc\<rparr>, sh\<lparr>sh_heap := h\<rparr>))"

definition add_step :: "writer \<Rightarrow> shared \<Rightarrow> fault + (writer \<times> shared)" where
  "add_step w sh =
     (let h = sh_heap sh; tmp = sh_tmp sh; buf = sh_buf sh; add_entry = w_arg w in
      case w_pc w of
        ReadOld \<Rightarrow> Inr (w\<lparr>w_pc := ReadSize, current_str := buffptr tmp\<rparr>, sh)
      | ReadSize \<Rightarrow> Inr (w\<lparr>w_pc := AllocNew, new_size := bsize tmp + bsize add_entry\<rparr>, sh)
      | AllocNew \<Rightarrow>
          (let (p, h) = kmalloc h (new_size w) in
           Inr (w\<lparr>w_pc := ClearNew\<rparr>, sh\<lparr>sh_heap := h, sh_tmp := tmp\<lparr>buffptr := p\<rparr>\<rparr>))
      | ClearNew \<Rightarrow> with_heap (memset h (buffptr tmp) nul (unat (new_size w))) CopyOld w sh
      | CopyOld \<Rightarrow>
          with_heap (if current_str w \<noteq> NULL then memcpy h (buffptr tmp) 0 (current_str w) 0 (unat (bsize tmp)) else Inr h)
            CopyNew w sh
      | CopyNew \<Rightarrow>
          with_heap (memcpy h (buffptr tmp) (int (unat (bsize tmp))) (buffptr add_entry) 0 (unat (bsize add_entry)))
            SetSize w sh
      | SetSize \<Rightarrow> Inr (w\<lparr>w_pc := TestLast\<rparr>, sh\<lparr>sh_tmp := tmp\<lparr>bsize := new_size w\<rparr>\<rparr>)
      | TestLast \<Rightarrow>
          bnd (load h (buffptr add_entry) (int (unat (bsize add_entry - 1))) 1) (\<lambda>last_char.
            Inr (w\<lparr>w_pc := (if last_char = [newline] then PickSlot else Done)\<rparr>, sh))
      | PickSlot \<Rightarrow> Inr (w\<lparr>w_pc := TestOld, wi := unat (ucast (w_abs buf mod 10) :: u8)\<rparr>, sh)
      | TestOld \<Rightarrow> Inr (w\<lparr>w_pc := FreeOld, taken := buffptr (entry buf ! wi w) \<noteq> NULL\<rparr>, sh)
      | FreeOld \<Rightarrow>
          with_heap (if taken w then kfree h (buffptr (entry buf ! wi w)) else Inr h) AllocLine w sh
      | AllocLine \<Rightarrow>
          (let (p, h) = kmalloc h (bsize tmp); target = entry buf ! wi w in
           Inr (w\<lparr>w_pc := CopyLine\<rparr>,
                sh\<lparr>sh_heap := h, sh_buf := buf\<lparr>entry := (entry buf)[wi w := target\<lparr>buffptr := p\<rparr>]\<rparr>\<rparr>))
      | CopyLine \<Rightarrow>
          with_heap (memcpy h (buffptr (entry buf ! wi w)) 0 (buffptr tmp) 0 (unat (bsize tmp))) SetLine w sh
      | SetLine \<Rightarrow>
          (let target = entry buf ! wi w in
           Inr (w\<lparr>w_pc := IncIn\<rparr>,
                sh\<lparr>sh_buf := buf\<lparr>entry := (entry buf)[wi w := target\<lparr>bsize := bsize tmp\<rparr>]\<rparr>\<rparr>))
      | IncIn \<Rightarrow> Inr (w\<lparr>w_pc := TestFull\<rparr>, sh\<lparr>sh_buf := buf\<lparr>in_offs := in_offs buf + 1\<rparr>\<rparr>)
      | TestFull \<Rightarrow> Inr (w\<lparr>w_pc := IncStart, taken := 10 \<le> w_abs buf - start_abs buf\<rparr>, sh)
      | IncStart \<Rightarrow>
          Inr (w\<lparr>w_pc := AddStart\<rparr>,
               sh\<lparr>sh_buf := (if taken w then buf\<lparr>start_abs := start_abs buf + 1\<rparr> else buf)\<rparr>)
      | AddStart \<Rightarrow>
          Inr (w\<lparr>w_pc := IncW\<rparr>,
               sh\<lparr>sh_buf := (if taken w then buf\<lparr>start_char_abs := start_char_abs buf +
                     ucast (bsize (entry buf ! unat (start_abs buf mod 10)))\<rparr> else buf)\<rparr>)
      | IncW \<Rightarrow> Inr (w\<lparr>w_pc := AddW\<rparr>, sh\<lparr>sh_buf := buf\<lparr>w_abs := w_abs buf + 1\<rparr>\<rparr>)
      | AddW \<Rightarrow>
          Inr (w\<lparr>w_pc := TestWrap\<rparr>, sh\<lparr>sh_buf := buf\<lparr>w_char_abs := w_char_abs buf + ucast (bsize tmp)\<rparr>\<rparr>)
      | TestWrap \<Rightarrow> Inr (w\<lparr>w_pc := ResetIn, taken := 10 \<le> in_offs buf\<rparr>, sh)
      | ResetIn \<Rightarrow>
          Inr (w\<lparr>w_pc := TestEqual\<rparr>, sh\<lparr>sh_buf := (if taken w then buf\<lparr>in_offs := 0\<rparr> else buf)\<rparr>)
      | TestEqual \<Rightarrow> Inr (w\<lparr>w_pc := SetFull, taken := in_offs buf = out_offs buf\<rparr>, sh)
      | SetFull \<Rightarrow>
          Inr (w\<lparr>w_pc := TestTmp\<rparr>, sh\<lparr>sh_buf := (if taken w then buf\<lparr>full := True\<rparr> else buf)\<rparr>)
      | TestTmp \<Rightarrow> Inr (w\<lparr>w_pc := FreeTmp, taken := buffptr tmp \<noteq> NULL\<rparr>, sh)
      | FreeTmp \<Rightarrow> with_heap (if taken w then kfree h (buffptr tmp) else Inr h) ResetTmp w sh
      | ResetTmp \<Rightarrow> Inr (w\<lparr>w_pc := Done\<rparr>, sh\<lparr>sh_tmp := tmp\<lparr>bsize := 0\<rparr>\<rparr>)
      | Done \<Rightarrow> Inr (w, sh))"

text \<open>A schedule names the writer that moves next.\<close>

fun run_schedule :: "nat list \<Rightarrow> writer list \<Rightarrow> shared \<Rightarrow> fault + (writer list \<times> shared)" where
  "run_schedule [] ws sh = Inr (ws, sh)"
| "run_schedule (i # is) ws sh =
     bnd (add_step (ws ! i) sh) (\<lambda>(w, sh). run_schedule is (ws[i := w]) sh)"

lemma run_schedule_append:
  "run_schedule (is @ js) ws sh = bnd (run_schedule is ws sh) (\<lambda>(ws, sh). run_schedule js ws sh)"
  by (induction "is" arbitrary: ws sh) (simp_all add: bnd_assoc case_prod_unfold)

text \<open>Under every schedule a writer goes forward, statement by statement, until it is done.\<close>

lemma add_step_forward:
  assumes "add_step w sh = Inr (w', sh')" and "w_pc w \<noteq> Done" shows "w_pc w < w_pc w'"
  using assms
  by (cases "w_pc w") (auto simp: add_step_def with_heap_def less_add_pc_def Let_def bnd_eq_Inr_iff split: prod.splits)

lemma add_step_done: "add_step w sh = Inr (w', sh') \<Longrightarrow> w_pc w = Done \<Longrightarrow> w_pc w' = Done"
  by (simp add: add_step_def Let_def)

lemma add_step_rank:
  assumes "add_step w sh = Inr (w', sh')" shows "min 27 (Suc (pc_rank (w_pc w))) \<le> pc_rank (w_pc w')"
  using add_step_forward [OF assms] add_step_done [OF assms]
  by (cases "w_pc w = Done") (auto simp: less_add_pc_def)

lemma run_schedule_rank:
  assumes "run_schedule is ws sh = Inr (ws', sh')" and "\<forall>i \<in> set is. i < length ws" and "k < length ws"
  shows "length ws' = length ws \<and> min 27 (pc_rank (w_pc (ws ! k)) + count_list is k) \<le> pc_rank (w_pc (ws' ! k))"
  using assms
proof (induction "is" arbitrary: ws sh)
  case Nil
  then show ?case by simp
next
  case (Cons i "is")
  obtain w sh1 where w: "add_step (ws ! i) sh = Inr (w, sh1)" "run_schedule is (ws[i := w]) sh1 = Inr (ws', sh')"
    using Cons.prems(1) by (auto simp: bnd_eq_Inr_iff)
  have "length ws' = length ws \<and>
      min 27 (pc_rank (w_pc (ws[i := w] ! k)) + count_list is k) \<le> pc_rank (w_pc (ws' ! k))"
    using Cons.IH [OF w(2)] Cons.prems(2,3) by simp
  then show ?case
    using add_step_rank [OF w(1)] Cons.prems(2,3) by (cases "k = i") auto
qed

section \<open>Alone\<close>

primrec run_alone :: "nat \<Rightarrow> writer \<Rightarrow> shared \<Rightarrow> fault + (writer \<times> shared)" where
  "run_alone 0 w sh = Inr (w, sh)"
| "run_alone (Suc n) w sh = bnd (add_step w sh) (\<lambda>(w, sh). run_alone n w sh)"

lemma run_alone_add: "run_alone (m + n) w sh = bnd (run_alone m w sh) (\<lambda>(w, sh). run_alone n w sh)"
  by (induction m arbitrary: w sh) (simp_all add: bnd_assoc case_prod_unfold)

text \<open>The function in three parts: collecting the bytes, storing the line, clearing \<^verbatim>\<open>tmp_entry\<close>.\<close>

definition collect :: "kheap \<Rightarrow> aesd_buffer_entry \<Rightarrow> aesd_buffer_entry \<Rightarrow> fault + (kheap \<times> aesd_buffer_entry)" where
  "collect h tmp e =
     (let n = bsize tmp + bsize e; (p, h) = kmalloc h n in
      bnd (memset h p nul (unat n)) (\<lambda>h.
      bnd (if buffptr tmp \<noteq> NULL then memcpy h p 0 (buffptr tmp) 0 (unat (bsize tmp)) else Inr h) (\<lambda>h.
      bnd (memcpy h p (int (unat (bsize tmp))) (buffptr e) 0 (unat (bsize e))) (\<lambda>h.
      Inr (h, \<lparr>buffptr = p, bsize = n\<rparr>)))))"

definition store_line ::
  "kheap \<Rightarrow> aesd_buffer_entry \<Rightarrow> aesd_circular_buffer \<Rightarrow> fault + (kheap \<times> aesd_circular_buffer)" where
  "store_line h tmp buf =
     (let i = unat (ucast (w_abs buf mod 10) :: u8); target = entry buf ! i in
      bnd (if buffptr target \<noteq> NULL then kfree h (buffptr target) else Inr h) (\<lambda>h.
      let (p, h) = kmalloc h (bsize tmp) in
      bnd (memcpy h p 0 (buffptr tmp) 0 (unat (bsize tmp))) (\<lambda>h.
      Inr (h, advance_offsets (buf\<lparr>entry := (entry buf)[i := \<lparr>buffptr = p, bsize = bsize tmp\<rparr>]\<rparr>) (bsize tmp)))))"

lemma commit_line_parts:
  "commit_line h tmp buf =
     bnd (store_line h tmp buf) (\<lambda>(h, buf). bnd (aesd_init_entry h tmp) (\<lambda>(h, tmp). Inr (h, tmp, buf)))"
  by (simp add: commit_line_def store_line_def Let_def bnd_assoc case_prod_unfold)

lemma add_entry_parts:
  "aesd_circular_buffer_add_entry h tmp buf e =
     bnd (collect h tmp e) (\<lambda>(h, tmp).
     bnd (load h (buffptr e) (int (unat (bsize e - 1))) 1) (\<lambda>last_char.
     if last_char = [newline] then commit_line h tmp buf else Inr (h, tmp, buf)))"
proof -
  obtain q n where "tmp = \<lparr>buffptr = q, bsize = n\<rparr>" by (cases tmp)
  then show ?thesis
    by (cases "kmalloc h (n + bsize e)")
      (simp add: aesd_circular_buffer_add_entry_def collect_def Let_def bnd_assoc case_prod_unfold cong: if_cong)
qed


lemma entry_update_all: "e\<lparr>buffptr := p, bsize := n\<rparr> = \<lparr>buffptr = p, bsize = n\<rparr>" for e :: aesd_buffer_entry
  by simp

lemmas add_step_simps = add_step_def with_heap_def Let_def bnd_assoc case_prod_unfold entry_update_all

lemma run_collect:
  assumes "w_pc w = ReadOld"
  shows "run_alone 7 w sh = bnd (collect (sh_heap sh) (sh_tmp sh) (w_arg w)) (\<lambda>(h, tmp).
    Inr (w\<lparr>current_str := buffptr (sh_tmp sh), new_size := bsize (sh_tmp sh) + bsize (w_arg w), w_pc := TestLast\<rparr>,
         sh\<lparr>sh_heap := h, sh_tmp := tmp\<rparr>))"
  using assms by (simp add: numeral_eq_Suc add_step_simps collect_def cong: if_cong)

lemma slot_in_array: "unat (ucast (k mod 10) :: u8) < 10" for k :: u32
proof -
  have "unat (k mod 10) < 10" by (simp add: unat_mod)
  then show ?thesis by (simp add: unsigned_ucast_eq take_bit_nat_def)
qed

lemma run_advance:
  assumes "w_pc w = IncIn"
  shows "run_alone 10 w sh =
    (let buf = advance_offsets (sh_buf sh) (bsize (sh_tmp sh)) in
     Inr (w\<lparr>taken := (in_offs buf = out_offs buf), w_pc := TestTmp\<rparr>, sh\<lparr>sh_buf := buf\<rparr>))"
  using assms
  by (cases "10 \<le> w_abs (sh_buf sh) - start_abs (sh_buf sh)"; cases "10 \<le> in_offs (sh_buf sh) + 1")
    (simp_all add: numeral_eq_Suc add_step_simps advance_offsets_def)

lemma run_store_line:
  assumes "w_pc w = PickSlot" and "length (entry (sh_buf sh)) = 10"
  shows "run_alone 16 w sh = bnd (store_line (sh_heap sh) (sh_tmp sh) (sh_buf sh)) (\<lambda>(h, buf).
    Inr (w\<lparr>wi := unat (ucast (w_abs (sh_buf sh) mod 10) :: u8), taken := (in_offs buf = out_offs buf), w_pc := TestTmp\<rparr>,
         sh\<lparr>sh_heap := h, sh_buf := buf\<rparr>))"
proof -
  let ?i = "unat (ucast (w_abs (sh_buf sh) mod 10) :: u8)" and ?tmp = "sh_tmp sh"
  let ?q = "buffptr (entry (sh_buf sh) ! ?i)"
  have "run_alone 6 w sh =
    bnd (if ?q \<noteq> NULL then kfree (sh_heap sh) ?q else Inr (sh_heap sh)) (\<lambda>h.
    let (p, h) = kmalloc h (bsize ?tmp) in
    bnd (memcpy h p 0 (buffptr ?tmp) 0 (unat (bsize ?tmp))) (\<lambda>h.
    Inr (w\<lparr>wi := ?i, taken := (?q \<noteq> NULL), w_pc := IncIn\<rparr>,
         sh\<lparr>sh_heap := h, sh_buf := (sh_buf sh)\<lparr>entry := (entry (sh_buf sh))[?i := \<lparr>buffptr = p, bsize = bsize ?tmp\<rparr>]\<rparr>\<rparr>)))"
    using assms slot_in_array [of "w_abs (sh_buf sh)"]
    by (simp add: numeral_eq_Suc add_step_simps cong: if_cong)
  moreover have "run_alone 16 w sh = bnd (run_alone 6 w sh) (\<lambda>(w, sh). run_alone 10 w sh)"
    using run_alone_add [of 6 10] by simp
  ultimately show ?thesis
    by (simp add: run_advance store_line_def bnd_assoc case_prod_unfold Let_def cong: if_cong)
qed

lemma run_init_entry:
  assumes "w_pc w = TestTmp"
  shows "run_alone 3 w sh = bnd (aesd_init_entry (sh_heap sh) (sh_tmp sh)) (\<lambda>(h, tmp).
    Inr (w\<lparr>taken := (buffptr (sh_tmp sh) \<noteq> NULL), w_pc := Done\<rparr>, sh\<lparr>sh_heap := h, sh_tmp := tmp\<rparr>))"
  using assms by (simp add: numeral_eq_Suc add_step_simps aesd_init_entry_def cong: if_cong)

lemma run_alone_Done: "w_pc w = Done \<Longrightarrow> run_alone n w sh = Inr (w, sh)"
  by (induction n) (simp_all add: add_step_def Let_def)

lemma run_commit_line:
  assumes "w_pc w = PickSlot" and "length (entry (sh_buf sh)) = 10"
  shows "bnd (run_alone 19 w sh) (\<lambda>(w', sh'). Inr (w_pc w', sh')) =
    bnd (commit_line (sh_heap sh) (sh_tmp sh) (sh_buf sh)) (\<lambda>(h, tmp, buf).
      Inr (Done, \<lparr>sh_heap = h, sh_tmp = tmp, sh_buf = buf\<rparr>))"
proof -
  have nineteen: "run_alone 19 w sh = bnd (run_alone 16 w sh) (\<lambda>(w, sh). run_alone 3 w sh)"
    using run_alone_add [of 16 3] by simp
  show ?thesis
  proof (cases "store_line (sh_heap sh) (sh_tmp sh) (sh_buf sh)")
    case (Inl e)
    then show ?thesis by (simp add: nineteen run_store_line [OF assms] commit_line_parts)
  next
    case (Inr r)
    then obtain h buf where r: "store_line (sh_heap sh) (sh_tmp sh) (sh_buf sh) = Inr (h, buf)" by (cases r) auto
    show ?thesis
      by (cases "aesd_init_entry h (sh_tmp sh)")
        (auto simp: nineteen run_store_line [OF assms] commit_line_parts r run_init_entry)
  qed
qed

lemma run_alone_add_entry:
  assumes "w_pc w = ReadOld" and "length (entry (sh_buf sh)) = 10"
  shows "bnd (run_alone 27 w sh) (\<lambda>(w', sh'). Inr (w_pc w', sh')) =
    bnd (aesd_circular_buffer_add_entry (sh_heap sh) (sh_tmp sh) (sh_buf sh) (w_arg w)) (\<lambda>(h, tmp, buf).
      Inr (Done, \<lparr>sh_heap = h, sh_tmp = tmp, sh_buf = buf\<rparr>))"
proof -
  have parts: "run_alone 27 w sh = bnd (run_alone 7 w sh) (\<lambda>(w, sh). run_alone 20 w sh)"
    and twenty: "run_alone 20 v z = bnd (add_step v z) (\<lambda>(w, sh). run_alone 19 w sh)" for v z
    using run_alone_add [of 7 20] run_alone.simps(2) [of 19] by simp_all
  show ?thesis
  proof (cases "collect (sh_heap sh) (sh_tmp sh) (w_arg w)")
    case (Inl e)
    then show ?thesis by (simp add: parts run_collect [OF assms(1)] add_entry_parts)
  next
    case (Inr r)
    then obtain h tmp where c: "collect (sh_heap sh) (sh_tmp sh) (w_arg w) = Inr (h, tmp)" by (cases r) auto
    let ?sh = "sh\<lparr>sh_heap := h, sh_tmp := tmp\<rparr>" and ?e = "w_arg w"
    show ?thesis
    proof (cases "load h (buffptr ?e) (int (unat (bsize ?e - 1))) 1")
      case (Inl e)
      then show ?thesis
        by (simp add: parts run_collect [OF assms(1)] c add_entry_parts twenty add_step_simps)
    next
      case (Inr last_char)
      note run = parts twenty run_collect [OF assms(1)] c add_entry_parts Inr [simplified]
      show ?thesis
      proof (cases "last_char = [newline]")
        case False
        then show ?thesis by (simp add: run add_step_def Let_def run_alone_Done)
      next
        case True
        then show ?thesis
          using run_commit_line [of _ ?sh] assms(2) by (simp add: run add_step_def Let_def)
      qed
    qed
  qed
qed

text \<open>
  C20: the machine is the function. A writer that is not disturbed executes its twenty-seven statements,
  faults exactly where \<^verbatim>\<open>aesd_circular_buffer_add_entry\<close> faults, and otherwise ends with the heap,
  the \<^verbatim>\<open>tmp_entry\<close> and the ring of the function.
\<close>

theorem writer_alone_is_add_entry:
  assumes "w_pc w = ReadOld" and "length (entry (sh_buf sh)) = 10"
  shows "bnd (run_alone 27 w sh) (\<lambda>(w', sh'). Inr (w_pc w', sh')) =
    bnd (aesd_circular_buffer_add_entry (sh_heap sh) (sh_tmp sh) (sh_buf sh) (w_arg w)) (\<lambda>(h, tmp, buf).
      Inr (Done, \<lparr>sh_heap = h, sh_tmp = tmp, sh_buf = buf\<rparr>))"
  using assms by (rule run_alone_add_entry)

section \<open>Two writers\<close>

text \<open>
  What \<^verbatim>\<open>aesd_write\<close> does before it calls the ring: it returns one of its errors, or it has the kernel's
  copy of the bytes, and a writer is about to execute its first statement.
\<close>

definition start_writer :: "aesd_buffer_entry \<Rightarrow> writer" where
  "start_writer e = \<lparr>w_pc = ReadOld, w_arg = e, current_str = NULL, new_size = 0, wi = 0, taken = False\<rparr>"

definition enter_write :: "driver \<Rightarrow> user_access \<Rightarrow> byte list \<Rightarrow> u64 \<Rightarrow> fault + (driver \<times> (s64 + writer))" where
  "enter_write s ua ubuf count =
     (let (kbuf, h) = kmalloc (heap s) count in
      if kbuf = NULL then Inr (s\<lparr>heap := h\<rparr>, Inl (- ENOMEM))
      else
        bnd (user_read ua ubuf (count - 1)) (\<lambda>_.
        if \<not> access_ok ua then bnd (kfree h kbuf) (\<lambda>h. Inr (s\<lparr>heap := h\<rparr>, Inl (- EFAULT)))
        else
          bnd (memset h kbuf nul (unat count)) (\<lambda>h.
          bnd (copy_from_user ua h kbuf ubuf (unat count)) (\<lambda>(h, left).
          if left then bnd (kfree h kbuf) (\<lambda>h. Inr (s\<lparr>heap := h\<rparr>, Inl (- ENOMEM)))
          else Inr (s\<lparr>heap := h\<rparr>, Inr (start_writer \<lparr>buffptr = kbuf, bsize = count\<rparr>))))))"

definition shared_of :: "driver \<Rightarrow> shared" where
  "shared_of s = \<lparr>sh_heap = heap s, sh_tmp = tmp_entry s, sh_buf = buffer_mem (aesd_device s)\<rparr>"

lemma enter_write_ok:
  assumes h: "heap_is (heap s) m c" and bs: "bs \<noteq> []" "length bs \<le> KMALLOC_MAX_SIZE"
  obtains h' k where
    "enter_write s user_fine bs (of_nat (length bs)) = Inr (s\<lparr>heap := h'\<rparr>, Inr (start_writer \<lparr>buffptr = Blk k, bsize = of_nat (length bs)\<rparr>))"
    "m k = None" "heap_is h' (m(k \<mapsto> bs)) (Suc c)"
proof -
  let ?n = "of_nat (length bs) :: u64"
  have un: "unat ?n = length bs" using bs(2) by (simp add: KMALLOC_MAX_SIZE_def)
  then have "?n \<noteq> 0" using bs(1) by auto
  then have "\<exists>c. user_read user_fine bs (?n - 1) = Inr c"
    using un bs(1) by (simp add: user_read_def user_fine_def unat_minus_one)
  moreover obtain k h1 ks where k: "kmalloc (heap s) ?n = (Blk k, h1)" "m k = None" "length ks = length bs"
    "heap_is h1 (m(k \<mapsto> ks)) (Suc c)"
    using kh.alloc [OF h, of ?n] un bs by auto
  moreover obtain h2 where h2: "memset h1 (Blk k) nul (length bs) = Inr h2"
    "heap_is h2 (m(k \<mapsto> replicate (length bs) nul)) (Suc c)"
    using memset_Blk [OF k(4), of k ks "length bs" nul] k(3) by auto
  moreover obtain h3 where "store h2 (Blk k) 0 bs = Inr h3" "heap_is h3 (m(k \<mapsto> bs)) (Suc c)"
    using kh.wr_whole [OF h2(2), of k "replicate (length bs) nul" bs] by auto
  ultimately show ?thesis
    using un by (intro that [of h3 k]) (auto simp: enter_write_def copy_from_user_def user_fine_def)
qed

text \<open>
  It is the first part of \<^verbatim>\<open>aesd_write\<close> on a loaded module, for every user and every count; the call of
  the ring and the release of the copy follow.
\<close>

lemma aesd_write_enters:
  assumes r: "drv_repr s l" and f: "opened filp"
  shows "aesd_write s filp ua ubuf count =
    bnd (enter_write s ua ubuf count) (\<lambda>(s, r).
    case r of
      Inl ret \<Rightarrow> Inr (s, ret)
    | Inr w \<Rightarrow>
        bnd (aesd_circular_buffer_add_entry (heap s) (tmp_entry s) (ring s) (w_arg w)) (\<lambda>(h, tmp, buf).
        bnd (kfree h (buffptr (w_arg w))) (\<lambda>h.
        Inr (put_buffer buf (s\<lparr>heap := h, tmp_entry := tmp\<rparr>), count))))"
proof -
  obtain p h where k: "kmalloc (heap s) count = (p, h)" by (cases "kmalloc (heap s) count")
  show ?thesis
    using f drv_repr_buffer [OF r] deref_buffer_ok [OF r] k
    by (simp add: aesd_write_def enter_write_def opened_def start_writer_def put_buffer_def bnd_assoc
        case_prod_unfold if_distrib [where f = "\<lambda>x. bnd x g" for g] cong: if_cong)
qed

text \<open>A schedule that lets one writer move only.\<close>

lemma run_schedule_replicate:
  "i < length ws \<Longrightarrow> run_schedule (replicate n i) ws sh =
     bnd (run_alone n (ws ! i) sh) (\<lambda>(w, sh). Inr (ws[i := w], sh))"
  by (induction n arbitrary: ws sh) (auto simp: bnd_assoc case_prod_unfold intro!: bnd_cong)

text \<open>No operation of the heap changes which allocations fail.\<close>

lemma kmalloc_hfail: "hfail (snd (kmalloc h n)) = hfail h"
  by (simp add: kmalloc_def Let_def)

lemma kfree_hfail: "kfree h p = Inr h' \<Longrightarrow> hfail h' = hfail h"
  by (auto simp: kfree_def split: kptr.splits if_splits block.splits)

lemma store_hfail: "store h p off cs = Inr h' \<Longrightarrow> hfail h' = hfail h"
  by (auto simp: store_def split: kptr.splits if_splits block.splits)

lemma memcpy_hfail: "memcpy h p off q soff n = Inr h' \<Longrightarrow> hfail h' = hfail h"
  by (auto simp: memcpy_def bnd_iffs dest: store_hfail)

lemma memset_hfail: "memset h p c n = Inr h' \<Longrightarrow> hfail h' = hfail h"
  by (auto simp: memset_def dest: store_hfail)

lemmas hfail_keeps = kmalloc_hfail kfree_hfail memcpy_hfail memset_hfail

lemma collect_hfail:
  assumes "collect h tmp e = Inr (h', tmp')" shows "hfail h' = hfail h \<and> bsize tmp' = bsize tmp + bsize e"
proof -
  obtain p h1 where k: "kmalloc h (bsize tmp + bsize e) = (p, h1)" by (cases "kmalloc h (bsize tmp + bsize e)")
  then obtain h2 h3 where "memset h1 p nul (unat (bsize tmp + bsize e)) = Inr h2"
    "(if buffptr tmp \<noteq> NULL then memcpy h2 p 0 (buffptr tmp) 0 (unat (bsize tmp)) else Inr h2) = Inr h3"
    "memcpy h3 p (int (unat (bsize tmp))) (buffptr e) 0 (unat (bsize e)) = Inr h'"
    "tmp' = \<lparr>buffptr = p, bsize = bsize tmp + bsize e\<rparr>"
    using assms unfolding collect_def Let_def by (auto simp only: bnd_eq_Inr_iff prod.case prod.inject sum.inject)
  then show ?thesis
    using k kmalloc_hfail [of h "bsize tmp + bsize e"]
    by (auto dest!: memcpy_hfail memset_hfail split: if_split_asm)
qed

lemma store_line_hfail:
  assumes "store_line h tmp buf = Inr (h', buf')" shows "hfail h' = hfail h"
proof -
  let ?q = "buffptr (entry buf ! unat (ucast (w_abs buf mod 10) :: u8))"
  obtain h1 where "(if ?q \<noteq> NULL then kfree h ?q else Inr h) = Inr h1"
    "memcpy (snd (kmalloc h1 (bsize tmp))) (fst (kmalloc h1 (bsize tmp))) 0 (buffptr tmp) 0 (unat (bsize tmp)) = Inr h'"
    using assms unfolding store_line_def Let_def case_prod_unfold
    by (auto simp only: bnd_eq_Inr_iff prod.inject sum.inject)
  then show ?thesis
    using kmalloc_hfail [of h1 "bsize tmp"] by (auto dest!: memcpy_hfail kfree_hfail split: if_split_asm)
qed

lemma collect_pointer:
  assumes "collect h tmp e = Inr (h', tmp')" and "0 < unat (bsize tmp')"
  shows "\<exists>b. buffptr tmp' = Blk b"
proof -
  obtain p h1 where k: "kmalloc h (bsize tmp + bsize e) = (p, h1)" by (cases "kmalloc h (bsize tmp + bsize e)")
  then obtain h2 where m: "memset h1 p nul (unat (bsize tmp + bsize e)) = Inr h2" and t: "tmp' = \<lparr>buffptr = p, bsize = bsize tmp + bsize e\<rparr>"
    using assms(1) unfolding collect_def Let_def by (auto simp only: bnd_eq_Inr_iff prod.case prod.inject sum.inject)
  with assms(2) show ?thesis by (cases p) (auto simp: memset_def store_def)
qed

text \<open>A writer that has stored its line and looked at \<^verbatim>\<open>tmp_entry\<close> stands before its release.\<close>

lemma run_to_reset:
  assumes "w_pc w = ReadOld" and "length (entry (sh_buf sh)) = 10"
    and c: "collect (sh_heap sh) (sh_tmp sh) (w_arg w) = Inr (h, tmp)" and p: "buffptr tmp \<noteq> NULL"
    and l: "load h (buffptr (w_arg w)) (int (unat (bsize (w_arg w) - 1))) 1 = Inr [newline]"
    and st: "store_line h tmp (sh_buf sh) = Inr (h', buf')"
  shows "\<exists>w'. run_alone 25 w sh = Inr (w', \<lparr>sh_heap = h', sh_tmp = tmp, sh_buf = buf'\<rparr>) \<and>
    w_pc w' = FreeTmp \<and> taken w'"
proof -
  have "run_alone 25 w sh = bnd (run_alone 7 w sh) (\<lambda>(w, sh). run_alone 18 w sh)"
    using run_alone_add [of 7 18] by simp
  moreover have "run_alone 18 v z = bnd (add_step v z) (\<lambda>(w, sh). run_alone 17 w sh)"
    and "run_alone 17 v z = bnd (run_alone 16 v z) (\<lambda>(w, sh). run_alone 1 w sh)" for v z
    using run_alone.simps(2) [of 17] run_alone_add [of 16 1] by simp_all
  ultimately show ?thesis
    using assms(2) st p
    by (simp add: run_collect [OF assms(1)] c l [simplified] add_step_def Let_def run_store_line)
qed

text \<open>
  Another writer begins, and has allocated the new \<^verbatim>\<open>tmp_entry\<close> when the first one releases it.
\<close>

lemma overtaken:
  assumes "w_pc w1 = FreeTmp \<and> taken w1" and "w_pc w2 = ReadOld" and "hfail (sh_heap sh) = {}"
    and n: "0 < unat (bsize (sh_tmp sh) + bsize (w_arg w2))" "unat (bsize (sh_tmp sh) + bsize (w_arg w2)) \<le> KMALLOC_MAX_SIZE"
  shows "run_schedule [1, 1, 1, 0, 1] [w1, w2] sh = Inl UseAfterFree"
proof -
  let ?h = "sh_heap sh" and ?n = "bsize (sh_tmp sh) + bsize (w_arg w2)"
  let ?b = "length (blocks ?h)"
  have n0: "?n \<noteq> 0" using n(1) by (metis less_irrefl unat_0)
  obtain bs where k: "kmalloc ?h ?n = (Blk ?b, ?h\<lparr>hcount := Suc (hcount ?h), blocks := blocks ?h @ [Live bs]\<rparr>)"
    by (rule that [of "map (hjunk ?h ?b) [0..<unat ?n]"]) (use assms(3) n n0 in \<open>simp add: kmalloc_def Let_def\<close>)
  have f: "kfree (?h\<lparr>hcount := Suc (hcount ?h), blocks := blocks ?h @ [Live bs]\<rparr>) (Blk ?b) =
      Inr (?h\<lparr>hcount := Suc (hcount ?h), blocks := blocks ?h @ [Freed]\<rparr>)"
    by (simp add: kfree_def)
  have m: "memset (?h\<lparr>hcount := Suc (hcount ?h), blocks := blocks ?h @ [Freed]\<rparr>) (Blk ?b) nul (unat ?n) = Inl UseAfterFree"
    using n(1) by (simp add: memset_def store_def)
  show ?thesis
    using assms(1,2) k f m by (simp add: add_step_simps)
qed

lemma both_enter:
  assumes r: "drv_repr s l" and a: "a \<noteq> []" "length a \<le> KMALLOC_MAX_SIZE"
    and b: "b \<noteq> []" "length b \<le> KMALLOC_MAX_SIZE"
  obtains s1 s2 m p q where
    "enter_write s user_fine a (of_nat (length a)) = Inr (s1, Inr (start_writer \<lparr>buffptr = Blk p, bsize = of_nat (length a)\<rparr>))"
    "enter_write s1 user_fine b (of_nat (length b)) = Inr (s2, Inr (start_writer \<lparr>buffptr = Blk q, bsize = of_nat (length b)\<rparr>))"
    "heap_is (heap s2) m (census 3 l)" "cb_repr m (tmp_entry s2) (ring s2) l"
    "m p = Some a" "\<not> cb_owned (tmp_entry s2) (ring s2) l p"
    "m q = Some b" "\<not> cb_owned (tmp_entry s2) (ring s2) l q"
proof -
  obtain m d bs where h: "heap_is (heap s) m (census 1 l)" and cb: "cb_repr m (tmp_entry s) (ring s) l"
    using r by (rule drv_reprE)
  obtain h1 p where p: "enter_write s user_fine a (of_nat (length a)) = Inr (s\<lparr>heap := h1\<rparr>, Inr (start_writer \<lparr>buffptr = Blk p, bsize = of_nat (length a)\<rparr>))"
    "m p = None" "heap_is h1 (m(p \<mapsto> a)) (Suc (census 1 l))"
    using h a by (rule enter_write_ok)
  have h1: "heap_is (heap (s\<lparr>heap := h1\<rparr>)) (m(p \<mapsto> a)) (Suc (census 1 l))" using p(3) by simp
  obtain h2 q where q: "enter_write (s\<lparr>heap := h1\<rparr>) user_fine b (of_nat (length b)) =
      Inr (s\<lparr>heap := h1\<rparr>\<lparr>heap := h2\<rparr>, Inr (start_writer \<lparr>buffptr = Blk q, bsize = of_nat (length b)\<rparr>))"
    "(m(p \<mapsto> a)) q = None" "heap_is h2 (m(p \<mapsto> a, q \<mapsto> b)) (Suc (Suc (census 1 l)))"
    using h1 b by (rule enter_write_ok)
  have free: "\<not> cb_owned (tmp_entry s) (ring s) l x" if "m x = None" for x
    using cb_owned_live [OF cb] that by blast
  have pq: "q \<noteq> p" "m q = None" using q(2) by (auto split: if_splits)
  have "cb_repr (m(p \<mapsto> a, q \<mapsto> b)) (tmp_entry s) (ring s) l"
    by (intro cb_repr_frame cb free p(2) pq(2))
  moreover have "Suc (Suc (census 1 l)) = census 3 l" by (simp add: census_def)
  ultimately show ?thesis
    using p q pq free by (intro that [OF p(1) q(1), of "m(p \<mapsto> a, q \<mapsto> b)"]) auto
qed

text \<open>The three parts of an undisturbed call that stores a line.\<close>

lemma add_line_parts:
  assumes h: "heap_is h m (census base l)" and r: "cb_repr m tmp buf l"
    and e: "buffptr e = Blk k" "bsize e = of_nat (length bs)"
    and k: "m k = Some bs" "\<not> cb_owned tmp buf l k" and fit: "fits l bs" "last bs = newline"
  obtains h1 tmp1 h2 buf2 where "collect h tmp e = Inr (h1, tmp1)"
    "load h1 (buffptr e) (int (unat (bsize e - 1))) 1 = Inr [newline]"
    "store_line h1 tmp1 buf = Inr (h2, buf2)"
proof -
  obtain h' m' tmp' buf' where run: "aesd_circular_buffer_add_entry h tmp buf e = Inr (h', tmp', buf')"
    and r': "cb_repr m' tmp' buf' (log_add l bs)"
    using add_entry_refines [OF h r e k fit(1)] by blast
  obtain h1 tmp1 last_char where 1: "collect h tmp e = Inr (h1, tmp1)"
    "load h1 (buffptr e) (int (unat (bsize e - 1))) 1 = Inr last_char"
    "(if last_char = [newline] then commit_line h1 tmp1 buf else Inr (h1, tmp1, buf)) = Inr (h', tmp', buf')"
    using run unfolding add_entry_parts by (auto simp only: bnd_eq_Inr_iff prod.case split_paired_Ex)
  have "w_abs buf' = of_nat (Suc (length (lines l)))" "w_abs buf = of_nat (length (lines l))"
    using r r' fit(2) by (simp_all add: cb_repr_def ring_repr_def offsets_repr_def log_add_def Let_def)
  moreover have "Suc (length (lines l)) < 4294967296" using fit(1) by (simp add: fits_def)
  ultimately have "w_abs buf' \<noteq> w_abs buf"
    by (metis unat_of_nat32 n_not_Suc_n Suc_lessD)
  with 1(3) have nl: "last_char = [newline]" by (auto split: if_splits)
  with 1(3) obtain h2 buf2 where "store_line h1 tmp1 buf = Inr (h2, buf2)"
    by (auto simp: commit_line_parts bnd_eq_Inr_iff)
  with 1 nl that show ?thesis by blast
qed

lemma slots_of_ring: "cb_repr m tmp buf l \<Longrightarrow> length (entry buf) = 10"
  by (simp add: cb_repr_def ring_repr_def slots_repr_def)

text \<open>
  C19: without the mutex two writers corrupt the kernel's memory. In every state of a loaded module
  that represents a log, a line \<open>a\<close> and any other bytes \<open>b\<close> can be written such that the two calls,
  after the copies from their users, are interleaved into a use of freed memory: the second call
  allocates the new \<^verbatim>\<open>tmp_entry\<close>, the first one, at its end, releases it, and the second one clears
  it.
\<close>

theorem racing_writers_fault:
  assumes "drv_repr s l" and "fits l a" and "last a = newline" and "b \<noteq> []"
    and "length (pending l) + length a + length b \<le> KMALLOC_MAX_SIZE"
  shows "\<exists>s1 w1 s2 w2. enter_write s user_fine a (of_nat (length a)) = Inr (s1, Inr w1) \<and> enter_write s1 user_fine b (of_nat (length b)) = Inr (s2, Inr w2) \<and>
    run_schedule (replicate 25 0 @ [1, 1, 1, 0, 1]) [w1, w2] (shared_of s2) = Inl UseAfterFree"
proof -
  have ab: "a \<noteq> []" "length a \<le> KMALLOC_MAX_SIZE" "length b \<le> KMALLOC_MAX_SIZE"
    using assms(2,5) by (simp_all add: fits_def)
  obtain s1 s2 m p q where e: "enter_write s user_fine a (of_nat (length a)) = Inr (s1, Inr (start_writer \<lparr>buffptr = Blk p, bsize = of_nat (length a)\<rparr>))"
      "enter_write s1 user_fine b (of_nat (length b)) = Inr (s2, Inr (start_writer \<lparr>buffptr = Blk q, bsize = of_nat (length b)\<rparr>))"
    and h: "heap_is (heap s2) m (census 3 l)" "cb_repr m (tmp_entry s2) (ring s2) l"
    and p: "m p = Some a" "\<not> cb_owned (tmp_entry s2) (ring s2) l p"
    using assms(1) ab(1,2) assms(4) ab(3) by (rule both_enter)
  let ?e = "\<lparr>buffptr = Blk p, bsize = of_nat (length a)\<rparr>"
    and ?v = "start_writer \<lparr>buffptr = Blk q, bsize = of_nat (length b)\<rparr>" and ?sh = "shared_of s2"
  obtain h1 tmp1 h2 buf2 where parts: "collect (heap s2) (tmp_entry s2) ?e = Inr (h1, tmp1)"
      "load h1 (buffptr ?e) (int (unat (bsize ?e - 1))) 1 = Inr [newline]"
      "store_line h1 tmp1 (ring s2) = Inr (h2, buf2)"
    by (rule add_line_parts [OF h, of ?e p a]) (use p assms(2,3) in simp_all)
  have "bsize (tmp_entry s2) = of_nat (length (pending l))"
    using h(2) by (simp add: cb_repr_def tmp_repr_def)
  have "bsize tmp1 = of_nat (length (pending l) + length a)"
    using \<open>bsize (tmp_entry s2) = _\<close> collect_hfail [OF parts(1)] by simp
  then have "unat (bsize tmp1) = length (pending l) + length a"
    using assms(5) by (simp only: unat_of_nat64 KMALLOC_MAX_SIZE_def)
  then have p1: "buffptr tmp1 \<noteq> NULL" using collect_pointer [OF parts(1)] ab(1) by auto
  obtain w' where w': "run_alone 25 (start_writer ?e) ?sh = Inr (w', \<lparr>sh_heap = h2, sh_tmp = tmp1, sh_buf = buf2\<rparr>)"
      "w_pc w' = FreeTmp \<and> taken w'"
    using p1 run_to_reset [of "start_writer ?e" ?sh h1 tmp1 h2 buf2] parts slots_of_ring [OF h(2)]
    by (auto simp: start_writer_def shared_of_def)
  have "bsize tmp1 + of_nat (length b) = of_nat (length (pending l) + length a + length b)"
    using \<open>bsize tmp1 = _\<close> by simp
  then have n: "unat (bsize tmp1 + of_nat (length b)) = length (pending l) + length a + length b"
    using assms(5) by (simp only: unat_of_nat64 KMALLOC_MAX_SIZE_def)
  have "hfail h2 = {}"
    using h(1) collect_hfail [OF parts(1)] store_line_hfail [OF parts(3)] by (simp add: heap_is_def avail_def)
  then have "run_schedule [1, 1, 1, 0, 1] [w', ?v] \<lparr>sh_heap = h2, sh_tmp = tmp1, sh_buf = buf2\<rparr> = Inl UseAfterFree"
    by (intro overtaken) (use w'(2) n assms(4,5) in \<open>simp_all add: start_writer_def\<close>)
  then show ?thesis
    using e w'(1) by (auto simp: run_schedule_append run_schedule_replicate)
qed

section \<open>Examples: two lines are kept, \<open>x\<close> and \<open>y\<close> are written\<close>

abbreviation (input) x_line :: "byte list" where "x_line \<equiv> [CHR ''x'', newline]"
abbreviation (input) y_line :: "byte list" where "y_line \<equiv> [CHR ''y'', newline]"

lemma x_y_fit: "fits (log_of two_lines) x_line" "fits (log_add (log_of two_lines) x_line) y_line"
  by (simp_all add: fits_def log_add_def two_lines_numbers KMALLOC_MAX_SIZE_def)

lemma writer_alone_is_add_entry_witness:
  "\<exists>s s1 w w' sh. load_and_write (empty_heap (\<lambda>_ _. nul)) 0 two_lines = Inr s \<and>
     enter_write s user_fine x_line (of_nat (length x_line)) = Inr (s1, Inr w) \<and> run_alone 27 w (shared_of s1) = Inr (w', sh) \<and>
     w_pc w' = Done \<and> unat (w_abs (sh_buf sh)) = 3"
proof -
  obtain s where s: "load_and_write (empty_heap (\<lambda>_ _. nul)) 0 two_lines = Inr s"
    "drv_repr s (log_of two_lines)"
    using two_lines_loaded by blast
  obtain m where h: "heap_is (heap s) m (census 1 (log_of two_lines))" "cb_repr m (tmp_entry s) (ring s) (log_of two_lines)"
    using s(2) by (rule drv_reprE)
  obtain h1 p where e: "enter_write s user_fine x_line (of_nat (length x_line)) =
      Inr (s\<lparr>heap := h1\<rparr>, Inr (start_writer \<lparr>buffptr = Blk p, bsize = of_nat (length x_line)\<rparr>))"
    "m p = None" "heap_is h1 (m(p \<mapsto> x_line)) (Suc (census 1 (log_of two_lines)))"
    by (rule enter_write_ok [OF h(1), of x_line]) (simp_all add: KMALLOC_MAX_SIZE_def)
  let ?e = "\<lparr>buffptr = Blk p, bsize = of_nat (length x_line)\<rparr>" and ?s1 = "s\<lparr>heap := h1\<rparr>"
  have free: "\<not> cb_owned (tmp_entry s) (ring s) (log_of two_lines) p"
    using cb_owned_live [OF h(2)] e(2) by blast
  have cb: "cb_repr (m(p \<mapsto> x_line)) (tmp_entry s) (ring s) (log_of two_lines)"
    by (rule cb_repr_frame [OF h(2) free])
  have h1: "heap_is h1 (m(p \<mapsto> x_line)) (census 2 (log_of two_lines))"
    using e(3) by (simp add: census_def)
  obtain h' m' t' b' where a: "aesd_circular_buffer_add_entry h1 (tmp_entry s) (ring s) ?e = Inr (h', t', b')"
    "cb_repr m' t' b' (log_add (log_of two_lines) x_line)"
    using add_entry_refines [OF h1 cb, of ?e p x_line] free x_y_fit(1) by auto
  have "w_abs b' = 3"
    using a(2) by (simp add: cb_repr_def ring_repr_def offsets_repr_def log_add_def two_lines_numbers)
  moreover have "\<exists>w'. run_alone 27 (start_writer ?e) (shared_of ?s1) = Inr (w', \<lparr>sh_heap = h', sh_tmp = t', sh_buf = b'\<rparr>) \<and> w_pc w' = Done"
    using writer_alone_is_add_entry [of "start_writer ?e" "shared_of ?s1"] a(1) slots_of_ring [OF h(2)]
    by (auto simp: start_writer_def shared_of_def bnd_eq_Inr_iff)
  ultimately show ?thesis using s(1) e(1) by fastforce
qed

lemma racing_writers_fault_witness:
  "\<exists>s s1 w1 s2 w2. load_and_write (empty_heap (\<lambda>_ _. nul)) 0 two_lines = Inr s \<and>
     enter_write s user_fine x_line (of_nat (length x_line)) = Inr (s1, Inr w1) \<and> enter_write s1 user_fine y_line (of_nat (length y_line)) = Inr (s2, Inr w2) \<and>
     run_schedule (replicate 25 0 @ [1, 1, 1, 0, 1]) [w1, w2] (shared_of s2) = Inl UseAfterFree"
proof -
  obtain s where s: "load_and_write (empty_heap (\<lambda>_ _. nul)) 0 two_lines = Inr s"
    "drv_repr s (log_of two_lines)"
    using two_lines_loaded by blast
  from racing_writers_fault [OF s(2) x_y_fit(1), of y_line] s(1) show ?thesis
    by (simp add: KMALLOC_MAX_SIZE_def)
qed

end
