(* ===== verification/Driver_Tracing.thy ===== *)
theory Driver_Tracing
  imports Racing_Writers
begin

text \<open>
  The driver with its messages. \<^verbatim>\<open>aesdchar.h\<close> defines \<^verbatim>\<open>AESD_DEBUG\<close>, so the \<^verbatim>\<open>PDEBUG\<close> calls are
  compiled in; those that print numbers do nothing to the state, those that print a string with \<open>%s\<close>
  read it up to its zero. Here are the functions that have such calls, with them: a run without a
  fault is a run of the functions without the calls; there is none for a write of text, and one write only of
  a line with a zero in it.
\<close>

section \<open>Printing a string\<close>

text \<open>\<^verbatim>\<open>printk\<close> of \<open>%s\<close>: null and small pointers are replaced by a text, any other is read up to its zero.\<close>

definition trace_string :: "kheap \<Rightarrow> kptr \<Rightarrow> fault + unit" where
  "trace_string h p =
     (case p of NULL \<Rightarrow> Inr () | ZERO_SIZE_PTR \<Rightarrow> Inr () | Blk b \<Rightarrow> bnd (strlen h (Blk b)) (\<lambda>_. Inr ()))"

text \<open>
  \<^verbatim>\<open>printk\<close> of a \<^verbatim>\<open>char\<close> where \<open>%s\<close> expects a pointer: a value below 128 is a small pointer. What the others
  become as a pointer is not defined, and neither is what is found there.
\<close>

definition trace_char :: "byte \<Rightarrow> fault + unit" where
  "trace_char c = (if of_char c < (128 :: nat) then Inr () else Inl OutOfBounds)"

lemma trace_newline [simp]: "trace_char newline = Inr ()"
  by (simp add: trace_char_def)

section \<open>The functions with their tracing\<close>

text \<open>The stored line is printed.\<close>

definition commit_line_traced ::
  "kheap \<Rightarrow> aesd_buffer_entry \<Rightarrow> aesd_circular_buffer \<Rightarrow>
   fault + (kheap \<times> aesd_buffer_entry \<times> aesd_circular_buffer)" where
  "commit_line_traced h tmp buf =
     (let wi = ucast (w_abs buf mod 10) :: u8; target = entry buf ! unat wi in
      bnd (if buffptr target \<noteq> NULL then kfree h (buffptr target) else Inr h) (\<lambda>h.
      let (p, h) = kmalloc h (bsize tmp) in
      bnd (memcpy h p 0 (buffptr tmp) 0 (unat (bsize tmp))) (\<lambda>h.
      let buf = buf\<lparr>entry := (entry buf)[unat wi := \<lparr>buffptr = p, bsize = bsize tmp\<rparr>]\<rparr> in
      bnd (trace_string h p) (\<lambda>_.
      let buf = advance_offsets buf (bsize tmp)
      in bnd (aesd_init_entry h tmp) (\<lambda>(h, tmp). Inr (h, tmp, buf))))))"

text \<open>The bytes before, the new bytes, all of them together and the last byte are printed.\<close>

definition add_entry_traced ::
  "kheap \<Rightarrow> aesd_buffer_entry \<Rightarrow> aesd_circular_buffer \<Rightarrow> aesd_buffer_entry \<Rightarrow>
   fault + (kheap \<times> aesd_buffer_entry \<times> aesd_circular_buffer)" where
  "add_entry_traced h tmp buf add_entry =
     (let current_str = buffptr tmp in
      bnd (trace_string h current_str) (\<lambda>_.
      let new_size = bsize tmp + bsize add_entry;
          (p, h) = kmalloc h new_size;
          tmp = tmp\<lparr>buffptr := p\<rparr>
      in
      bnd (memset h p nul (unat new_size)) (\<lambda>h.
      bnd (if current_str \<noteq> NULL then memcpy h p 0 current_str 0 (unat (bsize tmp)) else Inr h) (\<lambda>h.
      bnd (memcpy h p (int (unat (bsize tmp))) (buffptr add_entry) 0 (unat (bsize add_entry))) (\<lambda>h.
      let tmp = tmp\<lparr>bsize := new_size\<rparr> in
      bnd (trace_string h (buffptr add_entry)) (\<lambda>_.
      bnd (trace_string h (buffptr tmp)) (\<lambda>_.
      bnd (load h (buffptr add_entry) (int (unat (bsize add_entry - 1))) 1) (\<lambda>last_char.
      bnd (trace_char (hd last_char)) (\<lambda>_.
      if last_char = [newline] then commit_line_traced h tmp buf else Inr (h, tmp, buf))))))))))"

text \<open>A round that does not leave the loop at \<^verbatim>\<open>w_abs\<close> prints the entry and what has been read.\<close>

definition raed_body_traced ::
  "kptr \<Rightarrow> s32 \<Rightarrow> u64 \<Rightarrow> u64 \<Rightarrow> raed_locals \<Rightarrow> fault + (bool \<times> raed_locals)" where
  "raed_body_traced result_buf copy_start start_byte_ofs len st =
     (let ri = ring_index (startp st); buf = rl_buf st in
      bnd (entry_at buf (unat ri)) (\<lambda>next_entry.
      let ofs_in_entry = (if is_first_entry st then ucast start_byte_ofs else 0) :: s32;
          remain_in_entry = ucast (bsize next_entry - scast ofs_in_entry) :: s32;
          trace = (\<lambda>st. bnd (trace_string (rl_heap st) (buffptr next_entry)) (\<lambda>_.
                        bnd (trace_string (rl_heap st) result_buf) (\<lambda>_. Inr (len \<le> read_len st, st))))
      in
      if buffptr next_entry = NULL then Inr (True, st)
      else
        (let copy_len = (if len \<le> read_len st + scast remain_in_entry
                         then len - read_len st else scast remain_in_entry) in
         bnd (memcpy (rl_heap st) result_buf (sint copy_start + int (unat (read_len st)))
                (buffptr next_entry) (sint ofs_in_entry) (unat copy_len)) (\<lambda>h.
         let st = st\<lparr>rl_heap := h, read_len := read_len st + copy_len\<rparr> in
         if scast remain_in_entry \<le> copy_len then
           (let buf = buf\<lparr>out_offs := out_offs buf + 1\<rparr>;
                buf = (if 10 \<le> out_offs buf then buf\<lparr>out_offs := 0\<rparr> else buf);
                st = st\<lparr>rl_buf := buf, startp := startp st + 1, is_first_entry := False\<rparr>
            in if startp st = w_abs buf then Inr (True, st)
               else trace (st\<lparr>rl_buf := (if full buf then buf\<lparr>full := False\<rparr> else buf)\<rparr>))
         else trace st))))"

text \<open>
  \<open>m\<close> does what \<open>m'\<close> does, or runs into a fault.
\<close>

definition below :: "fault + 'a \<Rightarrow> fault + 'a \<Rightarrow> bool" where
  "below m m' \<longleftrightarrow> (\<forall>x. m = Inr x \<longrightarrow> m' = Inr x)"

named_theorems below_intros \<open>how a computation with tracing is compared with the one without\<close>

lemma below_refl [below_intros]: "below m m"
  by (simp add: below_def)

lemma below_bnd [below_intros]: "below m m' \<Longrightarrow> (\<And>x. below (f x) (f' x)) \<Longrightarrow> below (bnd m f) (bnd m' f')"
  by (auto simp: below_def bnd_eq_Inr_iff)

lemma below_trace [below_intros]: "(\<And>x. below (f x) m') \<Longrightarrow> below (bnd (trace_string h p) f) m'"
  by (auto simp: below_def bnd_eq_Inr_iff)

lemma below_trace_char [below_intros]: "(\<And>x. below (f x) m') \<Longrightarrow> below (bnd (trace_char c) f) m'"
  by (auto simp: below_def bnd_eq_Inr_iff)

lemma below_if [below_intros]: "(b \<Longrightarrow> below m m') \<Longrightarrow> (\<not> b \<Longrightarrow> below n n') \<Longrightarrow> below (if b then m else n) (if b then m' else n')"
  by simp

lemma below_case_prod [below_intros]: "(\<And>a b. below (f a b) (g a b)) \<Longrightarrow> below (case x of (a, b) \<Rightarrow> f a b) (case x of (a, b) \<Rightarrow> g a b)"
  by (cases x) simp

lemma commit_line_below: "below (commit_line_traced h tmp buf) (commit_line h tmp buf)"
  unfolding commit_line_traced_def commit_line_def Let_def by (intro below_intros)

lemma add_entry_below: "below (add_entry_traced h tmp buf e) (aesd_circular_buffer_add_entry h tmp buf e)"
  unfolding add_entry_traced_def aesd_circular_buffer_add_entry_def Let_def
  by (intro below_intros commit_line_below)

lemma raed_body_below: "below (raed_body_traced q cs ofs len st) (raed_body q cs ofs len st)"
  unfolding raed_body_traced_def raed_body_def Let_def by (intro below_intros)

function raed_loop_traced ::
  "kptr \<Rightarrow> s32 \<Rightarrow> u64 \<Rightarrow> u64 \<Rightarrow> raed_locals \<Rightarrow> fault + raed_locals" where
  "raed_loop_traced result_buf copy_start start_byte_ofs len st =
     bnd (raed_body_traced result_buf copy_start start_byte_ofs len st) (\<lambda>(leave, st').
       if leave then Inr st' else raed_loop_traced result_buf copy_start start_byte_ofs len st')"
  by pat_completeness auto
termination
proof (relation "measure (\<lambda>(_, _, _, _, st). unat (w_abs (rl_buf st) - startp st - 1))")
  show "wf (measure (\<lambda>(_, _, _, _, st). unat (w_abs (rl_buf st) - startp st - 1)))" by simp
next
  fix q cs ofs len st x leave st'
  assume "raed_body_traced q cs ofs len st = Inr x" "(leave, st') = x" "\<not> leave"
  then have "raed_body q cs ofs len st = Inr (False, st')"
    using raed_body_below [of q cs ofs len st] by (auto simp: below_def)
  from raed_body_measure [OF this]
  show "((q, cs, ofs, len, st'), (q, cs, ofs, len, st)) \<in> measure (\<lambda>(_, _, _, _, st). unat (w_abs (rl_buf st) - startp st - 1))"
    by simp
qed

declare raed_loop_traced.simps [simp del]

lemma raed_loop_below: "below (raed_loop_traced q cs ofs len st) (raed_loop q cs ofs len st)"
proof (induction q cs ofs len st rule: raed_loop_traced.induct)
  case (1 q cs ofs len st)
  then show ?case
    using raed_body_below [of q cs ofs len st]
    by (subst raed_loop_traced.simps, subst raed_loop.simps) (fastforce simp: below_def bnd_eq_Inr_iff split: if_splits)
qed

definition raed_traced ::
  "kheap \<Rightarrow> aesd_circular_buffer \<Rightarrow> kptr \<Rightarrow> u64 \<Rightarrow> s64 \<Rightarrow>
   fault + (kheap \<times> aesd_circular_buffer \<times> s64 \<times> u64)" where
  "raed_traced h buf result_buf len pos =
     (if sint pos < int (unat (start_char_abs buf)) \<or> int (unat (w_char_abs buf)) < sint pos
      then Inr (h, buf, pos, - 1)
      else
        bnd (aesd_circular_buffer_find_entry_offset_and_index_for_fpos buf
               (pos - ucast (start_char_abs buf))) (\<lambda>(startp, start_byte_ofs).
        if sint startp < 0 then Inr (h, buf, pos, 0)
        else
          (let buf = buf\<lparr>out_offs := ucast startp\<rparr> in
           if startp = w_abs buf then Inr (h, buf, pos, 0)
           else
             bnd (strlen h result_buf) (\<lambda>copy_start.
             bnd (case start_byte_ofs of None \<Rightarrow> Inl UninitRead | Some ofs \<Rightarrow> Inr ofs) (\<lambda>ofs.
             bnd (raed_loop_traced result_buf (of_nat copy_start) ofs len
                    \<lparr>rl_heap = h, rl_buf = buf, startp = startp, read_len = 0,
                     is_first_entry = True\<rparr>) (\<lambda>st.
             Inr (rl_heap st, rl_buf st, pos + read_len st, read_len st)))))))"

lemma raed_below: "below (raed_traced h buf q len pos) (aesd_circular_buffer_raed h buf q len pos)"
  unfolding raed_traced_def aesd_circular_buffer_raed_def Let_def by (intro below_intros raed_loop_below)

text \<open>\<^verbatim>\<open>aesd_write\<close> prints the user's bytes through the user's pointer; \<open>ubuf\<close> are the bytes found there.\<close>

definition trace_user :: "user_access \<Rightarrow> byte list \<Rightarrow> fault + unit" where
  "trace_user ua ubuf =
     (if \<not> direct_ok ua then Inl UserFault else if nul \<in> set ubuf then Inr () else Inl OutOfBounds)"

definition read_traced ::
  "driver \<Rightarrow> kfile \<Rightarrow> user_access \<Rightarrow> u64 \<Rightarrow> s64 \<Rightarrow> fault + (driver \<times> s64 \<times> s64 \<times> byte list)" where
  "read_traced s filp ua count pos =
     (if private_data filp = DEV_NULL then Inl NullDeref
      else if buffer (aesd_device s) = NULL then Inr (s, pos, - ENOMEM, [])
      else
        bnd (deref_buffer s) (\<lambda>buf.
        let (kbuf, h) = kmalloc (heap s) count in
        if kbuf = NULL then Inr (s\<lparr>heap := h\<rparr>, pos, - ENOMEM, [])
        else
          bnd (memset h kbuf nul (unat count)) (\<lambda>h.
          bnd (raed_traced h buf kbuf count pos) (\<lambda>(h, buf, pos, retval).
          bnd (if 0 < sint retval then
                 bnd (load h kbuf 0 (unat retval)) (\<lambda>bs.
                   Inr (if copy_ok ua then retval else - ENOMEM, copy_to_user ua bs))
               else Inr (retval, [])) (\<lambda>(retval, bs).
          bnd (kfree h kbuf) (\<lambda>h.
          Inr (put_buffer buf (s\<lparr>heap := h\<rparr>), pos, retval, bs)))))))"

definition write_traced ::
  "driver \<Rightarrow> kfile \<Rightarrow> user_access \<Rightarrow> byte list \<Rightarrow> u64 \<Rightarrow> fault + (driver \<times> s64)" where
  "write_traced s filp ua ubuf count =
     (if private_data filp = DEV_NULL then Inr (s, - ENOMEM)
      else if buffer (aesd_device s) = NULL then Inr (s, - ENOMEM)
      else
        bnd (deref_buffer s) (\<lambda>buf.
        let (kbuf, h) = kmalloc (heap s) count in
        if kbuf = NULL then Inr (s\<lparr>heap := h\<rparr>, - ENOMEM)
        else
          bnd (trace_user ua ubuf) (\<lambda>_.
          bnd (user_read ua ubuf (count - 1)) (\<lambda>_.
          if \<not> access_ok ua then bnd (kfree h kbuf) (\<lambda>h. Inr (s\<lparr>heap := h\<rparr>, - EFAULT))
          else
            bnd (memset h kbuf nul (unat count)) (\<lambda>h.
            bnd (copy_from_user ua h kbuf ubuf (unat count)) (\<lambda>(h, left).
            if left then bnd (kfree h kbuf) (\<lambda>h. Inr (s\<lparr>heap := h\<rparr>, - ENOMEM))
            else
              bnd (add_entry_traced h (tmp_entry s) buf \<lparr>buffptr = kbuf, bsize = count\<rparr>)
                (\<lambda>(h, tmp, buf).
              bnd (kfree h kbuf) (\<lambda>h.
              Inr (put_buffer buf (s\<lparr>heap := h, tmp_entry := tmp\<rparr>), count)))))))))"

lemma below_trace_user [below_intros]: "(\<And>x. below (f x) m') \<Longrightarrow> below (bnd (trace_user ua ubuf) f) m'"
  by (auto simp: below_def bnd_eq_Inr_iff)

lemma read_below: "below (read_traced s filp ua count pos) (aesd_read s filp ua count pos)"
  unfolding read_traced_def aesd_read_def Let_def by (intro below_intros raed_below)

lemma write_below: "below (write_traced s filp ua ubuf count) (aesd_write s filp ua ubuf count)"
  unfolding write_traced_def aesd_write_def Let_def by (intro below_intros add_entry_below)

text \<open>The table of file operations; the messages of the other operations print numbers only.\<close>

fun fops_traced ::
  "(s64 \<Rightarrow> s64 \<Rightarrow> s64 \<Rightarrow> s64) \<Rightarrow> driver \<Rightarrow> kfile \<Rightarrow> file_call \<Rightarrow> fault + (driver \<times> kfile \<times> reply)" where
  "fops_traced keep s filp (Call_read ua count) =
     bnd (read_traced s filp ua count (f_pos filp)) (\<lambda>(s, pos, ret, bs).
       Inr (s, filp\<lparr>f_pos := keep ret (f_pos filp) pos\<rparr>, ret, bs))"
| "fops_traced keep s filp (Call_write ua ubuf count) =
     bnd (write_traced s filp ua ubuf count) (\<lambda>(s, ret).
       Inr (s, filp\<lparr>f_pos := keep ret (f_pos filp) (f_pos filp)\<rparr>, ret, []))"
| "fops_traced keep s filp c = aesd_fops keep s filp c"

lemma fops_below: "below (fops_traced keep s filp c) (aesd_fops keep s filp c)"
  by (cases c) (auto intro: below_intros read_below write_below)

lemma run_calls_below:
  assumes "\<And>s f c. below (step s f c) (step' s f c)"
  shows "below (run_calls step s fs cs) (run_calls step' s fs cs)"
proof (induction cs arbitrary: s fs)
  case (Cons ic cs)
  show ?case by (cases ic) (simp, intro below_intros assms Cons.IH)
qed (simp add: below_refl)

section \<open>Freed blocks\<close>

definition freed :: "kheap \<Rightarrow> nat \<Rightarrow> bool" where
  "freed h b \<longleftrightarrow> b < length (blocks h) \<and> blocks h ! b = Freed"

lemma kfree_freed: "kfree h (Blk b) = Inr h' \<Longrightarrow> freed h' b"
  by (auto simp: kfree_def freed_def split: if_splits block.splits)

lemma freed_kfree: "kfree h p = Inr h' \<Longrightarrow> freed h b \<Longrightarrow> freed h' b"
  by (auto simp: kfree_def freed_def nth_list_update split: kptr.splits if_splits block.splits)

lemma freed_kmalloc: "freed h b \<Longrightarrow> freed (snd (kmalloc h n)) b"
  by (simp add: kmalloc_def Let_def freed_def nth_append)

lemma freed_store: "store h p off cs = Inr h' \<Longrightarrow> freed h b \<Longrightarrow> freed h' b"
  by (auto simp: store_def freed_def nth_list_update split: kptr.splits if_splits block.splits)

lemma freed_memset: "memset h p c n = Inr h' \<Longrightarrow> freed h b \<Longrightarrow> freed h' b"
  by (auto simp: memset_def dest: freed_store)

lemma trace_freed: "freed h b \<Longrightarrow> trace_string h (Blk b) = Inl UseAfterFree"
  by (simp add: trace_string_def strlen_def freed_def)

text \<open>A stored line leaves \<^verbatim>\<open>tmp_entry\<close> with a pointer to the block that was released.\<close>

lemma add_line_dangling:
  assumes h: "heap_is h m (census base l)" and r: "cb_repr m tmp buf l"
    and e: "buffptr e = Blk k" "bsize e = of_nat (length bs)"
    and k: "m k = Some bs" "\<not> cb_owned tmp buf l k" and fit: "fits l bs" "last bs = newline"
    and run: "aesd_circular_buffer_add_entry h tmp buf e = Inr (h', tmp', buf')"
  shows "\<exists>b. buffptr tmp' = Blk b \<and> freed h' b"
proof -
  obtain h1 tmp1 h2 buf2 where parts: "collect h tmp e = Inr (h1, tmp1)"
    "load h1 (buffptr e) (int (unat (bsize e - 1))) 1 = Inr [newline]"
    "store_line h1 tmp1 buf = Inr (h2, buf2)"
    using h r e k fit by (rule add_line_parts)
  have len: "bs \<noteq> []" "length (pending l) + length bs \<le> KMALLOC_MAX_SIZE" using fit(1) by (simp_all add: fits_def)
  have "bsize tmp1 = of_nat (length (pending l) + length bs)"
    using collect_hfail [OF parts(1)] e(2) r by (simp add: cb_repr_def tmp_repr_def)
  then have "unat (bsize tmp1) = length (pending l) + length bs"
    using len(2) by (simp only: unat_of_nat64 KMALLOC_MAX_SIZE_def)
  then obtain b where b: "buffptr tmp1 = Blk b" using collect_pointer [OF parts(1)] len(1) by auto
  then show ?thesis
    using run parts kfree_freed [of h2 b h']
    by (auto simp: add_entry_parts commit_line_parts aesd_init_entry_def bnd_eq_Inr_iff)
qed

text \<open>User memory that behaves, of which a call takes the first bytes only.\<close>

lemma enter_write_user:
  assumes "user_ok ua" and bs: "bs \<noteq> []" "length bs \<le> KMALLOC_MAX_SIZE"
  shows "enter_write s ua (bs @ z) (of_nat (length bs)) = enter_write s user_fine bs (of_nat (length bs))"
proof -
  let ?n = "of_nat (length bs) :: u64"
  have un: "unat ?n = length bs" using bs(2) by (simp add: KMALLOC_MAX_SIZE_def)
  have pos: "0 < length bs" using bs(1) by simp
  with un have "?n \<noteq> 0" by auto
  then have "unat (?n - 1) = length bs - 1" using un by (simp add: unat_minus_one)
  with pos have "unat (?n - 1) < length bs" by linarith
  then have ur: "user_read v (bs @ y) (?n - 1) = Inr (bs ! unat (?n - 1))" if "direct_ok v" for v y
    using that by (simp add: user_read_def nth_append trans_less_add1)
  have cp: "copy_from_user v g p (bs @ y) (length bs) = bnd (store g p 0 bs) (\<lambda>h. Inr (h, False))" if "copy_ok v" for v g p y
    using that by (simp add: copy_from_user_def)
  have v: "direct_ok ua" "access_ok ua" "copy_ok ua" "direct_ok user_fine" "access_ok user_fine" "copy_ok user_fine"
    using assms(1) by (simp_all add: user_ok_def user_fine_def)
  show ?thesis
    using ur [OF v(1), of z] ur [OF v(4), of "[]"] cp [OF v(3), of _ _ z] cp [OF v(6), where y = "[]"] un v(2,5)
    by (simp add: enter_write_def cong: if_cong)
qed

text \<open>After a write that completes a line the static \<^verbatim>\<open>tmp_entry\<close> points to a block that was released.\<close>

lemma write_dangling:
  assumes "drv_repr s l" and "opened filp" and "user_ok ua" and "fits l bs" and "last bs = newline"
    and "aesd_write s filp ua bs (of_nat (length bs)) = Inr (s', r)"
  shows "\<exists>b. buffptr (tmp_entry s') = Blk b \<and> freed (heap s') b"
proof -
  obtain m d js where h: "heap_is (heap s) m (census 1 l)" and cb: "cb_repr m (tmp_entry s) (ring s) l"
    using assms(1) by (rule drv_reprE)
  have bs: "bs \<noteq> []" "length bs \<le> KMALLOC_MAX_SIZE" using assms(4) by (simp_all add: fits_def)
  obtain h1 k where w: "enter_write s user_fine bs (of_nat (length bs)) =
      Inr (s\<lparr>heap := h1\<rparr>, Inr (start_writer \<lparr>buffptr = Blk k, bsize = of_nat (length bs)\<rparr>))"
    "m k = None" "heap_is h1 (m(k \<mapsto> bs)) (Suc (census 1 l))"
    using h bs by (rule enter_write_ok)
  let ?e = "\<lparr>buffptr = Blk k, bsize = of_nat (length bs)\<rparr>"
  have free: "\<not> cb_owned (tmp_entry s) (ring s) l k" using cb_owned_live [OF cb] w(2) by blast
  obtain h2 tmp buf h3 where run: "aesd_circular_buffer_add_entry h1 (tmp_entry s) (ring s) ?e = Inr (h2, tmp, buf)"
      "kfree h2 (Blk k) = Inr h3" and s': "s' = put_buffer buf (s\<lparr>heap := h3, tmp_entry := tmp\<rparr>)"
    using assms(6) w(1) enter_write_user [OF assms(3) bs, of s "[]"] unfolding aesd_write_enters [OF assms(1,2)]
    by (auto simp: start_writer_def bnd_eq_Inr_iff)
  have "heap_is h1 (m(k \<mapsto> bs)) (census 2 l)" using w(3) by (simp add: census_def)
  from add_line_dangling [OF this cb_repr_frame [OF cb free] _ _ _ free assms(4,5) run(1)]
  obtain b where "buffptr tmp = Blk b" "freed h2 b" by auto
  with freed_kfree [OF run(2)] show ?thesis by (simp add: s' put_buffer_def)
qed

text \<open>A call that collects bytes on a represented state.\<close>

lemma collect_ok:
  assumes h: "heap_is h m k" and t: "tmp_repr m tmp es (pending l)" and fit: "fits l bs"
    and e: "buffptr e = Blk a" "bsize e = of_nat (length bs)" "m a = Some bs"
  obtains t' h' where "collect h tmp e = Inr (h', \<lparr>buffptr = Blk t', bsize = bsize tmp + bsize e\<rparr>)"
    "m t' = None" "heap_is h' (m(t' \<mapsto> pending l @ bs)) (Suc k)"
proof -
  have f: "bs \<noteq> []" "length (pending l) + length bs \<le> KMALLOC_MAX_SIZE" using fit by (simp_all add: fits_def)
  have "length bs \<le> KMALLOC_MAX_SIZE" using f(2) by simp
  then have "unat (bsize e) = length bs" by (simp add: e(2) KMALLOC_MAX_SIZE_def)
  with collect_bytes [OF h t e(3) f, of "bsize tmp + bsize e"] e(1,2) show ?thesis
    by (auto simp: collect_def intro: that)
qed

section \<open>Text\<close>

lemma trace_live: "blk h b = Some bs \<Longrightarrow> trace_string h (Blk b) = (if nul \<in> set bs then Inr () else Inl OutOfBounds)"
  by (auto simp: trace_string_def strlen_def blk_def split: if_split_asm block.splits)

lemma trace_fault: "trace_string h p = Inl e \<Longrightarrow> e \<in> {UseAfterFree, OutOfBounds}"
  by (auto simp: trace_string_def strlen_def split: kptr.splits if_split_asm block.splits)

lemma add_entry_traced_parts:
  "add_entry_traced h tmp buf e =
     bnd (trace_string h (buffptr tmp)) (\<lambda>_.
     bnd (collect h tmp e) (\<lambda>(h, tmp).
     bnd (trace_string h (buffptr e)) (\<lambda>_.
     bnd (trace_string h (buffptr tmp)) (\<lambda>_.
     bnd (load h (buffptr e) (int (unat (bsize e - 1))) 1) (\<lambda>last_char.
     bnd (trace_char (hd last_char)) (\<lambda>_.
     if last_char = [newline] then commit_line_traced h tmp buf else Inr (h, tmp, buf)))))))"
proof -
  obtain q n where "tmp = \<lparr>buffptr = q, bsize = n\<rparr>" by (cases tmp)
  then show ?thesis
    by (cases "kmalloc h (n + bsize e)")
      (simp add: add_entry_traced_def collect_def Let_def bnd_assoc case_prod_unfold cong: if_cong)
qed

lemma write_traced_enters:
  assumes r: "drv_repr s l" and f: "opened filp" and u: "user_ok ua"
    and bs: "bs \<noteq> []" "length bs \<le> KMALLOC_MAX_SIZE" and z: "nul \<in> set (bs @ z)"
  shows "write_traced s filp ua (bs @ z) (of_nat (length bs)) =
    bnd (enter_write s user_fine bs (of_nat (length bs))) (\<lambda>(s, r).
    case r of
      Inl ret \<Rightarrow> Inr (s, ret)
    | Inr w \<Rightarrow>
        bnd (add_entry_traced (heap s) (tmp_entry s) (ring s) (w_arg w)) (\<lambda>(h, tmp, buf).
        bnd (kfree h (buffptr (w_arg w))) (\<lambda>h.
        Inr (put_buffer buf (s\<lparr>heap := h, tmp_entry := tmp\<rparr>), of_nat (length bs)))))"
proof -
  let ?n = "of_nat (length bs) :: u64"
  obtain p h where k: "kmalloc (heap s) ?n = (p, h)" by (cases "kmalloc (heap s) ?n")
  have "trace_user ua (bs @ z) = Inr ()" using u z by (simp add: trace_user_def user_ok_def)
  then show ?thesis
    using f drv_repr_buffer [OF r] deref_buffer_ok [OF r] k
    unfolding enter_write_user [OF u bs, of s z, symmetric]
    by (simp add: write_traced_def enter_write_def opened_def
        start_writer_def put_buffer_def bnd_assoc case_prod_unfold if_distrib [where f = "\<lambda>x. bnd x g" for g] cong: if_cong)
qed

text \<open>
  C9: no text can be written to the driver as it is compiled without reading memory that is not its
  own. In every state of a loaded module, a write of bytes without a zero, which is what text is, prints
  the kernel's copy of them as a string; the copy is as long as the text, so the message reads behind
  the block, if an earlier message has not read a block that was released.
\<close>

theorem text_overruns_the_trace:
  assumes "drv_repr s l" and "opened filp" and "user_ok ua" and "fits l bs" and "nul \<notin> set bs" and "nul \<in> set z"
  shows "write_traced s filp ua (bs @ z) (of_nat (length bs)) \<in> {Inl UseAfterFree, Inl OutOfBounds}"
proof -
  obtain m d js where h: "heap_is (heap s) m (census 1 l)" and cb: "cb_repr m (tmp_entry s) (ring s) l"
    using assms(1) by (rule drv_reprE)
  have bs: "bs \<noteq> []" "length bs \<le> KMALLOC_MAX_SIZE" using assms(4) by (simp_all add: fits_def)
  obtain h1 k where w: "enter_write s user_fine bs (of_nat (length bs)) =
      Inr (s\<lparr>heap := h1\<rparr>, Inr (start_writer \<lparr>buffptr = Blk k, bsize = of_nat (length bs)\<rparr>))"
    "m k = None" "heap_is h1 (m(k \<mapsto> bs)) (Suc (census 1 l))"
    using h bs by (rule enter_write_ok)
  let ?e = "\<lparr>buffptr = Blk k, bsize = of_nat (length bs)\<rparr> :: aesd_buffer_entry"
  have "\<not> cb_owned (tmp_entry s) (ring s) l k" using cb_owned_live [OF cb] w(2) by blast
  then have t: "tmp_repr (m(k \<mapsto> bs)) (tmp_entry s) (entry (ring s)) (pending l)"
    using cb_repr_frame [OF cb] by (simp add: cb_repr_def)
  obtain t' h2 where c: "collect h1 (tmp_entry s) ?e = Inr (h2, \<lparr>buffptr = Blk t', bsize = bsize (tmp_entry s) + bsize ?e\<rparr>)"
    "(m(k \<mapsto> bs)) t' = None" "heap_is h2 (m(k \<mapsto> bs, t' \<mapsto> pending l @ bs)) (Suc (Suc (census 1 l)))"
    by (rule collect_ok [OF w(3) t assms(4), of ?e k]) simp_all
  have "blk h2 k = Some bs" using c(2,3) by (auto simp: heap_is_def)
  then have "trace_string h2 (Blk k) = Inl OutOfBounds" using assms(5) by (simp add: trace_live)
  then have "add_entry_traced h1 (tmp_entry s) (ring s) ?e \<in> {Inl UseAfterFree, Inl OutOfBounds}"
    using c(1) trace_fault [of h1 "buffptr (tmp_entry s)"]
    by (cases "trace_string h1 (buffptr (tmp_entry s))") (auto simp: add_entry_traced_parts)
  then show ?thesis
    using write_traced_enters [OF assms(1-3) bs, of z] assms(6) w(1) by (auto simp: start_writer_def)
qed

lemma text_overruns_the_trace_witness:
  "\<exists>s. load_and_write (empty_heap (\<lambda>_ _. nul)) 0 two_lines = Inr s \<and>
     write_traced s fresh_file user_fine (x_line @ [nul]) 2 \<in> {Inl UseAfterFree, Inl OutOfBounds}"
proof -
  obtain s where s: "load_and_write (empty_heap (\<lambda>_ _. nul)) 0 two_lines = Inr s"
    "drv_repr s (log_of two_lines)"
    using two_lines_loaded by blast
  have "nul \<notin> set x_line" "length x_line = 2" by code_simp+
  with text_overruns_the_trace [OF s(2) fresh_file_opened user_fine_ok(1) x_y_fit(1), of "[nul]"] s(1) show ?thesis by auto
qed

section \<open>The driver takes one line\<close>

lemma trace_copy:
  assumes k: "kmalloc h n = (p, h1)" and c: "memcpy h1 p 0 (Blk q) 0 (unat n) = Inr h2"
    and q: "blk h q = Some xs" "unat n = length xs" "nul \<in> set xs"
  shows "trace_string h2 p = Inr ()"
proof (cases p)
  case (Blk b)
  obtain ys where h1: "blocks h1 = blocks h @ [Live ys]" "b = length (blocks h)" "length ys = unat n"
    using k Blk by (auto simp: kmalloc_def Let_def split: if_splits)
  have "q < length (blocks h)" "blocks h ! q = Live xs" using blk_SomeD [OF q(1)] by simp_all
  then have "load h1 (Blk q) 0 (unat n) = Inr xs" using h1(1) q(2,3) by (auto simp: load_def nth_append)
  then have "store h1 (Blk b) 0 xs = Inr h2" using c Blk by (simp add: memcpy_def)
  then have "blocks h2 = (blocks h1)[b := Live xs]"
    using h1 q(2,3) by (auto simp: store_def patch_all split: if_splits)
  then show ?thesis using Blk h1 q(3) by (simp add: trace_string_def strlen_def)
qed (simp_all add: trace_string_def)

lemma commit_line_with_zero:
  assumes "blk h q = Some xs" and "nul \<in> set xs" and "buffptr tmp = Blk q" and "unat (bsize tmp) = length xs"
    and "\<not> owned (entry buf) q"
  shows "commit_line_traced h tmp buf = commit_line h tmp buf"
proof -
  let ?p = "buffptr (entry buf ! unat (ucast (w_abs buf mod 10) :: u8))"
  have "?p \<noteq> Blk q" using assms(5) slot_in_array [of "w_abs buf"] by (auto simp: owned_def)
  then have live: "blk h1 q = Some xs" if "(if ?p \<noteq> NULL then kfree h ?p else Inr h) = Inr h1" for h1
    using that assms(1) by (auto simp: kfree_def blk_def nth_list_update split: if_splits kptr.splits block.splits)
  have "trace_string h3 p = Inr ()" if "(if ?p \<noteq> NULL then kfree h ?p else Inr h) = Inr h1"
    "kmalloc h1 (bsize tmp) = (p, h2)" "memcpy h2 p 0 (buffptr tmp) 0 (unat (bsize tmp)) = Inr h3" for h1 h2 h3 p
    using trace_copy [OF that(2), of q h3 xs] that(3) live [OF that(1)] assms(2-4) by simp
  then show ?thesis
    unfolding commit_line_traced_def commit_line_def Let_def
    by (intro bnd_cong refl) (auto split: prod.splits intro!: bnd_cong)
qed

text \<open>A line with a zero in it, written while \<^verbatim>\<open>tmp_entry\<close> has no pointer yet, is printed within its blocks.\<close>

lemma line_with_zero:
  assumes "drv_repr s l" and "opened filp" and "user_ok ua" and "fits l bs" and "nul \<in> set bs" and "last bs = newline"
    and "buffptr (tmp_entry s) = NULL"
  shows "write_traced s filp ua bs (of_nat (length bs)) = aesd_write s filp ua bs (of_nat (length bs))"
proof -
  obtain m d js where h: "heap_is (heap s) m (census 1 l)" and cb: "cb_repr m (tmp_entry s) (ring s) l"
    using assms(1) by (rule drv_reprE)
  have bs: "bs \<noteq> []" "length bs \<le> KMALLOC_MAX_SIZE" "length (pending l @ bs) \<le> KMALLOC_MAX_SIZE"
    using assms(4) by (simp_all add: fits_def)
  obtain h1 k where w: "enter_write s user_fine bs (of_nat (length bs)) =
      Inr (s\<lparr>heap := h1\<rparr>, Inr (start_writer \<lparr>buffptr = Blk k, bsize = of_nat (length bs)\<rparr>))"
    "m k = None" "heap_is h1 (m(k \<mapsto> bs)) (Suc (census 1 l))"
    using h bs(1,2) by (rule enter_write_ok)
  let ?e = "\<lparr>buffptr = Blk k, bsize = of_nat (length bs)\<rparr> :: aesd_buffer_entry"
  have free: "\<not> cb_owned (tmp_entry s) (ring s) l k" using cb_owned_live [OF cb] w(2) by blast
  have cb1: "cb_repr (m(k \<mapsto> bs)) (tmp_entry s) (ring s) l" using cb_repr_frame [OF cb free] .
  then have t: "tmp_repr (m(k \<mapsto> bs)) (tmp_entry s) (entry (ring s)) (pending l)" by (simp add: cb_repr_def)
  obtain t' h2 where c: "collect h1 (tmp_entry s) ?e = Inr (h2, \<lparr>buffptr = Blk t', bsize = bsize (tmp_entry s) + bsize ?e\<rparr>)"
    "(m(k \<mapsto> bs)) t' = None" "heap_is h2 (m(k \<mapsto> bs, t' \<mapsto> pending l @ bs)) (Suc (Suc (census 1 l)))"
    by (rule collect_ok [OF w(3) t assms(4), of ?e k]) simp_all
  let ?tmp = "\<lparr>buffptr = Blk t', bsize = bsize (tmp_entry s) + bsize ?e\<rparr>"
  have live: "blk h2 k = Some bs" "blk h2 t' = Some (pending l @ bs)" using c(2,3) by (auto simp: heap_is_def)
  have "bsize ?tmp = of_nat (length (pending l @ bs))" using t by (simp add: tmp_repr_def)
  then have "unat (bsize ?tmp) = length (pending l @ bs)"
    using bs(3) by (simp only: unat_of_nat64 KMALLOC_MAX_SIZE_def)
  moreover have "\<not> owned (entry (ring s)) t'" using cb_owned_live [OF cb1, of t'] c(2) by (auto simp: cb_owned_def)
  ultimately have "commit_line_traced h2 ?tmp (ring s) = commit_line h2 ?tmp (ring s)"
    using live(2) assms(5) by (intro commit_line_with_zero [where q = t' and xs = "pending l @ bs"]) simp_all
  moreover have "load h2 (Blk k) (int (unat (bsize ?e - 1))) 1 = Inr [newline]"
    using load_last [OF live(1) bs(1,2)] assms(6) by simp
  ultimately have "add_entry_traced h1 (tmp_entry s) (ring s) ?e = aesd_circular_buffer_add_entry h1 (tmp_entry s) (ring s) ?e"
    using live assms(5,7) c(1)
    by (simp add: add_entry_traced_parts add_entry_parts trace_live trace_string_def [of _ NULL])
  then show ?thesis
    using write_traced_enters [OF assms(1-3) bs(1,2), of "[]"] aesd_write_enters [OF assms(1,2)] assms(5) w(1)
      enter_write_user [OF assms(3) bs(1,2), of s "[]"]
    by (simp add: start_writer_def)
qed

text \<open>A writer that enters finds the released block as it was.\<close>

lemma enter_write_freed:
  assumes "enter_write s ua ubuf n = Inr (s', Inr w)" and "freed (heap s) b"
  shows "freed (heap s') b \<and> tmp_entry s' = tmp_entry s"
proof -
  obtain p h1 where k: "kmalloc (heap s) n = (p, h1)" by (cases "kmalloc (heap s) n")
  then have "freed h1 b" using freed_kmalloc [OF assms(2), of n] by simp
  with assms(1) k show ?thesis
    by (auto simp: enter_write_def copy_from_user_def bnd_eq_Inr_iff dest: freed_memset freed_store split: if_splits)
qed

text \<open>
  C8: the driver as it is compiled takes one line, and that only with a zero in it. In a loaded module in
  whose \<^verbatim>\<open>tmp_entry\<close> no pointer was stored before, a write that completes a line containing a zero does
  with the messages exactly what it does without them: it returns its count and appends the line. After
  it every write, whatever its bytes are, makes the first message of
  \<^verbatim>\<open>aesd_circular_buffer_add_entry\<close> read the block that \<^verbatim>\<open>aesd_init_entry\<close> has released.
\<close>

theorem messages_allow_one_line:
  assumes "drv_repr s l" and "opened filp" and "user_ok ua" and "fits l bs" and "nul \<in> set bs" and "last bs = newline"
    and "buffptr (tmp_entry s) = NULL"
    and "cs \<noteq> []" and "length cs \<le> KMALLOC_MAX_SIZE" and "nul \<in> set (cs @ z)"
  shows "\<exists>s'. write_traced s filp ua bs (of_nat (length bs)) = Inr (s', of_nat (length bs)) \<and>
    aesd_write s filp ua bs (of_nat (length bs)) = Inr (s', of_nat (length bs)) \<and> drv_repr s' (log_add l bs) \<and>
    write_traced s' filp ua (cs @ z) (of_nat (length cs)) = Inl UseAfterFree"
proof -
  obtain s' where s': "aesd_write s filp ua bs (of_nat (length bs)) = Inr (s', of_nat (length bs))" "drv_repr s' (log_add l bs)"
    using aesd_write_appends [OF assms(1-4)] by blast
  obtain b where b: "buffptr (tmp_entry s') = Blk b" "freed (heap s') b"
    using write_dangling [OF assms(1-4,6) s'(1)] by blast
  obtain m where h: "heap_is (heap s') m (census 1 (log_add l bs))" using s'(2) by (rule drv_reprE)
  obtain h1 k where w: "enter_write s' user_fine cs (of_nat (length cs)) =
      Inr (s'\<lparr>heap := h1\<rparr>, Inr (start_writer \<lparr>buffptr = Blk k, bsize = of_nat (length cs)\<rparr>))"
    using h assms(8,9) by (rule enter_write_ok)
  from enter_write_freed [OF w b(2)] have "freed h1 b" by simp
  then have "add_entry_traced h1 (tmp_entry s') (ring s') e = Inl UseAfterFree" for e
    by (simp add: add_entry_traced_parts b(1) trace_freed)
  then have "write_traced s' filp ua (cs @ z) (of_nat (length cs)) = Inl UseAfterFree"
    using write_traced_enters [OF s'(2) assms(2,3,8-10)] w by simp
  with s' line_with_zero [OF assms(1-7)] show ?thesis by simp
qed

text \<open>A module that has just been loaded; the line is a zero and a newline, then a text is written.\<close>

lemma messages_allow_one_line_witness:
  "\<exists>s s'. aesd_init_module (module_boot (empty_heap (\<lambda>_ _. nul))) 0 0x0FC00000 0 = Inr (s, 0) \<and>
     write_traced s fresh_file user_fine [nul, newline] 2 = Inr (s', 2) \<and>
     write_traced s' fresh_file user_fine (x_line @ [nul]) 2 = Inl UseAfterFree"
proof -
  obtain s where s: "aesd_init_module (module_boot (empty_heap (\<lambda>_ _. nul))) 0 0x0FC00000 0 = Inr (s, 0)"
    "drv_repr s empty_log"
    using aesd_init_module_ok [OF empty_heap_is, of 0 "\<lambda>_ _. nul" "0x0FC00000"] by auto
  have "buffptr (tmp_entry s) = NULL"
    using s(1) by (auto simp: aesd_init_module_def aesd_circular_buffer_init_def aesd_setup_cdev_def aesd_init_entry_def
        zero_entry_def put_buffer_def module_boot_def Let_def bnd_eq_Inr_iff split: prod.splits if_splits)
  moreover have "fits empty_log [nul, newline]" by (simp add: fits_def empty_log_def KMALLOC_MAX_SIZE_def)
  moreover have "length x_line \<le> KMALLOC_MAX_SIZE" by (simp add: KMALLOC_MAX_SIZE_def)
  ultimately show ?thesis
    using s(1) messages_allow_one_line [OF s(2) fresh_file_opened user_fine_ok(1), of "[nul, newline]" x_line "[nul]"]
    by auto
qed

end
