(* ===== verification/Reader_Overlap.thy ===== *)
theory Reader_Overlap
  imports Driver_Tracing
begin

text \<open>
  A reader that overlaps with a writer. \<^verbatim>\<open>aesd_read\<close> takes the mutex no more than \<^verbatim>\<open>aesd_write\<close>
  does, so it can run while \<^verbatim>\<open>aesd_circular_buffer_add_entry\<close> has released the oldest line and not
  yet stored the new one in its slot.
\<close>

section \<open>Freed blocks stay freed\<close>

lemma load_freed: "freed h b \<Longrightarrow> 0 < n \<Longrightarrow> load h (Blk b) off n = Inl UseAfterFree"
  by (simp add: load_def freed_def)

section \<open>The oldest line is gone\<close>

text \<open>The slot that the next line goes to is the one of the oldest line.\<close>

lemma oldest_slot:
  assumes "10 \<le> length ls" and "length ls < 4294967296"
  shows "unat (ucast (of_nat (length ls) mod 10 :: u32) :: u8) = length ls mod 10"
    and "(length ls - 10) mod 10 = length ls mod 10"
proof -
  have "unat (of_nat (length ls) mod 10 :: u32) = length ls mod 10"
    using assms(2) by (simp add: unat_mod unat_of_nat_small)
  moreover have "length ls mod 10 < 256" by (rule less_trans [of _ 10]) simp_all
  ultimately show "unat (ucast (of_nat (length ls) mod 10 :: u32) :: u8) = length ls mod 10"
    by (simp add: unsigned_ucast_eq take_bit_nat_def)
  have "(length ls - 10 + 10) mod 10 = (length ls - 10) mod 10" by (rule mod_add_self2)
  then show "(length ls - 10) mod 10 = length ls mod 10" using assms(1) by simp
qed

text \<open>A position at the start of the ring is the first byte of the oldest line.\<close>

lemma found_oldest:
  assumes ring: "ring_repr m buf ls" and "10 \<le> length ls"
  shows "found ls 0 = (of_nat (length ls - 10), Some (of_nat 0))"
proof -
  have "line_ok (slot_order ls ! 0)"
    by (rule slot_order_lines [OF ring]) (use assms(2) in simp)
  moreover obtain x xs where "slot_order ls = x # xs"
    using assms(2) length_slot_order [of ls] by (cases "slot_order ls") auto
  ultimately show ?thesis
    using assms(2) by (simp add: found_def line_ok_def del: length_slot_order)
qed

lemma raed_body_freed:
  assumes ring: "ring_repr m (rl_buf st) ls" and n: "length ls < 2147483648"
    and i: "startp st = of_nat i" "i < length ls" "length ls \<le> i + 10"
    and b: "buffptr (entry (rl_buf st) ! (i mod 10)) = Blk b" "freed (rl_heap st) b"
    and rl: "read_len st = 0" "0 < L" "L \<le> KMALLOC_MAX_SIZE"
  shows "raed_body p 0 (of_nat 0) (of_nat L) st = Inl UseAfterFree"
proof -
  let ?line = "ls ! i" and ?e = "entry (rl_buf st) ! (i mod 10)"
  have sz: "bsize ?e = of_nat (length ?line)"
    by (rule slots_reprD(2) [where m = m, OF _ i(2,3)]) (use ring in \<open>simp add: ring_repr_def\<close>)
  have ll: "?line \<noteq> []" "length ?line \<le> KMALLOC_MAX_SIZE"
    using ring i(2) by (auto simp: ring_repr_def line_ok_def)
  have e: "entry_at (rl_buf st) (unat (ring_index (startp st))) = Inr ?e"
    using ring_index_of_nat i(1,2) n by (simp add: entry_at_def)
  have cp: "(if of_nat L \<le> read_len st + of_nat (length ?line) then of_nat L - read_len st else of_nat (length ?line)) =
      (of_nat (min (length ?line) L) :: u64)"
    using copy_len_min [OF le0 rl(3) ll(2)] by (simp only: rl(1) semiring_1_class.of_nat_0 diff_zero)
  have o32: "(if is_first_entry st then ucast (of_nat 0 :: u64) else 0) = (0 :: s32)" by simp
  have rem: "ucast (bsize ?e - scast (0 :: s32)) = (of_nat (length ?line) :: s32)" by (simp add: sz)
  have x64: "scast (of_nat (length ?line) :: s32) = (of_nat (length ?line) :: u64)"
    using ll(2) by (simp add: scast_of_nat_32_64 KMALLOC_MAX_SIZE_def)
  have "unat (of_nat (min (length ?line) L) :: u64) = min (length ?line) L"
    by (rule unat_of_nat64) (use rl(3) in \<open>simp add: KMALLOC_MAX_SIZE_def\<close>)
  then have cpy: "memcpy (rl_heap st) p q (Blk b) off (unat (of_nat (min (length ?line) L) :: u64)) = Inl UseAfterFree" for q off
    using ll(1) rl(2) by (simp add: memcpy_def load_freed [OF b(2)])
  have nb: "(Blk b = NULL) = False" by simp
  show ?thesis
    by (simp only: raed_body_def Let_def e bnd.simps o32 rem x64 b(1) nb if_False cp cpy)
qed

lemma raed_meets_freed:
  assumes ring: "ring_repr m buf ls" and n: "10 \<le> length ls" "length ls < 2147483648"
    and b: "buffptr (entry buf ! (length ls mod 10)) = Blk b" "freed h b"
    and r: "strlen h r = Inr 0" and L: "0 < L" "L \<le> KMALLOC_MAX_SIZE"
    and pos: "fp = of_nat (unat (start_char_abs buf))"
      "unat (start_char_abs buf) \<le> unat (w_char_abs buf)"
  shows "aesd_circular_buffer_raed h buf r (of_nat L) fp = Inl UseAfterFree"
proof -
  let ?i = "length ls - 10" and ?buf = "buf\<lparr>out_offs := ucast (of_nat (length ls - 10) :: s32)\<rparr>"
  have pos0: "fp = of_nat (unat (start_char_abs buf) + 0)"
    "unat (start_char_abs buf) + 0 \<le> unat (w_char_abs buf)" using pos by simp_all
  note start = raed_start [OF ring n(2) pos0, unfolded found_oldest [OF ring n(1)]]
  define st where "st = \<lparr>rl_heap = h, rl_buf = ?buf, startp = of_nat ?i, read_len = 0, is_first_entry = True\<rparr>"
  have w: "w_abs buf = of_nat (length ls)" using ring by (simp add: ring_repr_def offsets_repr_def)
  have ne: "(of_nat ?i :: u32) = w_abs buf \<longleftrightarrow> False"
    unfolding w using of_nat_eq_u32 [of ?i "length ls"] n by simp
  have "sint (of_nat ?i :: s32) = int ?i" by (rule sint_of_nat_32) (use n(2) in linarith)
  then have nn: "sint (of_nat ?i :: s32) < 0 \<longleftrightarrow> False" by (simp only: of_nat_less_0_iff)
  have "same_ring buf ?buf" by simp
  then have ring': "ring_repr m ?buf ls" using ring by (simp only: ring_repr_same)
  have "raed_body r 0 (of_nat 0) (of_nat L) st = Inl UseAfterFree"
    by (rule raed_body_freed [where i = ?i and b = b and ls = ls and m = m])
      (use ring' n L b oldest_slot(2) [of ls] in \<open>simp_all add: st_def\<close>)
  then have "raed_loop r 0 (of_nat 0) (of_nat L) st = Inl UseAfterFree"
    by (subst raed_loop.simps) simp
  then show ?thesis
    by (simp only: aesd_circular_buffer_raed_def start(1) if_False start(2) bnd.simps prod.case nn Let_def
        r option.case st_def [symmetric]) (simp add: ne st_def)
qed

section \<open>Between two statements of the writer\<close>

text \<open>The module as other calls see it while a writer is under way.\<close>

definition put_shared :: "shared \<Rightarrow> driver \<Rightarrow> driver" where
  "put_shared sh s = put_buffer (sh_buf sh) (s\<lparr>heap := sh_heap sh, tmp_entry := sh_tmp sh\<rparr>)"

lemma put_shared_simps [simp]:
  "heap (put_shared sh s) = sh_heap sh" "ring (put_shared sh s) = sh_buf sh"
  "buffer (aesd_device (put_shared sh s)) = buffer (aesd_device s)"
  by (simp_all add: put_shared_def put_buffer_def)

text \<open>After eleven statements the oldest line is released, and its slot still points to it.\<close>

lemma run_to_release:
  assumes h: "heap_is (sh_heap sh) m k" and cb: "cb_repr m (sh_tmp sh) (sh_buf sh) l"
    and pc: "w_pc w = ReadOld" and fit: "fits l bs" "last bs = newline" and n: "10 \<le> length (lines l)"
    and e: "buffptr (w_arg w) = Blk a" "bsize (w_arg w) = of_nat (length bs)" "m a = Some bs"
  obtains w' h' tmp b x m' where "run_alone 11 w sh = Inr (w', sh\<lparr>sh_heap := h', sh_tmp := tmp\<rparr>)"
    "w_pc w' = AllocLine" "buffptr (entry (sh_buf sh) ! (length (lines l) mod 10)) = Blk b"
    "freed h' b" "heap_is h' m' k" "\<And>d js. m d = Some js \<Longrightarrow> d \<noteq> b \<Longrightarrow> m' d = Some js"
proof -
  let ?ls = "lines l" and ?buf = "sh_buf sh" and ?e = "w_arg w"
  have ring: "ring_repr m ?buf ?ls" and t: "tmp_repr m (sh_tmp sh) (entry ?buf) (pending l)"
    using cb by (simp_all add: cb_repr_def)
  obtain t' h1 where c: "collect (sh_heap sh) (sh_tmp sh) ?e = Inr (h1, \<lparr>buffptr = Blk t', bsize = bsize (sh_tmp sh) + bsize ?e\<rparr>)"
    "m t' = None" "heap_is h1 (m(t' \<mapsto> pending l @ bs)) (Suc k)"
    using collect_ok [OF h t fit(1) e] .
  let ?tmp = "\<lparr>buffptr = Blk t', bsize = bsize (sh_tmp sh) + bsize ?e\<rparr>" and ?m = "m(t' \<mapsto> pending l @ bs)"
  have bs: "bs \<noteq> []" "length bs \<le> KMALLOC_MAX_SIZE" using fit(1) by (simp_all add: fits_def)
  have "a \<noteq> t'" using e(3) c(2) by auto
  then have "blk h1 a = Some bs" using c(3) e(3) by (simp add: heap_is_def)
  from load_last [OF this bs] have ld: "load h1 (buffptr ?e) (int (unat (bsize ?e - 1))) 1 = Inr [newline]"
    using e(1,2) fit(2) by simp
  have "length ?ls - 10 < length ?ls" "length ?ls \<le> length ?ls - 10 + 10" using n by linarith+
  from slots_reprD(1) [of m "entry ?buf" ?ls, OF _ this]
  obtain b where b: "buffptr (entry ?buf ! (length ?ls mod 10)) = Blk b" "m b = Some (?ls ! (length ?ls - 10))"
    using ring oldest_slot(2) [of ?ls] n fit(1) by (auto simp: ring_repr_def fits_def)
  then have "?m b = Some (?ls ! (length ?ls - 10))" using c(2) by auto
  from kh.dealloc [OF c(3) this]
  obtain h2 where f: "kfree h1 (Blk b) = Inr h2" "heap_is h2 (?m(b := None)) k"
    by (metis diff_Suc_1)
  have "w_abs ?buf = of_nat (length ?ls)" using ring by (simp add: ring_repr_def offsets_repr_def)
  then have slot: "unat (ucast (w_abs ?buf mod 10) :: u8) = length ?ls mod 10"
    using oldest_slot(1) [of ?ls] n fit(1) by (simp add: fits_def)
  have four: "run_alone 4 v z = bnd (add_step v z) (\<lambda>(w, sh). bnd (add_step w sh) (\<lambda>(w, sh).
      bnd (add_step w sh) (\<lambda>(w, sh). add_step w sh)))" for v z
    by (simp add: numeral_eq_Suc case_prod_unfold)
  have "run_alone 11 w sh = bnd (run_alone 7 w sh) (\<lambda>(w, sh). run_alone 4 w sh)"
    using run_alone_add [of 7 4] by simp
  also have "\<exists>w'. \<dots> = Inr (w', sh\<lparr>sh_heap := h2, sh_tmp := ?tmp\<rparr>) \<and> w_pc w' = AllocLine"
    by (simp add: run_collect [OF pc] c(1) four add_step_simps ld [simplified] slot b(1) f(1))
  finally obtain w' where "run_alone 11 w sh = Inr (w', sh\<lparr>sh_heap := h2, sh_tmp := ?tmp\<rparr>)" "w_pc w' = AllocLine"
    by blast
  moreover have "(?m(b := None)) d = Some js" if "m d = Some js" "d \<noteq> b" for d js
    using that c(2) by auto
  ultimately show ?thesis
    using b(1) kfree_freed [OF f(1)] f(2) by (intro that)
qed

text \<open>
  C21: a read in the middle of a write uses freed memory. In every state of a loaded module that keeps
  ten lines, a writer of one more line, after its eleventh statement, has released the oldest line; a
  reader at the first position of the ring, with a buffer of any size that is served otherwise, copies
  from the released block.
\<close>

theorem reader_meets_writer:
  assumes "drv_repr s l" and "10 \<le> length (lines l)" and "length (lines l) < 2147483648"
    and "end_pos (lines l) < 4294967296" and "fits l a" and "last a = newline"
    and "opened filp" and "0 < n" and "n \<le> KMALLOC_MAX_SIZE"
  shows "\<exists>s1 w w' sh. enter_write s user_fine a (of_nat (length a)) = Inr (s1, Inr w) \<and> run_alone 11 w (shared_of s1) = Inr (w', sh) \<and>
    w_pc w' = AllocLine \<and>
    aesd_read (put_shared sh s1) filp ua (of_nat n) (of_nat (first_pos (lines l))) = Inl UseAfterFree"
proof -
  obtain m d js where h: "heap_is (heap s) m (census 1 l)" and d: "buffer (aesd_device s) = Blk d"
    "m d = Some js" "length js = 184" "\<not> cb_owned (tmp_entry s) (ring s) l d"
    and cb: "cb_repr m (tmp_entry s) (ring s) l"
    using assms(1) by (rule drv_reprE)
  have a: "a \<noteq> []" "length a \<le> KMALLOC_MAX_SIZE" using assms(5) by (simp_all add: fits_def)
  obtain h1 k where w: "enter_write s user_fine a (of_nat (length a)) =
      Inr (s\<lparr>heap := h1\<rparr>, Inr (start_writer \<lparr>buffptr = Blk k, bsize = of_nat (length a)\<rparr>))"
    "m k = None" "heap_is h1 (m(k \<mapsto> a)) (Suc (census 1 l))"
    using h a by (rule enter_write_ok)
  let ?s = "s\<lparr>heap := h1\<rparr>" and ?w = "start_writer \<lparr>buffptr = Blk k, bsize = of_nat (length a)\<rparr>"
  have "\<not> cb_owned (tmp_entry s) (ring s) l k" using cb_owned_live [OF cb] w(2) by blast
  then have cb': "cb_repr (m(k \<mapsto> a)) (tmp_entry s) (ring s) l" by (rule cb_repr_frame [OF cb])
  have sh: "heap_is (sh_heap (shared_of ?s)) (m(k \<mapsto> a)) (Suc (census 1 l))"
    "cb_repr (m(k \<mapsto> a)) (sh_tmp (shared_of ?s)) (sh_buf (shared_of ?s)) l"
    using w(3) cb' by (simp_all add: shared_of_def)
  obtain w' h2 tmp b m' where run: "run_alone 11 ?w (shared_of ?s) = Inr (w', (shared_of ?s)\<lparr>sh_heap := h2, sh_tmp := tmp\<rparr>)"
    "w_pc w' = AllocLine" and b: "buffptr (entry (ring s) ! (length (lines l) mod 10)) = Blk b" "freed h2 b"
    and h2: "heap_is h2 m' (Suc (census 1 l))" "\<And>d js. (m(k \<mapsto> a)) d = Some js \<Longrightarrow> d \<noteq> b \<Longrightarrow> m' d = Some js"
    by (rule run_to_release [OF sh _ assms(5,6,2), of ?w k]) (simp_all add: start_writer_def shared_of_def)
  let ?sh = "(shared_of ?s)\<lparr>sh_heap := h2, sh_tmp := tmp\<rparr>"
  have "d \<noteq> b"
    using b(1) d(4) by (auto simp: cb_owned_def owned_def)
  moreover have "d \<noteq> k" using d(2) w(2) by auto
  ultimately have "m' d = Some js" using h2(2) [of d js] d(2) by simp
  then have deref: "deref_buffer (put_shared ?sh ?s) = Inr (ring s)"
    using kh.rd_prefix [OF h2(1), of d js 184] d(1,3)
    by (simp add: deref_buffer_def sizeof_aesd_circular_buffer_def shared_of_def)
  have un: "unat (of_nat n :: u64) = n" using assms(9) by (simp add: KMALLOC_MAX_SIZE_def)
  obtain r h3 ks where r: "kmalloc h2 (of_nat n) = (Blk r, h3)" "length ks = n" "heap_is h3 (m'(r \<mapsto> ks)) (Suc (Suc (census 1 l)))"
    using kh.alloc [OF h2(1), of "of_nat n"] un assms(8,9) by auto
  obtain h4 where h4: "memset h3 (Blk r) nul n = Inr h4" "heap_is h4 (m'(r \<mapsto> replicate n nul)) (Suc (Suc (census 1 l)))"
    using memset_Blk [OF r(3), of r ks n nul] r(2) by auto
  have "freed h4 b" using freed_memset [OF h4(1)] freed_kmalloc [OF b(2), of "of_nat n"] r(1) by simp
  moreover have "strlen h4 (Blk r) = Inr 0"
    using h4(2) assms(8) by (intro strlen_Blk_0 [of _ _ "replicate (n - 1) nul"]) (cases n, auto simp: heap_is_def)
  moreover have "ring_repr m (ring s) (lines l)" using cb by (simp add: cb_repr_def)
  ultimately have "aesd_circular_buffer_raed h4 (ring s) (Blk r) (of_nat n) (of_nat (first_pos (lines l))) = Inl UseAfterFree"
    using assms(2,3,8,9) b(1) ring_positions [OF assms(1,4)] first_pos_le [of "lines l"]
    by (intro raed_meets_freed [where m = m and ls = "lines l" and b = b]) simp_all
  then have "aesd_read (put_shared ?sh ?s) filp ua (of_nat n) (of_nat (first_pos (lines l))) = Inl UseAfterFree"
    using assms(7) d(1) deref r(1) h4(1) un by (simp add: aesd_read_def opened_def)
  with w(1) run show ?thesis by blast
qed

section \<open>Example: ten lines are kept, an eleventh is written\<close>

lemma ten_lines_loaded:
  "\<exists>s. load_and_write (empty_heap (\<lambda>_ _. nul)) 0 (replicate 10 x_line) = Inr s \<and>
     drv_repr s (log_of (replicate 10 x_line))"
  by (rule load_and_write_lines) (simp add: whole_lines_def KMALLOC_MAX_SIZE_def)

lemma reader_meets_writer_witness:
  "\<exists>s s1 w w' sh. load_and_write (empty_heap (\<lambda>_ _. nul)) 0 (replicate 10 x_line) = Inr s \<and>
     enter_write s user_fine y_line (of_nat (length y_line)) = Inr (s1, Inr w) \<and> run_alone 11 w (shared_of s1) = Inr (w', sh) \<and>
     aesd_read (put_shared sh s1) fresh_file user_fine (of_nat 6) 0 = Inl UseAfterFree"
proof -
  obtain s where s: "load_and_write (empty_heap (\<lambda>_ _. nul)) 0 (replicate 10 x_line) = Inr s"
    "drv_repr s (log_of (replicate 10 x_line))"
    using ten_lines_loaded by blast
  have "end_pos (replicate 10 x_line) = 20" "first_pos (replicate 10 x_line) = 0"
    by (simp_all add: end_pos_def first_pos_def sum_list_replicate)
  with reader_meets_writer [OF s(2), of y_line fresh_file 6 user_fine] s(1) fresh_file_opened show ?thesis
    by (auto simp: fits_def KMALLOC_MAX_SIZE_def)
qed

end
