(* ===== verification/Serial_Writers.thy ===== *)
theory Serial_Writers
  imports Racing_Writers
begin

text \<open>
  Any number of writers that wait for each other, as they would if the mutex were taken: all have
  copied their bytes from their users, then they execute \<^verbatim>\<open>aesd_circular_buffer_add_entry\<close> one after
  the other, in any order.
\<close>

section \<open>Entering\<close>

text \<open>A call that returns an error before it comes to the ring does not take part.\<close>

primrec enter_all :: "driver \<Rightarrow> byte list list \<Rightarrow> fault + (driver \<times> writer list)" where
  "enter_all s [] = Inr (s, [])"
| "enter_all s (bs # bss) =
     bnd (enter_write s user_fine bs (of_nat (length bs))) (\<lambda>(s, r).
     bnd (enter_all s bss) (\<lambda>(s, ws). Inr (s, case r of Inl _ \<Rightarrow> ws | Inr w \<Rightarrow> w # ws)))"

text \<open>A writer about to add \<open>bs\<close>, with its copy of the bytes in a block of its own.\<close>

definition about_to_add ::
  "(nat \<Rightarrow> byte list option) \<Rightarrow> aesd_buffer_entry \<Rightarrow> aesd_circular_buffer \<Rightarrow> line_log \<Rightarrow> writer \<Rightarrow> byte list \<Rightarrow> bool" where
  "about_to_add m tmp buf l w bs \<longleftrightarrow> (\<exists>k. w = start_writer \<lparr>buffptr = Blk k, bsize = of_nat (length bs)\<rparr> \<and>
     m k = Some bs \<and> \<not> cb_owned tmp buf l k)"

lemma about_to_add_frame:
  assumes "about_to_add m tmp buf l w bs"
    and "\<And>b. m b \<noteq> None \<Longrightarrow> \<not> cb_owned tmp buf l b \<Longrightarrow> m' b = m b \<and> \<not> cb_owned tmp' buf' l' b"
  shows "about_to_add m' tmp' buf' l' w bs"
  using assms unfolding about_to_add_def by force

lemma enter_all_ok:
  assumes "heap_is (heap s) m (census base l)" and "cb_repr m (tmp_entry s) (ring s) l"
    and "\<forall>bs \<in> set bss. bs \<noteq> [] \<and> length bs \<le> KMALLOC_MAX_SIZE"
  shows "\<exists>h m' ws. enter_all s bss = Inr (s\<lparr>heap := h\<rparr>, ws) \<and>
    heap_is h m' (census (base + length bss) l) \<and> cb_repr m' (tmp_entry s) (ring s) l \<and>
    (\<forall>b. m b \<noteq> None \<longrightarrow> m' b = m b) \<and> list_all2 (about_to_add m' (tmp_entry s) (ring s) l) ws bss"
  using assms
proof (induction bss arbitrary: s m base)
  case Nil
  then show ?case by (intro exI [of _ "heap s"] exI [of _ m]) simp
next
  case (Cons bs bss)
  have bs: "bs \<noteq> []" "length bs \<le> KMALLOC_MAX_SIZE" using Cons.prems(3) by simp_all
  obtain h1 k where k: "enter_write s user_fine bs (of_nat (length bs)) =
      Inr (s\<lparr>heap := h1\<rparr>, Inr (start_writer \<lparr>buffptr = Blk k, bsize = of_nat (length bs)\<rparr>))"
    "m k = None" "heap_is h1 (m(k \<mapsto> bs)) (Suc (census base l))"
    using Cons.prems(1) bs by (rule enter_write_ok)
  have free: "\<not> cb_owned (tmp_entry s) (ring s) l k" using cb_owned_live [OF Cons.prems(2)] k(2) by blast
  have "heap_is (heap (s\<lparr>heap := h1\<rparr>)) (m(k \<mapsto> bs)) (census (Suc base) l)"
    using k(3) by (simp add: census_def)
  moreover have "cb_repr (m(k \<mapsto> bs)) (tmp_entry (s\<lparr>heap := h1\<rparr>)) (ring (s\<lparr>heap := h1\<rparr>)) l"
    using cb_repr_frame [OF Cons.prems(2) free] by simp
  ultimately obtain h m' ws where r: "enter_all (s\<lparr>heap := h1\<rparr>) bss = Inr (s\<lparr>heap := h1\<rparr>\<lparr>heap := h\<rparr>, ws)"
    "heap_is h m' (census (Suc base + length bss) l)" "cb_repr m' (tmp_entry s) (ring s) l"
    "\<forall>b. (m(k \<mapsto> bs)) b \<noteq> None \<longrightarrow> m' b = (m(k \<mapsto> bs)) b"
    "list_all2 (about_to_add m' (tmp_entry s) (ring s) l) ws bss"
    using Cons.IH [of "s\<lparr>heap := h1\<rparr>" "m(k \<mapsto> bs)" "Suc base"] Cons.prems(3) by (auto simp del: fun_upd_apply)
  have keep: "\<forall>b. m b \<noteq> None \<longrightarrow> m' b = m b"
  proof (intro allI impI)
    fix b assume "m b \<noteq> None"
    moreover from this have "b \<noteq> k" using k(2) by auto
    ultimately show "m' b = m b" using r(4) by simp
  qed
  have "m' k = Some bs" using r(4) by simp
  then have "about_to_add m' (tmp_entry s) (ring s) l (start_writer \<lparr>buffptr = Blk k, bsize = of_nat (length bs)\<rparr>) bs"
    using free by (auto simp: about_to_add_def)
  with k(1) r(1-3,5) keep show ?case
    by (intro exI [of _ h] exI [of _ m'] exI [of _ "start_writer \<lparr>buffptr = Blk k, bsize = of_nat (length bs)\<rparr> # ws"]) simp
qed

section \<open>One after the other\<close>

text \<open>One writer alone, on states that represent a log.\<close>

lemma alone_appends:
  assumes h: "heap_is (sh_heap sh) m (census base l)" and r: "cb_repr m (sh_tmp sh) (sh_buf sh) l"
    and w: "about_to_add m (sh_tmp sh) (sh_buf sh) l w bs" and fit: "fits l bs"
  obtains w' sh' m' where "run_alone 27 w sh = Inr (w', sh')" "w_pc w' = Done"
    "heap_is (sh_heap sh') m' (census base (log_add l bs))" "cb_repr m' (sh_tmp sh') (sh_buf sh') (log_add l bs)"
    "\<And>b. m b \<noteq> None \<Longrightarrow> \<not> cb_owned (sh_tmp sh) (sh_buf sh) l b \<Longrightarrow>
       m' b = m b \<and> \<not> cb_owned (sh_tmp sh') (sh_buf sh') (log_add l bs) b"
proof -
  obtain k where k: "w = start_writer \<lparr>buffptr = Blk k, bsize = of_nat (length bs)\<rparr>" "m k = Some bs"
    "\<not> cb_owned (sh_tmp sh) (sh_buf sh) l k"
    using w by (auto simp: about_to_add_def)
  obtain h' m' t' b' where a: "aesd_circular_buffer_add_entry (sh_heap sh) (sh_tmp sh) (sh_buf sh) (w_arg w) = Inr (h', t', b')"
    "heap_is h' m' (census base (log_add l bs))" "cb_repr m' t' b' (log_add l bs)"
    "\<forall>b. m b \<noteq> None \<and> \<not> cb_owned (sh_tmp sh) (sh_buf sh) l b \<longrightarrow> m' b = m b \<and> \<not> cb_owned t' b' (log_add l bs) b"
    using add_entry_refines [OF h r, of "w_arg w" k bs] k fit by (auto simp: start_writer_def)
  have "w_pc w = ReadOld" using k(1) by (simp add: start_writer_def)
  then obtain w' where "run_alone 27 w sh = Inr (w', \<lparr>sh_heap = h', sh_tmp = t', sh_buf = b'\<rparr>)" "w_pc w' = Done"
    using run_alone_add_entry [of w sh] slots_of_ring [OF r] a(1) by (auto simp: bnd_eq_Inr_iff)
  with a(2-4) show ?thesis by (intro that) auto
qed

lemma serial_run:
  assumes "heap_is (sh_heap sh) m (census base l)" and "cb_repr m (sh_tmp sh) (sh_buf sh) l"
    and "length ws = length bss" and "distinct order" and "set order \<subseteq> {..<length bss}"
    and "\<forall>i \<in> set order. about_to_add m (sh_tmp sh) (sh_buf sh) l (ws ! i) (bss ! i)"
    and "fit_all l (map ((!) bss) order)"
  shows "\<exists>ws' sh' m'. run_schedule (concat (map (replicate 27) order)) ws sh = Inr (ws', sh') \<and>
    length ws' = length ws \<and> (\<forall>i < length ws. if i \<in> set order then w_pc (ws' ! i) = Done else ws' ! i = ws ! i) \<and>
    heap_is (sh_heap sh') m' (census base (log_adds l (map ((!) bss) order))) \<and>
    cb_repr m' (sh_tmp sh') (sh_buf sh') (log_adds l (map ((!) bss) order))"
  using assms
proof (induction order arbitrary: ws sh m l)
  case Nil
  then show ?case by auto
next
  case (Cons i order)
  have i: "i < length ws" using Cons.prems(3,5) by simp
  obtain w' sh1 m1 where one: "run_alone 27 (ws ! i) sh = Inr (w', sh1)" "w_pc w' = Done"
    "heap_is (sh_heap sh1) m1 (census base (log_add l (bss ! i)))"
    "cb_repr m1 (sh_tmp sh1) (sh_buf sh1) (log_add l (bss ! i))"
    "\<And>b. m b \<noteq> None \<Longrightarrow> \<not> cb_owned (sh_tmp sh) (sh_buf sh) l b \<Longrightarrow>
       m1 b = m b \<and> \<not> cb_owned (sh_tmp sh1) (sh_buf sh1) (log_add l (bss ! i)) b"
    by (rule alone_appends [OF Cons.prems(1,2), of "ws ! i" "bss ! i"]) (use Cons.prems(6,7) in auto)
  have "\<forall>j \<in> set order. about_to_add m1 (sh_tmp sh1) (sh_buf sh1) (log_add l (bss ! i)) (ws[i := w'] ! j) (bss ! j)"
  proof
    fix j assume j: "j \<in> set order"
    then have "ws[i := w'] ! j = ws ! j" using Cons.prems(4) by (cases "j = i") auto
    moreover have "about_to_add m (sh_tmp sh) (sh_buf sh) l (ws ! j) (bss ! j)" using Cons.prems(6) j by simp
    ultimately show "about_to_add m1 (sh_tmp sh1) (sh_buf sh1) (log_add l (bss ! i)) (ws[i := w'] ! j) (bss ! j)"
      using about_to_add_frame one(5) by metis
  qed
  then obtain ws' sh' m' where
    "run_schedule (concat (map (replicate 27) order)) (ws[i := w']) sh1 = Inr (ws', sh')"
    "length ws' = length ws" "\<forall>j < length ws. if j \<in> set order then w_pc (ws' ! j) = Done else ws' ! j = ws[i := w'] ! j"
    "heap_is (sh_heap sh') m' (census base (log_adds (log_add l (bss ! i)) (map ((!) bss) order)))"
    "cb_repr m' (sh_tmp sh') (sh_buf sh') (log_adds (log_add l (bss ! i)) (map ((!) bss) order))"
    using Cons.IH [OF one(3,4), of "ws[i := w']"] Cons.prems(3-5,7) by auto
  moreover have "run_schedule (replicate 27 i) ws sh = Inr (ws[i := w'], sh1)"
    using one(1) by (simp only: run_schedule_replicate [OF i]) simp
  ultimately show ?case
    using one(2) i Cons.prems(4) by (intro exI [of _ ws'] exI [of _ sh'] exI [of _ m']) (auto simp: run_schedule_append)
qed

lemma serial_writers_run:
  assumes "drv_repr s l" and "distinct order" and "set order = {..<length bss}"
    and "fit_all l (map ((!) bss) order)" and "\<forall>bs \<in> set bss. length bs \<le> KMALLOC_MAX_SIZE"
  shows "\<exists>s' ws ws' sh m. enter_all s bss = Inr (s', ws) \<and>
    run_schedule (concat (map (replicate 27) order)) ws (shared_of s') = Inr (ws', sh) \<and>
    map w_pc ws' = replicate (length bss) Done \<and>
    heap_is (sh_heap sh) m (census (Suc (length bss)) (log_adds l (map ((!) bss) order))) \<and>
    cb_repr m (sh_tmp sh) (sh_buf sh) (log_adds l (map ((!) bss) order))"
proof -
  obtain m where h: "heap_is (heap s) m (census 1 l)" and cb: "cb_repr m (tmp_entry s) (ring s) l"
    using assms(1) by (rule drv_reprE)
  have ne: "bs \<noteq> []" if "fit_all l xs" "bs \<in> set xs" for l xs bs
    using that by (induction xs arbitrary: l) (auto simp: fits_def)
  have "set (map ((!) bss) order) = set bss"
    by (simp add: assms(3) nth_image lessThan_atLeast0)
  then have "\<forall>bs \<in> set bss. bs \<noteq> [] \<and> length bs \<le> KMALLOC_MAX_SIZE"
    using ne [OF assms(4)] assms(5) by blast
  from enter_all_ok [OF h cb this] obtain h' m' ws where e: "enter_all s bss = Inr (s\<lparr>heap := h'\<rparr>, ws)"
    "heap_is h' m' (census (1 + length bss) l)" "cb_repr m' (tmp_entry s) (ring s) l"
    "list_all2 (about_to_add m' (tmp_entry s) (ring s) l) ws bss"
    by (elim exE conjE) (rule that)
  let ?sh = "shared_of (s\<lparr>heap := h'\<rparr>)"
  have len: "length ws = length bss" using e(4) by (rule list_all2_lengthD)
  have "heap_is (sh_heap ?sh) m' (census (Suc (length bss)) l)" "cb_repr m' (sh_tmp ?sh) (sh_buf ?sh) l"
    "\<forall>i \<in> set order. about_to_add m' (sh_tmp ?sh) (sh_buf ?sh) l (ws ! i) (bss ! i)"
    using e(2-4) assms(3) by (auto simp: shared_of_def list_all2_conv_all_nth)
  from serial_run [OF this(1,2) len assms(2) _ this(3) assms(4)] assms(3)
  obtain ws' sh m'' where r: "run_schedule (concat (map (replicate 27) order)) ws ?sh = Inr (ws', sh)"
    "length ws' = length ws" "\<forall>i < length ws. w_pc (ws' ! i) = Done"
    "heap_is (sh_heap sh) m'' (census (Suc (length bss)) (log_adds l (map ((!) bss) order)))"
    "cb_repr m'' (sh_tmp sh) (sh_buf sh) (log_adds l (map ((!) bss) order))"
    using len by auto
  have "map w_pc ws' = replicate (length bss) Done"
    using r(2,3) len by (intro nth_equalityI) simp_all
  with e(1) r show ?thesis by blast
qed

text \<open>
  C22: writers that follow one another, as the mutex would have it, append. From every state of a
  loaded module that represents a log, any number of writers that are executed in any order, each to its
  end, do not fault; the ring then represents the log with their bytes in the order of execution, and
  the heap holds what the log accounts for and the writers' copies.
\<close>

theorem serial_writers_append:
  assumes "drv_repr s l" and "distinct order" and "set order = {..<length bss}"
    and "fit_all l (map ((!) bss) order)" and "\<forall>bs \<in> set bss. length bs \<le> KMALLOC_MAX_SIZE"
  shows "\<exists>s' ws ws' sh m. enter_all s bss = Inr (s', ws) \<and>
    run_schedule (concat (map (replicate 27) order)) ws (shared_of s') = Inr (ws', sh) \<and>
    map w_pc ws' = replicate (length bss) Done \<and>
    heap_is (sh_heap sh) m (census (Suc (length bss)) (log_adds l (map ((!) bss) order))) \<and>
    cb_repr m (sh_tmp sh) (sh_buf sh) (log_adds l (map ((!) bss) order))"
  using assms by (rule serial_writers_run)

text \<open>Three writers, the last one first.\<close>

lemma serial_writers_append_witness:
  "\<exists>s s' ws ws' sh m. load_and_write (empty_heap (\<lambda>_ _. nul)) 0 two_lines = Inr s \<and>
     enter_all s [x_line, y_line, x_line] = Inr (s', ws) \<and>
     run_schedule (replicate 27 2 @ replicate 27 0 @ replicate 27 1) ws (shared_of s') = Inr (ws', sh) \<and>
     cb_repr m (sh_tmp sh) (sh_buf sh) (log_of (two_lines @ [x_line, x_line, y_line]))"
proof -
  obtain s where s: "load_and_write (empty_heap (\<lambda>_ _. nul)) 0 two_lines = Inr s"
    "drv_repr s (log_of two_lines)"
    using two_lines_loaded by blast
  let ?order = "[2, 0, 1] :: nat list" and ?bss = "[x_line, y_line, x_line]"
  have o: "distinct ?order" "set ?order = {..<length ?bss}" by (auto simp: numeral_eq_Suc)
  have "fit_all (log_of two_lines) (map ((!) ?bss) ?order)"
    by (simp add: fits_def log_add_def two_lines_numbers KMALLOC_MAX_SIZE_def)
  from serial_writers_append [OF s(2) o this]
  obtain s' ws ws' sh m where "enter_all s ?bss = Inr (s', ws)"
    "run_schedule (concat (map (replicate 27) ?order)) ws (shared_of s') = Inr (ws', sh)"
    "cb_repr m (sh_tmp sh) (sh_buf sh) (log_adds (log_of two_lines) (map ((!) ?bss) ?order))"
    by (auto simp: KMALLOC_MAX_SIZE_def)
  moreover have "log_adds (log_of two_lines) (map ((!) ?bss) ?order) = log_of (two_lines @ [x_line, x_line, y_line])"
    by (simp add: log_add_def)
  moreover have "concat (map (replicate 27) ?order) = replicate 27 2 @ replicate 27 0 @ replicate 27 1" by simp
  ultimately show ?thesis using s(1) by metis
qed

end
