(* ===== verification/Overlapping_Writers.thy ===== *)
theory Overlapping_Writers
  imports Serial_Writers Driver_Tracing
begin

text \<open>
  Two writers of lines under any schedule at all. The static \<^verbatim>\<open>tmp_entry\<close> is one variable: whoever
  stores a pointer in it replaces the other's. So if both have stored theirs before one of them is through,
  the same block is released twice. This is not one bad schedule but every schedule in which the two calls
  overlap.
\<close>

section \<open>The writers' own copies\<close>

text \<open>The writer has stored a pointer in \<^verbatim>\<open>tmp_entry\<close>; it has released the one that was there.\<close>

definition allocated :: "writer \<Rightarrow> bool" where "allocated w \<longleftrightarrow> AllocNew < w_pc w"
definition released :: "writer \<Rightarrow> bool" where "released w \<longleftrightarrow> FreeTmp < w_pc w"

lemmas pc_less = less_add_pc_def

text \<open>The block \<open>k\<close> with the bytes \<open>a\<close> is not that of a slot.\<close>

definition kept :: "nat \<Rightarrow> byte list \<Rightarrow> shared \<Rightarrow> bool" where
  "kept k a sh \<longleftrightarrow> blk (sh_heap sh) k = Some a \<and>
     (\<forall>j<10. buffptr (entry (sh_buf sh) ! j) \<noteq> Blk k) \<and> length (entry (sh_buf sh)) = 10"

lemma blk_kmalloc: "kmalloc h n = (p, h') \<Longrightarrow> blk h k = Some a \<Longrightarrow> blk h' k = Some a \<and> p \<noteq> Blk k"
  by (auto simp: kmalloc_def Let_def blk_def nth_append split: if_splits)

lemma blk_kfree: "kfree h p = Inr h' \<Longrightarrow> p \<noteq> Blk k \<Longrightarrow> blk h' k = blk h k"
  by (auto simp: kfree_def blk_def nth_list_update split: kptr.splits if_splits block.splits)

lemma blk_store: "store h p off cs = Inr h' \<Longrightarrow> p \<noteq> Blk k \<Longrightarrow> blk h' k = blk h k"
  by (auto simp: store_def blk_def nth_list_update split: kptr.splits if_splits block.splits)

lemma blk_memset: "memset h p c n = Inr h' \<Longrightarrow> p \<noteq> Blk k \<Longrightarrow> blk h' k = blk h k"
  by (auto simp: memset_def dest: blk_store)

lemma blk_memcpy: "memcpy h p off q soff n = Inr h' \<Longrightarrow> p \<noteq> Blk k \<Longrightarrow> blk h' k = blk h k"
  by (auto simp: memcpy_def bnd_iffs dest: blk_store)

lemma freed_memcpy: "memcpy h p off q soff n = Inr h' \<Longrightarrow> freed h b \<Longrightarrow> freed h' b"
  by (auto simp: memcpy_def bnd_iffs dest: freed_store)

lemmas step_cases = add_step_def with_heap_def Let_def bnd_eq_Inr_iff


lemma add_step_local:
  "add_step w sh = Inr (w', sh') \<Longrightarrow> wi w < 10 \<Longrightarrow> wi w' < 10 \<and> w_arg w' = w_arg w"
  using slot_in_array [of "w_abs (sh_buf sh)"]
  by (cases "w_pc w") (auto simp: step_cases split: prod.splits if_split_asm)

lemma add_step_kept:
  assumes "add_step w sh = Inr (w', sh')" and "kept k a sh" and "wi w < 10"
    and tmp: "allocated w \<longrightarrow> buffptr (sh_tmp sh) \<noteq> Blk k"
  shows "kept k a sh'"
proof -
  have slot: "buffptr (entry (sh_buf sh) ! wi w) \<noteq> Blk k"
    and len: "length (entry (sh_buf sh)) = 10" and k: "blk (sh_heap sh) k = Some a"
    and all: "\<forall>j<10. buffptr (entry (sh_buf sh) ! j) \<noteq> Blk k"
    using assms(2,3) by (simp_all add: kept_def)
  have fresh: "p \<noteq> Blk k \<and> blk h k = Some a" if "kmalloc (sh_heap sh) n = (p, h)" for n p h
    using blk_kmalloc [OF that k] by simp
  have "(\<forall>j<10. buffptr (entry (sh_buf sh') ! j) \<noteq> Blk k) \<and> length (entry (sh_buf sh')) = 10"
  proof (cases "w_pc w")
    case AllocLine
    then show ?thesis
      using assms(1,3) all len fresh [of "bsize (sh_tmp sh)"]
      by (auto simp: step_cases nth_list_update split: prod.splits if_split_asm)
  qed (use assms(1,3) all len slot in \<open>auto simp: step_cases nth_list_update split: prod.splits if_split_asm\<close>)
  moreover have "blk (sh_heap sh') k = Some a"
  proof (cases "w_pc w")
    case AllocNew
    then show ?thesis using assms(1) fresh [of "new_size w"] by (auto simp: step_cases split: prod.splits)
  next
    case AllocLine
    then show ?thesis using assms(1) fresh [of "bsize (sh_tmp sh)"] by (auto simp: step_cases split: prod.splits)
  qed (use assms(1) tmp slot k in \<open>auto simp: step_cases allocated_def pc_less blk_memset blk_memcpy blk_kfree split: prod.splits if_split_asm\<close>)
  ultimately show ?thesis by (simp add: kept_def)
qed

lemma add_step_hfail:
  assumes "add_step w sh = Inr (w', sh')" shows "hfail (sh_heap sh') = hfail (sh_heap sh)"
proof (cases "w_pc w")
  case AllocNew
  then show ?thesis using assms by (auto simp: step_cases kmalloc_def split: prod.splits if_split_asm)
next
  case AllocLine
  then show ?thesis using assms by (auto simp: step_cases kmalloc_def split: prod.splits if_split_asm)
qed (use assms in \<open>auto simp: step_cases kfree_hfail memcpy_hfail memset_hfail split: if_split_asm\<close>)

lemma add_step_freed:
  assumes "add_step w sh = Inr (w', sh')" and "freed (sh_heap sh) b" shows "freed (sh_heap sh') b"
proof (cases "w_pc w")
  case AllocNew
  then show ?thesis
    using assms freed_kmalloc [OF assms(2), of "new_size w"] by (auto simp: step_cases split: prod.splits)
next
  case AllocLine
  then show ?thesis
    using assms freed_kmalloc [OF assms(2), of "bsize (sh_tmp sh)"] by (auto simp: step_cases split: prod.splits)
qed (use assms in \<open>auto simp: step_cases split: if_split_asm elim: freed_kfree freed_memcpy freed_memset\<close>)

section \<open>Sizes\<close>

text \<open>A writer has added its bytes to a size once it has read the size of \<^verbatim>\<open>tmp_entry\<close>.\<close>

definition counted :: "writer \<Rightarrow> nat \<Rightarrow> nat" where
  "counted w n = (if ReadSize < w_pc w then n else 0)"

definition sized :: "nat \<Rightarrow> writer \<Rightarrow> bool" where
  "sized n w \<longleftrightarrow> (ReadSize < w_pc w \<longrightarrow> 0 < unat (new_size w) \<and> unat (new_size w) \<le> n)"

lemma counted_mono: "add_step w sh = Inr (w', sh') \<Longrightarrow> counted w n \<le> counted w' n"
  using add_step_forward [of w sh w' sh'] add_step_done [of w sh w' sh']
  by (cases "w_pc w = Done") (auto simp: counted_def pc_less)

lemma sized_mono: "sized n w \<Longrightarrow> n \<le> n' \<Longrightarrow> sized n' w"
  by (auto simp: sized_def)

lemma add_step_sized:
  assumes "add_step w sh = Inr (w', sh')" and "sized (p + counted w n) w"
    and "unat (bsize (sh_tmp sh)) \<le> p + counted w n"
    and "bsize (w_arg w) = of_nat n" and "0 < n" and "p + n \<le> KMALLOC_MAX_SIZE"
  shows "sized (p + counted w' n) w'" and "unat (bsize (sh_tmp sh')) \<le> p + counted w' n"
proof -
  have le: "unat (bsize (sh_tmp sh)) \<le> p" if "\<not> ReadSize < w_pc w" using assms(3) that by (simp add: counted_def)
  have "unat (bsize (sh_tmp sh) + of_nat n) = unat (bsize (sh_tmp sh)) + n" if "w_pc w = ReadSize"
  proof -
    have "unat (of_nat n :: u64) = n" using assms(6) by (simp add: KMALLOC_MAX_SIZE_def)
    moreover have "unat (bsize (sh_tmp sh)) + n < 2 ^ 64"
      using le that assms(6) by (simp add: pc_less KMALLOC_MAX_SIZE_def)
    ultimately show ?thesis using unat_add_lem [of "bsize (sh_tmp sh)" "of_nat n"] by simp
  qed
  then show "sized (p + counted w' n) w'"
    using assms(1,2,4,5) le by (cases "w_pc w") (auto simp: step_cases sized_def counted_def pc_less split: prod.splits if_split_asm)
  show "unat (bsize (sh_tmp sh')) \<le> p + counted w' n"
    using assms(1-3) by (cases "w_pc w") (auto simp: step_cases sized_def counted_def pc_less split: prod.splits if_split_asm)
qed

section \<open>The pointer of \<^verbatim>\<open>tmp_entry\<close>\<close>

lemma released_allocated: "released w \<Longrightarrow> allocated w"
  by (simp add: released_def allocated_def pc_less)

text \<open>Only an allocation changes the pointer; only the release gets a writer of a line past it, if there is one.\<close>

lemma add_step_pointer:
  assumes "add_step w sh = Inr (w', sh')" and "w_pc w \<noteq> AllocNew"
  shows "buffptr (sh_tmp sh') = buffptr (sh_tmp sh) \<and> allocated w' = allocated w"
  using assms by (cases "w_pc w") (auto simp: step_cases allocated_def pc_less split: prod.splits if_split_asm)

lemma add_step_allocates:
  assumes "add_step w sh = Inr (w', sh')" and "w_pc w = AllocNew" and "hfail (sh_heap sh) = {}"
    and "0 < unat (new_size w)" and "unat (new_size w) \<le> KMALLOC_MAX_SIZE" and "kept k a sh" and "kept j b sh"
  shows "(\<exists>q. buffptr (sh_tmp sh') = Blk q \<and> q \<noteq> k \<and> q \<noteq> j) \<and> allocated w' \<and> \<not> released w'"
proof -
  have "new_size w \<noteq> 0" using assms(4) by auto
  moreover have "k < length (blocks (sh_heap sh))" "j < length (blocks (sh_heap sh))"
    using assms(6,7) by (auto simp: kept_def dest: blk_SomeD)
  ultimately show ?thesis
    using assms(1-5) by (auto simp: step_cases kmalloc_def allocated_def released_def pc_less split: prod.splits if_split_asm)
qed

lemma add_step_releases:
  assumes "add_step w sh = Inr (w', sh')" and "w_pc w = FreeTmp" and "taken w" and "buffptr (sh_tmp sh) = Blk q"
  shows "\<not> freed (sh_heap sh) q \<and> freed (sh_heap sh') q \<and> released w'"
  using assms by (auto simp: step_cases released_def pc_less freed_def kfree_def split: if_split_asm block.splits)

text \<open>A writer of a line does not leave before.\<close>

lemma add_step_not_released:
  assumes "add_step w sh = Inr (w', sh')" and "w_pc w \<noteq> FreeTmp"
    and "kept k a sh" and "w_arg w = \<lparr>buffptr = Blk k, bsize = of_nat (length a)\<rparr>"
    and "a \<noteq> []" and "last a = newline" and "length a \<le> KMALLOC_MAX_SIZE"
  shows "released w' = released w"
proof (cases "w_pc w")
  case TestLast
  have "load (sh_heap sh) (Blk k) (int (unat (of_nat (length a) - 1 :: u64))) 1 = Inr [newline]"
    using load_last [of "sh_heap sh" k a] assms(3,5-7) by (simp add: kept_def)
  with assms(1,4) TestLast show ?thesis by (auto simp: step_cases released_def pc_less)
qed (use assms(1,2) in \<open>auto simp: step_cases released_def pc_less split: prod.splits if_split_asm\<close>)

lemma add_step_taken:
  assumes "add_step w sh = Inr (w', sh')" and "w_pc w' = FreeTmp"
  shows "w_pc w = TestTmp \<and> taken w' = (buffptr (sh_tmp sh) \<noteq> NULL)"
  using assms by (cases "w_pc w") (auto simp: step_cases split: prod.splits if_split_asm)

section \<open>Two writers\<close>

text \<open>One of them is through before the other has allocated.\<close>

definition apart :: "writer \<Rightarrow> writer \<Rightarrow> bool" where
  "apart w v \<longleftrightarrow> released w \<and> \<not> allocated v \<or> released v \<and> \<not> allocated w"

definition line_writer :: "nat \<Rightarrow> byte list \<Rightarrow> writer \<Rightarrow> shared \<Rightarrow> bool" where
  "line_writer k a w sh \<longleftrightarrow> kept k a sh \<and> w_arg w = \<lparr>buffptr = Blk k, bsize = of_nat (length a)\<rparr> \<and>
     wi w < 10 \<and> (w_pc w = FreeTmp \<longrightarrow> taken w)"

text \<open>
  As long as the two have not been apart: who has allocated has left a pointer, and once one of them is
  through, the other has that pointer too and it is released.
\<close>

definition overlapping :: "nat \<Rightarrow> nat \<Rightarrow> byte list \<Rightarrow> writer \<Rightarrow> nat \<Rightarrow> byte list \<Rightarrow> writer \<Rightarrow> shared \<Rightarrow> bool" where
  "overlapping p k a w j b v sh \<longleftrightarrow>
     line_writer k a w sh \<and> line_writer j b v sh \<and> hfail (sh_heap sh) = {} \<and>
     (let n = p + counted w (length a) + counted v (length b) in
      unat (bsize (sh_tmp sh)) \<le> n \<and> sized n w \<and> sized n v) \<and>
     (allocated w \<or> allocated v \<longrightarrow> (\<exists>q. buffptr (sh_tmp sh) = Blk q \<and> q \<noteq> k \<and> q \<noteq> j)) \<and>
     (allocated w \<and> allocated v \<and> (released w \<or> released v) \<longrightarrow>
        (\<exists>q. buffptr (sh_tmp sh) = Blk q \<and> freed (sh_heap sh) q)) \<and>
     \<not> (released w \<and> released v)"

lemma overlapping_sym: "overlapping p k a w j b v sh \<longleftrightarrow> overlapping p j b v k a w sh"
  by (auto simp: overlapping_def Let_def add_ac)

lemma add_step_pointers:
  assumes o: "overlapping p k a w j b v sh" and step: "add_step w sh = Inr (w', sh')" and "\<not> apart w v"
    and a: "a \<noteq> []" "last a = newline" "p + length a + length b \<le> KMALLOC_MAX_SIZE"
  shows "(allocated w' \<or> allocated v \<longrightarrow> (\<exists>q. buffptr (sh_tmp sh') = Blk q \<and> q \<noteq> k \<and> q \<noteq> j)) \<and>
     (allocated w' \<and> allocated v \<and> (released w' \<or> released v) \<longrightarrow>
        (\<exists>q. buffptr (sh_tmp sh') = Blk q \<and> freed (sh_heap sh') q)) \<and>
     \<not> (released w' \<and> released v)"
proof (cases "w_pc w = AllocNew")
  case True
  let ?n = "p + counted w (length a) + counted v (length b)"
  have "?n \<le> KMALLOC_MAX_SIZE" using a(3) by (simp add: counted_def)
  moreover have "sized ?n w" using o by (simp add: overlapping_def Let_def)
  ultimately have n: "0 < unat (new_size w)" "unat (new_size w) \<le> KMALLOC_MAX_SIZE"
    using True by (simp_all add: sized_def pc_less)
  have "hfail (sh_heap sh) = {}" "kept k a sh" "kept j b sh" using o by (simp_all add: overlapping_def line_writer_def)
  note al = add_step_allocates [OF step True this(1) n this(2,3)]
  have "\<not> allocated w" using True by (simp add: allocated_def pc_less)
  then have "\<not> released v" using assms(3) by (simp add: apart_def)
  with al show ?thesis by simp
next
  case False
  note ptr = add_step_pointer [OF step False]
  show ?thesis
  proof (cases "w_pc w = FreeTmp")
    case True
    then have w: "taken w" "allocated w" using o by (simp_all add: overlapping_def line_writer_def allocated_def pc_less)
    then obtain q where q: "buffptr (sh_tmp sh) = Blk q" "q \<noteq> k" "q \<noteq> j" using o by (auto simp: overlapping_def)
    note rel = add_step_releases [OF step True w(1) q(1)]
    have "\<not> (allocated v \<and> released v)" using o w(2) q rel by (auto simp: overlapping_def)
    then have "\<not> released v" using released_allocated by blast
    with rel ptr q show ?thesis by simp
  next
    case False
    have lw: "kept k a sh" "w_arg w = \<lparr>buffptr = Blk k, bsize = of_nat (length a)\<rparr>"
      using o by (simp_all add: overlapping_def line_writer_def)
    have "released w' = released w" by (rule add_step_not_released [OF step False lw a(1,2)]) (use a(3) in simp)
    with ptr o add_step_freed [OF step] show ?thesis by (auto simp: overlapping_def)
  qed
qed

lemma add_step_overlapping:
  assumes o: "overlapping p k a w j b v sh" and step: "add_step w sh = Inr (w', sh')" and apart: "\<not> apart w v"
    and a: "a \<noteq> []" "last a = newline" "p + length a + length b \<le> KMALLOC_MAX_SIZE"
  shows "overlapping p k a w' j b v sh'"
proof -
  let ?n = "p + counted w (length a) + counted v (length b)" and ?n' = "p + counted w' (length a) + counted v (length b)"
  have lw: "line_writer k a w sh" "line_writer j b v sh" and n: "unat (bsize (sh_tmp sh)) \<le> ?n" "sized ?n w" "sized ?n v"
    using o by (simp_all add: overlapping_def Let_def)
  then have arg: "kept k a sh" "wi w < 10" "kept j b sh" "bsize (w_arg w) = of_nat (length a)"
    by (simp_all add: line_writer_def)
  have tmp: "allocated w \<longrightarrow> buffptr (sh_tmp sh) \<noteq> Blk k" "allocated w \<longrightarrow> buffptr (sh_tmp sh) \<noteq> Blk j"
    using o by (auto simp: overlapping_def)
  have "?n = (p + counted v (length b)) + counted w (length a)" by simp
  moreover have "p + counted v (length b) + length a \<le> KMALLOC_MAX_SIZE" using a(3) by (simp add: counted_def)
  ultimately have sz: "sized ?n' w'" "unat (bsize (sh_tmp sh')) \<le> ?n'"
    using add_step_sized [OF step, of "p + counted v (length b)" "length a"] n(1,2) arg(4) a(1)
    by (simp_all add: add.commute add.left_commute)
  moreover have "?n \<le> ?n'" using counted_mono [OF step] by simp
  then have "sized ?n' v" using sized_mono [OF n(3)] by simp
  moreover have "w_pc w' = FreeTmp \<longrightarrow> taken w'"
  proof
    assume "w_pc w' = FreeTmp"
    from add_step_taken [OF step this] have "w_pc w = TestTmp" "taken w' = (buffptr (sh_tmp sh) \<noteq> NULL)" by simp_all
    moreover from this have "allocated w" by (simp add: allocated_def pc_less)
    ultimately show "taken w'" using o by (auto simp: overlapping_def)
  qed
  moreover have "hfail (sh_heap sh') = {}" using o add_step_hfail [OF step] by (simp add: overlapping_def)
  ultimately show ?thesis
    using lw add_step_local [OF step arg(2)] add_step_kept [OF step arg(1,2) tmp(1)] add_step_kept [OF step arg(3,2) tmp(2)]
      add_step_pointers [OF o step apart a]
    by (simp add: overlapping_def line_writer_def Let_def)
qed

section \<open>Under every schedule\<close>

lemma run_overlapping:
  assumes "overlapping p k a w j b v sh" and "set is \<subseteq> {0, 1}" and "run_schedule is [w, v] sh = Inr (ws, sh')"
    and a: "a \<noteq> []" "last a = newline" and b: "b \<noteq> []" "last b = newline"
    and n: "p + length a + length b \<le> KMALLOC_MAX_SIZE"
  shows "(\<exists>xs ys w' v' sh1. is = xs @ ys \<and> run_schedule xs [w, v] sh = Inr ([w', v'], sh1) \<and> apart w' v') \<or>
    (\<exists>w' v'. ws = [w', v'] \<and> overlapping p k a w' j b v' sh')"
  using assms(1-3)
proof (induction "is" arbitrary: w v sh)
  case Nil
  then show ?case by auto
next
  case (Cons i "is")
  show ?case
  proof (cases "apart w v")
    case True
    then show ?thesis by (intro disjI1 exI [of _ "[]"] exI [of _ "i # is"]) simp
  next
    case False
    obtain u sh1 where u: "add_step ([w, v] ! i) sh = Inr (u, sh1)" "run_schedule is ([w, v][i := u]) sh1 = Inr (ws, sh')"
      using Cons.prems(3) by (auto simp: bnd_eq_Inr_iff)
    have "\<exists>w1 v1. [w, v][i := u] = [w1, v1] \<and> overlapping p k a w1 j b v1 sh1"
    proof (cases "i = 0")
      case True
      then show ?thesis using u(1) add_step_overlapping [OF Cons.prems(1) _ False a n] by auto
    next
      case i: False
      then have "i = 1" using Cons.prems(2) by simp
      moreover have "overlapping p j b v k a w sh" using Cons.prems(1) overlapping_sym by blast
      moreover have "\<not> apart v w" using False by (auto simp: apart_def)
      moreover have "p + length b + length a \<le> KMALLOC_MAX_SIZE" using n by simp
      ultimately have "overlapping p j b u k a w sh1" using u(1) add_step_overlapping b by auto
      with \<open>i = 1\<close> overlapping_sym show ?thesis by auto
    qed
    then obtain w1 v1 where one: "[w, v][i := u] = [w1, v1]" "overlapping p k a w1 j b v1 sh1" by blast
    from Cons.IH [OF one(2)] Cons.prems(2) u(2) one(1)
    consider (before) xs ys w' v' sh2 where "is = xs @ ys" "run_schedule xs [w1, v1] sh1 = Inr ([w', v'], sh2)" "apart w' v'"
      | (stay) "\<exists>w' v'. ws = [w', v'] \<and> overlapping p k a w' j b v' sh'" by auto
    then show ?thesis
    proof cases
      case before
      then have "i # is = (i # xs) @ ys" "run_schedule (i # xs) [w, v] sh = Inr ([w', v'], sh2)"
        using u(1) one(1) by simp_all
      with before(3) show ?thesis by blast
    qed blast
  qed
qed

text \<open>
  C23: two writers of lines that overlap never get through. In every state of a loaded module that
  represents a log, let two lines be written; the two calls have copied the bytes from their users and are
  executed statement by statement, under any schedule whatever. If both come to their end, there was a
  moment when one of them had released \<^verbatim>\<open>tmp_entry\<close> and the other had not yet allocated it: they have
  been one after the other there. No schedule that lets them overlap takes both to the end without a fault.
\<close>

theorem overlapping_writers_fault:
  assumes "drv_repr s l" and "a \<noteq> []" and "last a = newline" and "b \<noteq> []" and "last b = newline"
    and "length (pending l) + length a + length b \<le> KMALLOC_MAX_SIZE"
    and "enter_write s user_fine a (of_nat (length a)) = Inr (s1, Inr w1)"
    and "enter_write s1 user_fine b (of_nat (length b)) = Inr (s2, Inr w2)"
    and "set is \<subseteq> {0, 1}" and "run_schedule is [w1, w2] (shared_of s2) = Inr ([v1, v2], sh)"
    and "w_pc v1 = Done" and "w_pc v2 = Done"
  shows "\<exists>xs ys u1 u2 sh'. is = xs @ ys \<and> run_schedule xs [w1, w2] (shared_of s2) = Inr ([u1, u2], sh') \<and>
    (FreeTmp < w_pc u1 \<and> w_pc u2 \<le> AllocNew \<or> FreeTmp < w_pc u2 \<and> w_pc u1 \<le> AllocNew)"
proof -
  have len: "length a \<le> KMALLOC_MAX_SIZE" "length b \<le> KMALLOC_MAX_SIZE" using assms(6) by simp_all
  obtain s1' s2' m k j where e: "enter_write s user_fine a (of_nat (length a)) = Inr (s1', Inr (start_writer \<lparr>buffptr = Blk k, bsize = of_nat (length a)\<rparr>))"
      "enter_write s1' user_fine b (of_nat (length b)) = Inr (s2', Inr (start_writer \<lparr>buffptr = Blk j, bsize = of_nat (length b)\<rparr>))"
    and h: "heap_is (heap s2') m (census 3 l)" "cb_repr m (tmp_entry s2') (ring s2') l"
    and k: "m k = Some a" "\<not> cb_owned (tmp_entry s2') (ring s2') l k"
    and j: "m j = Some b" "\<not> cb_owned (tmp_entry s2') (ring s2') l j"
    using assms(1,2) len(1) assms(4) len(2) by (rule both_enter)
  then have w: "w1 = start_writer \<lparr>buffptr = Blk k, bsize = of_nat (length a)\<rparr>"
    "w2 = start_writer \<lparr>buffptr = Blk j, bsize = of_nat (length b)\<rparr>" "s2' = s2"
    using assms(7,8) by simp_all
  let ?sh = "shared_of s2"
  have "length (entry (ring s2)) = 10" using h(2) slots_of_ring w(3) by blast
  moreover have "blk (heap s2) k = Some a" "blk (heap s2) j = Some b" and avail: "hfail (heap s2) = {}"
    using h(1) k(1) j(1) w(3) by (auto simp: heap_is_def avail_def)
  moreover have "buffptr (entry (ring s2) ! i) \<noteq> Blk k \<and> buffptr (entry (ring s2) ! i) \<noteq> Blk j" if "i < 10" for i
    using k(2) j(2) that w(3) by (auto simp: cb_owned_def owned_def)
  ultimately have "kept k a ?sh" "kept j b ?sh" by (simp_all add: kept_def shared_of_def)
  moreover have "bsize (tmp_entry s2) = of_nat (length (pending l))" "length (pending l) \<le> KMALLOC_MAX_SIZE"
    using h(2) w(3) by (simp_all add: cb_repr_def tmp_repr_def)
  then have "unat (bsize (tmp_entry s2)) = length (pending l)"
    by (simp only: unat_of_nat64 KMALLOC_MAX_SIZE_def)
  ultimately have "overlapping (length (pending l)) k a w1 j b w2 ?sh"
    using avail w(1,2)
    by (simp add: overlapping_def line_writer_def start_writer_def allocated_def released_def counted_def sized_def pc_less shared_of_def)
  from run_overlapping [OF this assms(9,10,2,3,4,5,6)]
  have "\<exists>xs ys u1 u2 sh'. is = xs @ ys \<and> run_schedule xs [w1, w2] ?sh = Inr ([u1, u2], sh') \<and> apart u1 u2"
    using assms(11,12) by (auto simp: overlapping_def released_def pc_less)
  then show ?thesis by (fastforce simp: apart_def allocated_def released_def not_less)
qed

text \<open>One after the other, both get through; the first is through before the second has begun.\<close>

lemma overlapping_writers_fault_witness:
  "\<exists>s s1 w1 s2 w2 v1 v2 sh xs ys u1 u2 sh'. load_and_write (empty_heap (\<lambda>_ _. nul)) 0 two_lines = Inr s \<and>
     enter_write s user_fine x_line (of_nat (length x_line)) = Inr (s1, Inr w1) \<and>
     enter_write s1 user_fine y_line (of_nat (length y_line)) = Inr (s2, Inr w2) \<and>
     run_schedule (replicate 27 0 @ replicate 27 1) [w1, w2] (shared_of s2) = Inr ([v1, v2], sh) \<and>
     replicate 27 0 @ replicate 27 1 = xs @ ys \<and> run_schedule xs [w1, w2] (shared_of s2) = Inr ([u1, u2], sh') \<and>
     (FreeTmp < w_pc u1 \<and> w_pc u2 \<le> AllocNew \<or> FreeTmp < w_pc u2 \<and> w_pc u1 \<le> AllocNew)"
proof -
  obtain s where s: "load_and_write (empty_heap (\<lambda>_ _. nul)) 0 two_lines = Inr s"
    "drv_repr s (log_of two_lines)"
    using two_lines_loaded by blast
  have x: "x_line \<noteq> []" "length x_line \<le> KMALLOC_MAX_SIZE" "last x_line = newline"
    and y: "y_line \<noteq> []" "length y_line \<le> KMALLOC_MAX_SIZE" "last y_line = newline"
    by (simp_all add: KMALLOC_MAX_SIZE_def)
  obtain s1 s2 w1 w2 where e: "enter_write s user_fine x_line (of_nat (length x_line)) = Inr (s1, Inr w1)"
    "enter_write s1 user_fine y_line (of_nat (length y_line)) = Inr (s2, Inr w2)"
    by (rule both_enter [OF s(2) x(1,2) y(1,2)]) blast
  let ?bss = "[x_line, y_line]" and ?order = "[0, 1] :: nat list"
  have o: "distinct ?order" "set ?order = {..<length ?bss}" by (auto simp: numeral_eq_Suc)
  have f: "fit_all (log_of two_lines) (map ((!) ?bss) ?order)"
    by (simp add: fits_def log_add_def two_lines_numbers KMALLOC_MAX_SIZE_def)
  have "enter_all s ?bss = Inr (s2, [w1, w2])" using e by simp
  then obtain ws' sh where r: "run_schedule (concat (map (replicate 27) ?order)) [w1, w2] (shared_of s2) = Inr (ws', sh)"
    "map w_pc ws' = replicate (length ?bss) Done"
    using serial_writers_run [OF s(2) o f] x(2) y(2) by auto
  from r(2) obtain v1 v2 where v: "ws' = [v1, v2]" "w_pc v1 = Done" "w_pc v2 = Done"
    by (auto simp: numeral_2_eq_2 map_eq_Cons_conv)
  let ?is = "replicate 27 0 @ replicate 27 1 :: nat list"
  have run: "run_schedule ?is [w1, w2] (shared_of s2) = Inr ([v1, v2], sh)" using r(1) v(1) by simp
  have "length (pending (log_of two_lines)) + length x_line + length y_line \<le> KMALLOC_MAX_SIZE" "set ?is \<subseteq> {0, 1}"
    by (simp_all add: KMALLOC_MAX_SIZE_def)
  from overlapping_writers_fault [OF s(2) x(1,3) y(1,3) this(1) e this(2) run v(2,3)] s(1) e run
  show ?thesis by blast
qed

end
