(* ===== verification/Seek_Command.thy ===== *)
theory Seek_Command
  imports Char_Driver
begin

text \<open>
  \<^verbatim>\<open>trim_crlf\<close> and \<^verbatim>\<open>parse_seek_command\<close> of \<^verbatim>\<open>server/aesdsocket.c\<close>, with the
  \<^verbatim>\<open>strlen\<close> and the \<^verbatim>\<open>sscanf\<close> they use. A string is the memory from its first byte on: the
  \<open>sz\<close> bytes of its block and the bytes that happen to follow it, because the server passes a
  block without a terminating zero. Reading on past the block is what the code does and is
  allowed; writing past it, or finding no zero at all, is a fault.
\<close>

section \<open>Memory as a C string\<close>

definition c_string :: "byte list \<Rightarrow> byte list" where
  "c_string mem = takeWhile (\<lambda>c. c \<noteq> nul) mem"

definition c_strlen :: "byte list \<Rightarrow> fault + nat" where
  "c_strlen mem = (if nul \<in> set mem then Inr (length (c_string mem)) else Inl OutOfBounds)"

definition crlf :: "byte \<Rightarrow> bool" where
  "crlf c \<longleftrightarrow> c = newline \<or> c = carriage_return"

section \<open>\<^verbatim>\<open>trim_crlf\<close>\<close>

text \<open>The loop, \<open>n\<close> being the length that is left.\<close>

fun trim_loop :: "nat \<Rightarrow> byte list \<Rightarrow> nat \<Rightarrow> fault + byte list" where
  "trim_loop sz mem 0 = Inr mem"
| "trim_loop sz mem (Suc n) =
     (if crlf (mem ! n)
      then if n < sz then trim_loop sz (mem[n := nul]) n else Inl OutOfBounds
      else Inr mem)"

definition trim_crlf :: "nat \<Rightarrow> byte list \<Rightarrow> fault + byte list" where
  "trim_crlf sz mem = bnd (c_strlen mem) (trim_loop sz mem)"

section \<open>\<^verbatim>\<open>sscanf\<close>\<close>

definition is_space :: "byte \<Rightarrow> bool" where
  "is_space c \<longleftrightarrow> c = CHR '' '' \<or> 9 \<le> (of_char c :: nat) \<and> (of_char c :: nat) \<le> 13"

definition is_digit :: "byte \<Rightarrow> bool" where
  "is_digit c \<longleftrightarrow> 48 \<le> (of_char c :: nat) \<and> (of_char c :: nat) \<le> 57"

definition digit_value :: "byte \<Rightarrow> nat" where
  "digit_value c = of_char c - 48"

definition dec_value :: "byte list \<Rightarrow> nat" where
  "dec_value ds = foldl (\<lambda>v c. 10 * v + digit_value c) 0 ds"

text \<open>
  \<^verbatim>\<open>%u\<close>: white space, a sign, digits. The digits are read by \<^verbatim>\<open>strtoul\<close> into 64 bits, which
  saturates, is negated for a minus sign, and is cut down to 32 bits when it is stored.
\<close>

definition skip_sign :: "byte list \<Rightarrow> byte list" where
  "skip_sign s = (if s \<noteq> [] \<and> (hd s = CHR ''-'' \<or> hd s = CHR ''+'') then tl s else s)"

definition scan_unsigned :: "byte list \<Rightarrow> (u32 \<times> byte list) option" where
  "scan_unsigned s =
     (let s = dropWhile is_space s;
          minus = (s \<noteq> [] \<and> hd s = CHR ''-'');
          s = skip_sign s;
          ds = takeWhile is_digit s; v = dec_value ds;
          w = (if 18446744073709551616 \<le> v then - 1
               else if minus then - of_nat v else of_nat v) :: u64
      in if ds = [] then None else Some (ucast w, dropWhile is_digit s))"

definition SPECIAL_STR_PREFIX :: "byte list" where
  "SPECIAL_STR_PREFIX = ''AESDCHAR_IOCSEEKTO:''"

fun strip_prefix :: "byte list \<Rightarrow> byte list \<Rightarrow> byte list option" where
  "strip_prefix [] s = Some s"
| "strip_prefix (p # ps) (c # s) = (if p = c then strip_prefix ps s else None)"
| "strip_prefix (p # ps) [] = None"

text \<open>
  \<^verbatim>\<open>sscanf(line, "AESDCHAR_IOCSEEKTO:%u,%u%n", x, y, &consumed)\<close>: the number of conversions
  (the result \<open>EOF\<close> counts as 0), the values stored, and \<^verbatim>\<open>consumed\<close>, which is 0 beforehand.
\<close>

definition sscanf_seek :: "byte list \<Rightarrow> nat \<times> u32 option \<times> u32 option \<times> nat" where
  "sscanf_seek s =
     (case strip_prefix SPECIAL_STR_PREFIX s of
        None \<Rightarrow> (0, None, None, 0)
      | Some r \<Rightarrow>
          (case scan_unsigned r of
             None \<Rightarrow> (0, None, None, 0)
           | Some (x, r) \<Rightarrow>
               (case strip_prefix '','' r of
                  None \<Rightarrow> (1, Some x, None, 0)
                | Some r \<Rightarrow>
                    (case scan_unsigned r of
                       None \<Rightarrow> (1, Some x, None, 0)
                     | Some (y, r) \<Rightarrow> (2, Some x, Some y, length s - length r)))))"

section \<open>\<^verbatim>\<open>parse_seek_command\<close>\<close>

text \<open>
  \<open>None\<close> is a null pointer. The result is the memory, changed by the trimming, and the command if
  there is one.
\<close>

definition parse_seek_command ::
  "nat \<Rightarrow> byte list option \<Rightarrow> fault + (byte list option \<times> aesd_seekto option)" where
  "parse_seek_command sz line =
     (case line of
        None \<Rightarrow> Inr (None, None)
      | Some mem \<Rightarrow>
          bnd (trim_crlf sz mem) (\<lambda>mem.
          case sscanf_seek (c_string mem) of
            (matched, Some x, Some y, consumed) \<Rightarrow>
              Inr (Some mem,
                   if matched = 2 \<and> mem ! consumed = nul
                   then Some \<lparr>write_cmd = x, write_cmd_offset = y\<rparr> else None)
          | _ \<Rightarrow> Inr (Some mem, None)))"

section \<open>What trimming does\<close>

definition rstrip :: "byte list \<Rightarrow> byte list" where
  "rstrip s = rev (dropWhile crlf (rev s))"

lemma rstrip_Nil [simp]: "rstrip [] = []"
  by (simp add: rstrip_def)

lemma rstrip_snoc [simp]: "rstrip (s @ [c]) = (if crlf c then rstrip s else s @ [c])"
  by (simp add: rstrip_def)

lemma rstrip_crlf: "\<forall>c \<in> set t. crlf c \<Longrightarrow> rstrip (s @ t) = rstrip s"
  by (induction t rule: rev_induct) (simp_all flip: append_assoc)

lemma rstrip_id: "s = [] \<or> \<not> crlf (last s) \<Longrightarrow> rstrip s = s"
  by (cases s rule: rev_cases) simp_all

lemma rstrip_prefix: "\<exists>t. s = rstrip s @ t \<and> (\<forall>c \<in> set t. crlf c)"
proof (induction s rule: rev_induct)
  case (snoc c s)
  then obtain t where t: "s = rstrip s @ t" "\<forall>c \<in> set t. crlf c" by blast
  show ?case
  proof (cases "crlf c")
    case True
    have "s @ [c] = rstrip (s @ [c]) @ (t @ [c])" using t(1) True by simp
    with t(2) True show ?thesis by (metis Un_iff empty_iff empty_set insert_iff list.simps(15) set_append)
  qed simp
qed simp

text \<open>The string up to its zero loses its trailing line ends, each overwritten by a zero.\<close>

lemma trim_loop:
  assumes "length s \<le> sz"
  shows "trim_loop sz (s @ rest) (length s) =
    Inr (rstrip s @ replicate (length s - length (rstrip s)) nul @ rest)"
  using assms
proof (induction s arbitrary: rest rule: rev_induct)
  case Nil
  then show ?case by simp
next
  case (snoc c s)
  have le: "length (rstrip s) \<le> length s"
    by (metis le_add1 length_append rstrip_prefix)
  then have "replicate (Suc (length s) - length (rstrip s)) nul @ rest =
      replicate (length s - length (rstrip s)) nul @ nul # rest"
    by (simp add: Suc_diff_le replicate_append_same)
  then show ?case
    using snoc.IH [of "nul # rest"] snoc.prems by (simp add: nth_append list_update_append)
qed

text \<open>If the string runs on past its block and ends in a line end there, the loop writes there.\<close>

lemma trim_loop_past_block:
  assumes "sz \<le> length s" and "crlf c"
  shows "trim_loop sz ((s @ [c]) @ rest) (length (s @ [c])) = Inl OutOfBounds"
  using assms by (simp add: nth_append)

lemma c_string_append: "nul \<notin> set s \<Longrightarrow> c_string (s @ nul # rest) = s"
  unfolding c_string_def by (subst takeWhile_append2) auto

lemma c_strlen_append: "nul \<notin> set s \<Longrightarrow> c_strlen (s @ nul # rest) = Inr (length s)"
  by (simp add: c_strlen_def c_string_append)

lemma trim_crlf_block:
  assumes "nul \<notin> set s" and "length s \<le> sz"
  shows "trim_crlf sz (s @ nul # rest) =
    Inr (rstrip s @ nul # replicate (length s - length (rstrip s)) nul @ rest)"
proof -
  have "replicate k nul @ nul # rest = nul # replicate k nul @ rest" for k
    by (induction k) simp_all
  with trim_loop [OF assms(2), of "nul # rest"] show ?thesis
    by (simp add: trim_crlf_def c_strlen_append [OF assms(1)])
qed

lemma trim_crlf_no_line_end:
  assumes "nul \<notin> set s" and "s = [] \<or> \<not> crlf (last s)"
  shows "trim_crlf sz (s @ nul # rest) = Inr (s @ nul # rest)"
  unfolding trim_crlf_def c_strlen_append [OF assms(1)]
  using assms(2) by (cases s rule: rev_cases) (simp_all add: nth_append)

section \<open>What is recognised\<close>

text \<open>The text of a command, as a client writes it.\<close>

fun show_dec :: "nat \<Rightarrow> byte list" where
  "show_dec n = (if n < 10 then [char_of (48 + n)] else show_dec (n div 10) @ [char_of (48 + n mod 10)])"

declare show_dec.simps [simp del]

definition seek_text :: "u32 \<Rightarrow> u32 \<Rightarrow> byte list" where
  "seek_text x y = SPECIAL_STR_PREFIX @ show_dec (unat x) @ '','' @ show_dec (unat y)"

lemma digit_char: "n < 10 \<Longrightarrow> is_digit (char_of (48 + n)) \<and> digit_value (char_of (48 + n)) = n"
  by (simp add: is_digit_def digit_value_def)

lemma show_dec_not_Nil [simp]: "show_dec n \<noteq> []"
  by (subst show_dec.simps) simp

lemma show_dec_digits: "c \<in> set (show_dec n) \<Longrightarrow> is_digit c"
proof (induction n rule: show_dec.induct)
  case (1 n)
  then show ?case
    by (subst (asm) (2) show_dec.simps) (auto simp: digit_char split: if_splits)
qed

lemma dec_value_snoc: "dec_value (ds @ [c]) = 10 * dec_value ds + digit_value c"
  by (simp add: dec_value_def)

lemma dec_value_show_dec: "dec_value (show_dec n) = n"
proof (induction n rule: show_dec.induct)
  case (1 n)
  show ?case
  proof (cases "n < 10")
    case True
    then show ?thesis by (subst show_dec.simps) (simp add: dec_value_def digit_char)
  next
    case False
    with 1 show ?thesis by (subst show_dec.simps) (simp add: dec_value_snoc digit_char)
  qed
qed

lemma digit_not: "is_digit c \<Longrightarrow> \<not> is_space c \<and> \<not> crlf c \<and> c \<noteq> CHR ''-'' \<and> c \<noteq> CHR ''+'' \<and> c \<noteq> nul \<and> c \<noteq> CHR '',''"
  by (auto simp: is_digit_def is_space_def crlf_def)

lemma scan_unsigned_show_dec:
  assumes "r = [] \<or> \<not> is_digit (hd r)"
  shows "scan_unsigned (show_dec (unat x) @ r) = Some (x, r)"
proof -
  let ?s = "show_dec (unat x)"
  have d: "\<forall>c \<in> set ?s. is_digit c" using show_dec_digits by blast
  have hd: "is_digit (hd ?s)" using d by simp
  have sp: "dropWhile is_space (?s @ r) = ?s @ r"
    using digit_not [OF hd] by (cases ?s) simp_all
  have tw: "takeWhile is_digit (?s @ r) = ?s" "dropWhile is_digit (?s @ r) = r"
    using d assms by (cases r; simp add: takeWhile_append2 dropWhile_append2)+
  have "unat x < 18446744073709551616" using unat_lt32 [of x] by linarith
  moreover have "(ucast (of_nat (unat x) :: u64) :: u32) = x"
    by (simp only: ucast_of_nat_64_32) simp
  moreover have "skip_sign (?s @ r) = ?s @ r"
    using digit_not [OF hd] by (simp add: skip_sign_def)
  ultimately show ?thesis
    using digit_not [OF hd] by (simp add: scan_unsigned_def sp tw dec_value_show_dec Let_def del: of_nat_unat)
qed

lemma strip_prefix_append [simp]: "strip_prefix p (p @ s) = Some s"
  by (induction p) simp_all

lemma strip_prefix_Some: "strip_prefix p s = Some r \<longleftrightarrow> s = p @ r"
  by (induction p s rule: strip_prefix.induct) auto

lemma sscanf_seek_text: "sscanf_seek (seek_text x y) = (2, Some x, Some y, length (seek_text x y))"
proof -
  have "scan_unsigned (show_dec (unat y)) = Some (y, [])"
    using scan_unsigned_show_dec [of "[]" y] by simp
  moreover have "scan_unsigned (show_dec (unat x) @ '','' @ show_dec (unat y)) =
      Some (x, '','' @ show_dec (unat y))"
    by (rule scan_unsigned_show_dec) (simp add: is_digit_def)
  ultimately show ?thesis by (simp add: sscanf_seek_def seek_text_def)
qed

lemma seek_text_chars: "c \<in> set (seek_text x y) \<Longrightarrow> c \<noteq> nul"
  using digit_not [OF show_dec_digits] by (auto simp: seek_text_def SPECIAL_STR_PREFIX_def)

lemma seek_text_last: "seek_text x y \<noteq> []" "is_digit (last (seek_text x y))" "\<not> crlf (last (seek_text x y))"
proof -
  have "is_digit (last (show_dec (unat y)))" by (rule show_dec_digits [of _ "unat y"]) simp
  then show "is_digit (last (seek_text x y))" "\<not> crlf (last (seek_text x y))"
    using digit_not by (auto simp: seek_text_def)
qed (simp add: seek_text_def)

lemma parse_seek_text:
  assumes "\<forall>c \<in> set t. crlf c" and "sz = length (seek_text x y @ t)"
  shows "\<exists>mem. parse_seek_command sz (Some (seek_text x y @ t @ nul # rest)) =
    Inr (Some mem, Some \<lparr>write_cmd = x, write_cmd_offset = y\<rparr>)"
proof -
  let ?s = "seek_text x y"
  have z: "nul \<notin> set (?s @ t)" using seek_text_chars assms(1) by (auto simp: crlf_def)
  have "rstrip (?s @ t) = ?s"
    using rstrip_crlf [OF assms(1)] rstrip_id [of ?s] seek_text_last by simp
  then have "trim_crlf sz (?s @ t @ nul # rest) = Inr (?s @ nul # replicate (length t) nul @ rest)"
    using trim_crlf_block [OF z, of sz rest] assms(2) by simp
  moreover have "c_string (?s @ nul # replicate (length t) nul @ rest) = ?s"
    by (rule c_string_append) (use seek_text_chars in blast)
  ultimately show ?thesis
    by (simp add: parse_seek_command_def sscanf_seek_text)
qed

text \<open>
  C32: the round trip of the server's seek command. The text of any two 32-bit numbers, with any
  line ends after it and a zero next in memory, is recognised and gives back these numbers.
\<close>

theorem seek_command_roundtrip:
  assumes "\<forall>c \<in> set t. crlf c" and "sz = length (seek_text x y @ t)"
  shows "\<exists>mem. parse_seek_command sz (Some (seek_text x y @ t @ nul # rest)) =
    Inr (Some mem, Some \<lparr>write_cmd = x, write_cmd_offset = y\<rparr>)"
  using assms by (rule parse_seek_text)

lemma seek_command_roundtrip_witness:
  "\<exists>mem. parse_seek_command (length (seek_text 3 7 @ [carriage_return, newline]))
      (Some (seek_text 3 7 @ [carriage_return, newline] @ nul # ''junk'')) =
    Inr (Some mem, Some \<lparr>write_cmd = 3, write_cmd_offset = 7\<rparr>)"
  by (rule seek_command_roundtrip) (simp_all add: crlf_def)

text \<open>The converse: what is recognised starts with the prefix and ends in a digit.\<close>

lemma scan_unsigned_Some:
  assumes "scan_unsigned s = Some (v, r)"
  shows "\<exists>p. s = p @ r \<and> p \<noteq> [] \<and> is_digit (last p)"
proof -
  let ?s1 = "dropWhile is_space s"
  let ?ds = "takeWhile is_digit (skip_sign ?s1)"
  have ds: "?ds \<noteq> []" and r: "r = dropWhile is_digit (skip_sign ?s1)"
    using assms unfolding scan_unsigned_def Let_def by (auto simp only: option.inject prod.inject split: if_splits)
  obtain q where q: "?s1 = q @ skip_sign ?s1"
  proof (cases "skip_sign ?s1 = ?s1")
    case False
    then have "?s1 = [hd ?s1] @ skip_sign ?s1" by (auto simp: skip_sign_def split: if_splits)
    then show ?thesis by (rule that)
  qed (auto intro: that)
  have "s = takeWhile is_space s @ ?s1" by simp
  also have "\<dots> = (takeWhile is_space s @ q) @ skip_sign ?s1" using q by simp
  finally have "\<exists>q. s = q @ skip_sign ?s1" by blast
  then obtain q where "s = q @ ?ds @ r" using r by auto
  moreover have "is_digit (last ?ds)" using ds set_takeWhileD [of "last ?ds" is_digit "skip_sign ?s1"] by simp
  ultimately show ?thesis using ds by (intro exI [of _ "q @ ?ds"]) simp
qed

lemma sscanf_seek_2:
  assumes "sscanf_seek s = (2, Some x, Some y, n)"
  shows "\<exists>p r. s = SPECIAL_STR_PREFIX @ p @ r \<and> p \<noteq> [] \<and> is_digit (last p) \<and> n = length s - length r"
proof -
  obtain r1 r2 r3 r4 where r: "strip_prefix SPECIAL_STR_PREFIX s = Some r1" "scan_unsigned r1 = Some (x, r2)"
    "strip_prefix '','' r2 = Some r3" "scan_unsigned r3 = Some (y, r4)" "n = length s - length r4"
    using assms by (auto simp: sscanf_seek_def split: option.splits)
  obtain p q where p: "r1 = p @ r2" and q: "r3 = q @ r4" "q \<noteq> []" "is_digit (last q)"
    using scan_unsigned_Some [OF r(2)] scan_unsigned_Some [OF r(4)] by blast
  have "s = SPECIAL_STR_PREFIX @ (p @ '','' @ q) @ r4"
    using r(1,3) p q(1) by (simp add: strip_prefix_Some)
  with q(2,3) r(5) show ?thesis by (intro exI [of _ "p @ '','' @ q"] exI [of _ r4]) simp
qed

lemma parse_seek_command_recognised:
  assumes "parse_seek_command sz (Some mem) = Inr (Some mem', Some sk)"
  shows "trim_crlf sz mem = Inr mem' \<and>
    (\<exists>p. c_string mem' = SPECIAL_STR_PREFIX @ p \<and> p \<noteq> [] \<and> (nul \<in> set mem' \<longrightarrow> is_digit (last p)))"
proof -
  obtain x y n where p: "trim_crlf sz mem = Inr mem'" "sscanf_seek (c_string mem') = (2, Some x, Some y, n)"
    "mem' ! n = nul"
  proof -
    obtain mem1 where m: "trim_crlf sz mem = Inr mem1"
      using assms by (auto simp: parse_seek_command_def bnd_iffs)
    obtain k xo yo n where "sscanf_seek (c_string mem1) = (k, xo, yo, n)" by (metis prod.exhaust)
    with m assms that show thesis
      by (cases xo; cases yo) (auto simp: parse_seek_command_def split: if_splits)
  qed
  obtain q r where q: "c_string mem' = SPECIAL_STR_PREFIX @ q @ r" "q \<noteq> []" "is_digit (last q)"
    "n = length (c_string mem') - length r"
    using sscanf_seek_2 [OF p(2)] by blast
  have "r = []"
  proof (rule ccontr)
    assume "r \<noteq> []"
    then have n: "n < length (c_string mem')" using q(1,4) by simp
    then have "c_string mem' ! n = mem' ! n" unfolding c_string_def by (rule takeWhile_nth)
    moreover have "c_string mem' ! n \<noteq> nul"
      using nth_mem [OF n] by (auto simp: c_string_def dest: set_takeWhileD)
    ultimately show False using p(3) by simp
  qed
  with p(1) q show ?thesis by auto
qed

text \<open>
  Whether a command is recognised depends on memory the server does not own. The block that is
  parsed has no terminating zero; if the byte after it is neither a zero nor a line end nor a
  digit, and a zero follows that, the command with its newline is taken for ordinary text, while a
  zero right after the block makes it a command.
\<close>

theorem recognition_depends_on_memory_behind:
  assumes "c \<noteq> nul" and "\<not> crlf c" and "\<not> is_digit c" and "sz = length (seek_text x y @ [newline])"
  shows "\<exists>mem mem'.
    parse_seek_command sz (Some ((seek_text x y @ [newline]) @ nul # rest)) =
      Inr (Some mem, Some \<lparr>write_cmd = x, write_cmd_offset = y\<rparr>) \<and>
    parse_seek_command sz (Some ((seek_text x y @ [newline]) @ c # nul # rest)) = Inr (Some mem', None)"
proof -
  let ?s = "seek_text x y @ [newline, c]"
  have z: "nul \<notin> set ?s" using seek_text_chars assms(1) by auto
  have trim: "trim_crlf sz (?s @ nul # rest) = Inr (?s @ nul # rest)"
    by (rule trim_crlf_no_line_end [OF z]) (use assms(2) in simp)
  have no: "parse_seek_command sz (Some (?s @ nul # rest)) \<noteq> Inr (Some mem', Some sk)" for mem' sk
  proof
    assume "parse_seek_command sz (Some (?s @ nul # rest)) = Inr (Some mem', Some sk)"
    from parse_seek_command_recognised [OF this] trim
    obtain p where "c_string (?s @ nul # rest) = SPECIAL_STR_PREFIX @ p" "p \<noteq> []" "is_digit (last p)" by auto
    moreover have "c_string (?s @ nul # rest) = ?s" by (rule c_string_append [OF z])
    ultimately have "is_digit (last ?s)" by (metis last_append append_is_Nil_conv)
    with assms(3) show False by simp
  qed
  have "\<exists>mem' r. parse_seek_command sz (Some (?s @ nul # rest)) = Inr (Some mem', r)"
    using trim by (auto simp: parse_seek_command_def split: prod.splits option.splits)
  then obtain mem' where "parse_seek_command sz (Some (?s @ nul # rest)) = Inr (Some mem', None)"
    using no by (metis option.exhaust)
  moreover obtain mem where "parse_seek_command sz (Some ((seek_text x y @ [newline]) @ nul # rest)) =
      Inr (Some mem, Some \<lparr>write_cmd = x, write_cmd_offset = y\<rparr>)"
    using parse_seek_text [of "[newline]" sz x y rest] assms(4) by (auto simp: crlf_def)
  ultimately show ?thesis by auto
qed

lemma recognition_depends_on_memory_behind_witness:
  "\<exists>mem mem'.
    parse_seek_command 23 (Some ((seek_text 3 7 @ [newline]) @ nul # [])) =
      Inr (Some mem, Some \<lparr>write_cmd = 3, write_cmd_offset = 7\<rparr>) \<and>
    parse_seek_command 23 (Some ((seek_text 3 7 @ [newline]) @ CHR ''x'' # nul # [])) = Inr (Some mem', None)"
  by (rule recognition_depends_on_memory_behind)
    (simp_all add: crlf_def is_digit_def seek_text_def SPECIAL_STR_PREFIX_def show_dec.simps)

text \<open>Text without the prefix is never a command, whatever is trimmed.\<close>

lemma parse_ordinary:
  assumes "nul \<notin> set s" and "length s \<le> sz" and "take 19 s \<noteq> SPECIAL_STR_PREFIX"
  shows "\<exists>mem. parse_seek_command sz (Some (s @ nul # rest)) = Inr (Some mem, None)"
proof -
  let ?mem = "rstrip s @ nul # replicate (length s - length (rstrip s)) nul @ rest"
  have trim: "trim_crlf sz (s @ nul # rest) = Inr ?mem"
    by (rule trim_crlf_block [OF assms(1,2)])
  obtain t where t: "s = rstrip s @ t" using rstrip_prefix by blast
  have no: "parse_seek_command sz (Some (s @ nul # rest)) \<noteq> Inr (Some mem', Some sk)" for mem' sk
  proof
    assume "parse_seek_command sz (Some (s @ nul # rest)) = Inr (Some mem', Some sk)"
    from parse_seek_command_recognised [OF this] trim
    obtain p where "c_string ?mem = SPECIAL_STR_PREFIX @ p" by auto
    moreover have "nul \<notin> set (rstrip s)" using assms(1) t by (metis UnI1 set_append)
    then have "c_string ?mem = rstrip s" by (rule c_string_append)
    ultimately have "s = SPECIAL_STR_PREFIX @ p @ t" using t by simp
    moreover have "length SPECIAL_STR_PREFIX = 19" by (simp add: SPECIAL_STR_PREFIX_def)
    ultimately show False using assms(3) by simp
  qed
  have "\<exists>mem' r. parse_seek_command sz (Some (s @ nul # rest)) = Inr (Some mem', r)"
    using trim by (auto simp: parse_seek_command_def split: prod.splits option.splits)
  then show ?thesis using no by (metis option.exhaust)
qed

end
