(* ===== verification/Socket_Server.thy ===== *)
theory Socket_Server
  imports Seek_Command
begin

text \<open>
  \<^verbatim>\<open>server/aesdsocket.c\<close>. The system calls are arguments of the model: a record \<open>os\<close> of
  functions on a state \<open>'w\<close> of the rest of the world. A function of the server returns \<open>None\<close> when
  it never returns (a write that is interrupted for ever, a mutex that is never released), a fault,
  or its result with the new state. The server runs one connection at a time: \<^verbatim>\<open>main\<close> joins each
  thread before it accepts the next connection, so a thread is a call. What goes to the log is left
  out.
\<close>

section \<open>The world and the state of the server\<close>

datatype io_read = Got "byte list" | Read_Error
datatype io_write = Wrote nat | Write_EINTR | Write_Error

record 'w os =
  sys_open :: "byte list \<Rightarrow> 'w \<Rightarrow> fault + (int \<times> 'w)"
  sys_close :: "int \<Rightarrow> 'w \<Rightarrow> 'w"
  sys_unlink :: "byte list \<Rightarrow> 'w \<Rightarrow> 'w"
  sys_read :: "int \<Rightarrow> nat \<Rightarrow> 'w \<Rightarrow> fault + (io_read \<times> 'w)"
  sys_write :: "int \<Rightarrow> byte list \<Rightarrow> 'w \<Rightarrow> fault + (io_write \<times> 'w)"
  sys_ioctl :: "int \<Rightarrow> u32 \<Rightarrow> aesd_seekto \<Rightarrow> 'w \<Rightarrow> fault + 'w"
  sys_malloc :: "nat \<Rightarrow> 'w \<Rightarrow> bool \<times> 'w"
  behind_block :: "'w \<Rightarrow> byte list"       \<comment> \<open>the bytes in memory after a new block\<close>
  sys_pthread_create :: "'w \<Rightarrow> bool \<times> 'w"
  sys_accept :: "int \<Rightarrow> 'w \<Rightarrow> int \<times> bool \<times> 'w"  \<comment> \<open>and whether a signal was delivered meanwhile\<close>
  sys_signal :: "'w \<Rightarrow> bool"              \<comment> \<open>whether one was delivered while the last client was served\<close>

text \<open>
  The statics of the server, and what it holds: the descriptors it has open and the number of its
  live heap blocks.
\<close>

record 'w server =
  world :: 'w
  mutex_held :: bool
  quit_sig :: bool
  timer_error_flag :: bool
  open_fds :: "int list"
  live_blocks :: nat

type_synonym ('a, 'w) run = "(fault + 'a \<times> 'w server) option"

definition then_run :: "('a, 'w) run \<Rightarrow> ('a \<times> 'w server \<Rightarrow> ('b, 'w) run) \<Rightarrow> ('b, 'w) run" where
  "then_run m f = (case m of None \<Rightarrow> None | Some (Inl e) \<Rightarrow> Some (Inl e) | Some (Inr x) \<Rightarrow> f x)"

lemma then_run_simps [simp]:
  "then_run None f = None" "then_run (Some (Inl e)) f = Some (Inl e)" "then_run (Some (Inr x)) f = f x"
  by (simp_all add: then_run_def)

text \<open>A system call: the world changes, the rest of the server does not.\<close>

definition call :: "(fault + 'a \<times> 'w) \<Rightarrow> 'w server \<Rightarrow> ('a, 'w) run" where
  "call r s = Some (case r of Inl e \<Rightarrow> Inl e | Inr (x, w) \<Rightarrow> Inr (x, s\<lparr>world := w\<rparr>))"

lemma call_simps [simp]:
  "call (Inl e) s = Some (Inl e)" "call (Inr (x, w)) s = Some (Inr (x, s\<lparr>world := w\<rparr>))"
  by (simp_all add: call_def)

definition open_file :: "'w os \<Rightarrow> byte list \<Rightarrow> 'w server \<Rightarrow> (int, 'w) run" where
  "open_file os path s = then_run (call (sys_open os path (world s)) s) (\<lambda>(fd, s).
     Some (Inr (fd, if fd = - 1 then s else s\<lparr>open_fds := fd # open_fds s\<rparr>)))"

definition close_fd :: "'w os \<Rightarrow> int \<Rightarrow> 'w server \<Rightarrow> 'w server" where
  "close_fd os fd s = s\<lparr>world := sys_close os fd (world s), open_fds := remove1 fd (open_fds s)\<rparr>"

definition malloc :: "'w os \<Rightarrow> nat \<Rightarrow> 'w server \<Rightarrow> bool \<times> 'w server" where
  "malloc os n s =
     (let (ok, w) = sys_malloc os n (world s) in
      (ok, s\<lparr>world := w, live_blocks := live_blocks s + (if ok then 1 else 0)\<rparr>))"

definition free_block :: "'w server \<Rightarrow> 'w server" where
  "free_block s = s\<lparr>live_blocks := live_blocks s - 1\<rparr>"

definition BUF_SIZE :: nat where
  "BUF_SIZE = 1024"

definition OUT_FILE :: "byte list" where
  "OUT_FILE = ''/dev/aesdchar''"

text \<open>\<^verbatim>\<open>snprintf(..., "/var/tmp/aesdsocket%02d", new_fd)\<close>.\<close>

definition tmp_file_name :: "int \<Rightarrow> byte list" where
  "tmp_file_name fd =
     ''/var/tmp/aesdsocket'' @ (if fd < 10 then ''0'' else []) @ show_dec (nat fd)"

definition sig_handler :: "'w server \<Rightarrow> 'w server" where
  "sig_handler s = s\<lparr>quit_sig := True\<rparr>"

section \<open>\<^verbatim>\<open>write_all\<close>\<close>

text \<open>The loop, from \<open>sent\<close> on. An interrupted write is tried again, for ever if need be.\<close>

partial_function (option) write_all_loop ::
  "'w os \<Rightarrow> int \<Rightarrow> byte list \<Rightarrow> nat \<Rightarrow> 'w server \<Rightarrow> (s32, 'w) run" where
  "write_all_loop os fd p sent s =
     (if sent < length p then
        (case sys_write os fd (drop sent p) (world s) of
           Inl e \<Rightarrow> Some (Inl e)
         | Inr (r, w) \<Rightarrow>
             (case r of
                Wrote n \<Rightarrow> if 0 < n then write_all_loop os fd p (sent + n) (s\<lparr>world := w\<rparr>)
                           else Some (Inr (- 1, s\<lparr>world := w\<rparr>))
              | Write_EINTR \<Rightarrow> write_all_loop os fd p sent (s\<lparr>world := w\<rparr>)
              | Write_Error \<Rightarrow> Some (Inr (- 1, s\<lparr>world := w\<rparr>))))
      else Some (Inr (0, s)))"

definition write_all :: "'w os \<Rightarrow> int \<Rightarrow> byte list \<Rightarrow> 'w server \<Rightarrow> (s32, 'w) run" where
  "write_all os fd buf s = write_all_loop os fd buf 0 s"

section \<open>\<^verbatim>\<open>write_to_out_file\<close>\<close>

text \<open>
  The mutex is taken first and given back at the end only: the two error returns keep it. A call
  that finds it taken waits for ever. The copy that is parsed is not released.
\<close>

definition store_or_seek :: "'w os \<Rightarrow> int \<Rightarrow> byte list \<Rightarrow> 'w server \<Rightarrow> (s32, 'w) run" where
  "store_or_seek os out_fd buf s =
     (let (ok, s) = malloc os (length buf) s in
      if \<not> ok then Some (Inr (- 1, s))
      else
        (case parse_seek_command (length buf) (Some (buf @ behind_block os (world s))) of
           Inl e \<Rightarrow> Some (Inl e)
         | Inr (_, command) \<Rightarrow>
             then_run
               (case command of
                  Some seekto \<Rightarrow>
                    call (bnd (sys_ioctl os out_fd AESDCHAR_IOCSEEKTO seekto (world s)) (\<lambda>w. Inr (0, w))) s
                | None \<Rightarrow> write_all os out_fd buf s)
               (\<lambda>(err, s). Some (Inr (err, s\<lparr>mutex_held := False\<rparr>)))))"

text \<open>Taking the mutex, and opening the device where no descriptor is given.\<close>

definition enter_out_file :: "'w os \<Rightarrow> int \<Rightarrow> 'w server \<Rightarrow> (int, 'w) run" where
  "enter_out_file os out_fd s =
     (if mutex_held s then None
      else
        (let s = s\<lparr>mutex_held := True\<rparr> in
         if out_fd = - 1 then open_file os OUT_FILE s else Some (Inr (out_fd, s))))"

definition write_to_out_file :: "'w os \<Rightarrow> int \<Rightarrow> byte list \<Rightarrow> 'w server \<Rightarrow> (s32, 'w) run" where
  "write_to_out_file os out_fd buf s =
     then_run (enter_out_file os out_fd s) (\<lambda>(out_fd, s).
       if out_fd = - 1 then Some (Inr (- 1, s)) else store_or_seek os out_fd buf s)"

lemmas write_to_out_file_unfold = write_to_out_file_def enter_out_file_def store_or_seek_def

section \<open>\<^verbatim>\<open>proc_new_connection\<close>\<close>

text \<open>
  The loop that receives. \<open>err\<close> is the pointer \<^verbatim>\<open>err\<close>: \<open>None\<close> if it is null, otherwise what it
  points to. The source tests the pointer (\<^verbatim>\<open>if(err != 0)\<close>), not the value. The result is
  \<^verbatim>\<open>*err\<close>, and the bytes of \<^verbatim>\<open>buffer\<close> that the last \<^verbatim>\<open>read\<close> filled.
\<close>

partial_function (option) receive_loop ::
  "'w os \<Rightarrow> int \<Rightarrow> int \<Rightarrow> s32 option \<Rightarrow> 'w server \<Rightarrow> (s32 option \<times> byte list, 'w) run" where
  "receive_loop os new_fd tmp_fd err s =
     (case sys_read os new_fd BUF_SIZE (world s) of
        Inl e \<Rightarrow> Some (Inl e)
      | Inr (r, w) \<Rightarrow>
          (case r of
             Read_Error \<Rightarrow>
               (if err = None then Some (Inl NullDeref) else Some (Inr ((Some (- 1), []), s\<lparr>world := w\<rparr>)))
           | Got bs \<Rightarrow>
               if bs = [] then Some (Inr ((err, []), s\<lparr>world := w\<rparr>))
               else
                 (case write_all os tmp_fd bs (s\<lparr>world := w\<rparr>) of
                    None \<Rightarrow> None
                  | Some (Inl e) \<Rightarrow> Some (Inl e)
                  | Some (Inr (v, s)) \<Rightarrow>
                      if err = None then Some (Inl NullDeref)
                      else
                        (let err = Some v in
                         if err \<noteq> None then Some (Inr ((err, bs), s))
                         else if newline \<in> set bs then Some (Inr ((err, bs), s))
                         else receive_loop os new_fd tmp_fd err s))))"

text \<open>The loop that sends the file back.\<close>

partial_function (option) send_back_loop ::
  "'w os \<Rightarrow> int \<Rightarrow> int \<Rightarrow> s32 \<Rightarrow> 'w server \<Rightarrow> (s32, 'w) run" where
  "send_back_loop os out_fd new_fd err s =
     (case sys_read os out_fd BUF_SIZE (world s) of
        Inl e \<Rightarrow> Some (Inl e)
      | Inr (r, w) \<Rightarrow>
          (case r of
             Read_Error \<Rightarrow> Some (Inr (1, s\<lparr>world := w\<rparr>))
           | Got bs \<Rightarrow>
               if bs = [] then Some (Inr (err, s\<lparr>world := w\<rparr>))
               else
                 (case write_all os new_fd bs (s\<lparr>world := w\<rparr>) of
                    None \<Rightarrow> None
                  | Some (Inl e) \<Rightarrow> Some (Inl e)
                  | Some (Inr (v, s)) \<Rightarrow>
                      if v \<noteq> 0 then Some (Inr (v, s)) else send_back_loop os out_fd new_fd v s)))"

text \<open>
  The thread: it returns the pointer \<^verbatim>\<open>err\<close>, \<open>None\<close> being the null pointer of
  \<^verbatim>\<open>pthread_exit(NULL)\<close>. The block of its argument is released first.
\<close>

definition proc_new_connection :: "'w os \<Rightarrow> int \<Rightarrow> 'w server \<Rightarrow> (s32 option, 'w) run" where
  "proc_new_connection os new_fd s =
     (let s = free_block s; (ok, s) = malloc os 4 s in
      if \<not> ok then Some (Inr (None, s))
      else
        then_run (open_file os (tmp_file_name new_fd) s) (\<lambda>(tmp_fd, s).
        if tmp_fd = - 1 then Some (Inr (Some 1, s))
        else
          then_run (receive_loop os new_fd tmp_fd (Some 0) s) (\<lambda>((err, buf), s).
          let s = close_fd os tmp_fd s;
              s = s\<lparr>world := sys_unlink os (tmp_file_name new_fd) (world s)\<rparr>
          in
          if err \<noteq> Some 0 then Some (Inr (err, s))
          else
            then_run (open_file os OUT_FILE s) (\<lambda>(out_fd, s).
            then_run (write_to_out_file os out_fd buf s) (\<lambda>(err, s).
            if err \<noteq> 0 then Some (Inr (Some err, s))
            else
              then_run (send_back_loop os out_fd new_fd err s) (\<lambda>(err, s).
              Some (Inr (Some err, close_fd os new_fd (close_fd os out_fd s)))))))))"

section \<open>\<^verbatim>\<open>create_thread_and_run\<close>\<close>

definition create_thread_and_run :: "'w os \<Rightarrow> int \<Rightarrow> 'w server \<Rightarrow> (s32, 'w) run" where
  "create_thread_and_run os new_fd s =
     (let (ok, s) = malloc os 4 s in
      if \<not> ok then Some (Inr (1, s))
      else
        (let (ok, w) = sys_pthread_create os (world s); s = s\<lparr>world := w\<rparr> in
         if \<not> ok then Some (Inr (1, s))
         else
           then_run (proc_new_connection os new_fd s) (\<lambda>(ret, s).
           case ret of
             None \<Rightarrow> Some (Inl NullDeref)
           | Some err \<Rightarrow> if err \<noteq> 0 then Some (Inr (1, s)) else Some (Inr (0, free_block s)))))"

section \<open>\<^verbatim>\<open>main\<close>\<close>

text \<open>
  The loop over the connections; the result of \<^verbatim>\<open>create_thread_and_run\<close> is not used. The handler
  only sets \<^verbatim>\<open>quit_sig\<close>, which is read here only; so it does not matter when exactly, while a client
  is served, a signal arrives.
\<close>

partial_function (option) accept_loop :: "'w os \<Rightarrow> int \<Rightarrow> 'w server \<Rightarrow> (unit, 'w) run" where
  "accept_loop os sock s =
     (if quit_sig s then Some (Inr ((), s))
      else
        (case sys_accept os sock (world s) of
           (new_fd, signal, w) \<Rightarrow>
             (let s = (if signal then sig_handler else id) (s\<lparr>world := w\<rparr>) in
              if new_fd = - 1 then Some (Inr ((), s))
              else
                (case create_thread_and_run os new_fd (s\<lparr>open_fds := new_fd # open_fds s\<rparr>) of
                   None \<Rightarrow> None
                 | Some (Inl e) \<Rightarrow> Some (Inl e)
                 | Some (Inr (_, s)) \<Rightarrow>
                     (let s = (if sys_signal os (world s) then sig_handler else id) s in
                      if timer_error_flag s then Some (Inr ((), s)) else accept_loop os sock s)))))"

text \<open>
  \<^verbatim>\<open>main\<close>: what \<^verbatim>\<open>socket\<close> and the preparations return are arguments (\<open>sock\<close> is
  \<open>-1\<close>, or the others are false, when they fail). The result is the exit status; \<^verbatim>\<open>err\<close> is never
  set, so the label \<^verbatim>\<open>CLOSE\<close> is left with status 0. The list that \<^verbatim>\<open>getaddrinfo\<close> returns is one block
  of memory here; \<^verbatim>\<open>freeaddrinfo\<close> stands behind \<^verbatim>\<open>bind\<close>.
\<close>

definition server_main ::
  "'w os \<Rightarrow> int \<Rightarrow> bool \<Rightarrow> bool \<Rightarrow> bool \<Rightarrow> bool \<Rightarrow> 'w server \<Rightarrow> (s32, 'w) run" where
  "server_main os sock addrinfo_ok setsockopt_ok bind_ok listen_ok s =
     (if sock = - 1 then Some (Inr (- 1, s))
      else
        (let s = s\<lparr>open_fds := sock # open_fds s\<rparr> in
         if \<not> addrinfo_ok then Some (Inr (0, close_fd os sock s))
         else
           (let s = s\<lparr>live_blocks := Suc (live_blocks s)\<rparr> in
            if \<not> setsockopt_ok then Some (Inr (0, close_fd os sock s))
            else if \<not> bind_ok then Some (Inr (0, close_fd os sock s))
            else
              (let s = free_block s in
               if \<not> listen_ok then Some (Inr (- 1, close_fd os sock s))
               else then_run (accept_loop os sock s) (\<lambda>(_, s). Some (Inr (0, close_fd os sock s)))))))"

section \<open>The time stamps\<close>

text \<open>
  \<^verbatim>\<open>write_time_to_file\<close>: \<open>now\<close> is the result of \<^verbatim>\<open>time\<close>, \<open>local_time\<close> whether
  \<^verbatim>\<open>localtime\<close> succeeds, \<open>stamp\<close> what \<^verbatim>\<open>strftime\<close> writes into its 64 bytes (empty when it fails).
\<close>

definition write_time_to_file ::
  "'w os \<Rightarrow> int \<Rightarrow> bool \<Rightarrow> byte list \<Rightarrow> 'w server \<Rightarrow> (unit, 'w) run" where
  "write_time_to_file os now local_time stamp s =
     (if now = - 1 then Some (Inr ((), s\<lparr>timer_error_flag := True\<rparr>))
      else if \<not> local_time then Some (Inr ((), s\<lparr>timer_error_flag := True\<rparr>))
      else if stamp = [] then Some (Inr ((), s\<lparr>timer_error_flag := True\<rparr>))
      else
        then_run (write_to_out_file os (- 1) stamp s) (\<lambda>(err, s).
        Some (Inr ((), if err \<noteq> 0 then s\<lparr>timer_error_flag := True\<rparr> else s))))"

text \<open>\<^verbatim>\<open>write_prdc_to_file\<close>: what \<^verbatim>\<open>timer_create\<close> and \<^verbatim>\<open>timer_settime\<close> return.\<close>

definition write_prdc_to_file :: "s32 \<Rightarrow> s32 \<Rightarrow> s32" where
  "write_prdc_to_file created armed = (if created = - 1 then 1 else if armed = - 1 then 1 else 0)"

end
