(* ===== verification/Server_Relay.thy ===== *)
theory Server_Relay
  imports Socket_Server
begin

text \<open>
  The two loops of the server over what they rely on: a descriptor that takes bytes
  (\<open>byte_sink\<close>), and one that gives bytes while the other takes them (\<open>byte_relay\<close>). Both loops are
  shown to return, and to move every byte exactly once, however the writes are cut and as long as
  they are not interrupted for ever.
\<close>

lemma world_idem [simp]: "s\<lparr>world := w, world := w'\<rparr> = s\<lparr>world := w'\<rparr>"
  by simp

section \<open>A descriptor that takes bytes\<close>

text \<open>
  \<open>rep w out\<close>: the descriptor has taken the bytes \<open>out\<close>. A write takes some of its bytes, at least
  one, or is interrupted, which happens only \<open>patience\<close> times.
\<close>

locale byte_sink =
  fixes os :: "'w os" and fd :: int and rep :: "'w \<Rightarrow> byte list \<Rightarrow> bool" and patience :: "'w \<Rightarrow> nat"
  assumes takes: "rep w out \<Longrightarrow> bs \<noteq> [] \<Longrightarrow>
      (\<exists>n w'. sys_write os fd bs w = Inr (Wrote n, w') \<and> 0 < n \<and> n \<le> length bs \<and> rep w' (out @ take n bs)) \<or>
      (\<exists>w'. sys_write os fd bs w = Inr (Write_EINTR, w') \<and> patience w' < patience w \<and> rep w' out)"
begin

lemma write_all_loop_writes:
  assumes "rep (world s) out" and "k \<le> length p"
  shows "\<exists>w'. write_all_loop os fd p k s = Some (Inr (0, s\<lparr>world := w'\<rparr>)) \<and> rep w' (out @ drop k p)"
  using assms
proof (induction "(length p - k, patience (world s))" arbitrary: k s out rule: wf_induct_rule [OF wf_lex_prod [OF wf_measure [of id] wf_measure [of id]]])
  case (1 k s out)
  show ?case
  proof (cases "k < length p")
    case False
    with 1(2,3) show ?thesis
      by (subst write_all_loop.simps) (auto intro!: exI [of _ "world s"])
  next
    case True
    then have "drop k p \<noteq> []" by simp
    from takes [OF 1(2) this] show ?thesis
    proof (elim disjE exE conjE)
      fix n w' assume w: "sys_write os fd (drop k p) (world s) = Inr (Wrote n, w')" "0 < n"
        "n \<le> length (drop k p)" "rep w' (out @ take n (drop k p))"
      have "\<exists>w''. write_all_loop os fd p (k + n) (s\<lparr>world := w'\<rparr>) =
          Some (Inr (0, (s\<lparr>world := w'\<rparr>)\<lparr>world := w''\<rparr>)) \<and>
          rep w'' ((out @ take n (drop k p)) @ drop (k + n) p)"
        by (rule 1(1)) (use w True in auto)
      moreover have "take n (drop k p) @ drop (k + n) p = drop k p"
        by (metis add.commute append_take_drop_id drop_drop)
      ultimately show ?thesis
        using w(1,2) True by (subst write_all_loop.simps) auto
    next
      fix w' assume w: "sys_write os fd (drop k p) (world s) = Inr (Write_EINTR, w')"
        "patience w' < patience (world s)" "rep w' out"
      have "\<exists>w''. write_all_loop os fd p k (s\<lparr>world := w'\<rparr>) =
          Some (Inr (0, (s\<lparr>world := w'\<rparr>)\<lparr>world := w''\<rparr>)) \<and> rep w'' (out @ drop k p)"
        by (rule 1(1)) (use w True in auto)
      then show ?thesis
        using w(1) True by (subst write_all_loop.simps) auto
    qed
  qed
qed

lemma write_all_writes:
  assumes "rep (world s) out"
  shows "\<exists>w'. write_all os fd p s = Some (Inr (0, s\<lparr>world := w'\<rparr>)) \<and> rep w' (out @ p)"
  using write_all_loop_writes [OF assms, of 0 p] by (simp add: write_all_def)

end

section \<open>From one descriptor to another\<close>

text \<open>\<open>rep w rest out\<close>: \<open>rest\<close> is still to be read from \<open>src\<close>, \<open>out\<close> has been taken by \<open>dst\<close>.\<close>

locale byte_relay =
  fixes os :: "'w os" and src dst :: int
    and rep :: "'w \<Rightarrow> byte list \<Rightarrow> byte list \<Rightarrow> bool" and patience :: "'w \<Rightarrow> nat"
  assumes gives: "rep w rest out \<Longrightarrow>
      \<exists>w'. sys_read os src BUF_SIZE w = Inr (Got (take BUF_SIZE rest), w') \<and> rep w' (drop BUF_SIZE rest) out"
    and taken: "rep w rest out \<Longrightarrow> bs \<noteq> [] \<Longrightarrow>
      (\<exists>n w'. sys_write os dst bs w = Inr (Wrote n, w') \<and> 0 < n \<and> n \<le> length bs \<and> rep w' rest (out @ take n bs)) \<or>
      (\<exists>w'. sys_write os dst bs w = Inr (Write_EINTR, w') \<and> patience w' < patience w \<and> rep w' rest out)"

sublocale byte_relay \<subseteq> sink: byte_sink os dst "\<lambda>w. rep w rest" patience for rest
  by unfold_locales (rule taken)

context byte_relay begin

lemma send_back_sends:
  assumes "rep (world s) rest out"
  shows "\<exists>w'. send_back_loop os src dst 0 s = Some (Inr (0, s\<lparr>world := w'\<rparr>)) \<and> rep w' [] (out @ rest)"
  using assms
proof (induction "length rest" arbitrary: rest s out rule: less_induct)
  case less
  obtain w1 where w1: "sys_read os src BUF_SIZE (world s) = Inr (Got (take BUF_SIZE rest), w1)"
    "rep w1 (drop BUF_SIZE rest) out"
    using gives [OF less.prems] by blast
  show ?case
  proof (cases "rest = []")
    case True
    with w1 show ?thesis by (subst send_back_loop.simps) auto
  next
    case False
    then have ne: "take BUF_SIZE rest \<noteq> []" by (simp add: BUF_SIZE_def)
    obtain w2 where w2: "write_all os dst (take BUF_SIZE rest) (s\<lparr>world := w1\<rparr>) =
        Some (Inr (0, (s\<lparr>world := w1\<rparr>)\<lparr>world := w2\<rparr>))"
      "rep w2 (drop BUF_SIZE rest) (out @ take BUF_SIZE rest)"
      using sink.write_all_writes [of "s\<lparr>world := w1\<rparr>" "drop BUF_SIZE rest" out] w1(2) by auto
    have "\<exists>w'. send_back_loop os src dst 0 (s\<lparr>world := w2\<rparr>) =
        Some (Inr (0, (s\<lparr>world := w2\<rparr>)\<lparr>world := w'\<rparr>)) \<and>
        rep w' [] ((out @ take BUF_SIZE rest) @ drop BUF_SIZE rest)"
      by (rule less.hyps) (use w2(2) False in \<open>auto simp: BUF_SIZE_def\<close>)
    then show ?thesis
      using w1(1) w2(1) ne by (subst send_back_loop.simps) auto
  qed
qed

end

end
