(* ===== verification/Server_Node.thy ===== *)
theory Server_Node
  imports Server_Relay Driver_Control
begin

text \<open>
  The server on a machine with the driver loaded: the system calls on \<^verbatim>\<open>/dev/aesdchar\<close> are the
  driver's operations, through a file whose position the kernel keeps; a client is a queue of
  what it sends, piece by piece, and the bytes it has received; further clients wait until they are
  accepted. A signal arrives while a client is served, namely when no more than \<open>sig_left\<close> clients
  wait, or when none is left to accept. How much the client takes at each
  write, and when a write is interrupted, is a plan that is part of the state and arbitrary.
\<close>

section \<open>The machine\<close>

text \<open>A number 0 in \<open>accepts\<close> is an interrupted write; after the plan, writes are complete.\<close>

record node =
  drv :: driver
  dev_file :: kfile
  inbox :: "byte list list"
  outbox :: "byte list"
  accepts :: "nat list"
  behind :: "byte list"
  clients :: "byte list list list"   \<comment> \<open>the clients that wait\<close>
  delivered :: "byte list list"      \<comment> \<open>what the earlier clients received\<close>
  sig_left :: "nat option"

abbreviation (input) CLIENT_FD :: int where "CLIENT_FD \<equiv> 4"
abbreviation (input) DEV_FD :: int where "DEV_FD \<equiv> 5"
abbreviation (input) TMP_FD :: int where "TMP_FD \<equiv> 6"

definition node_open :: "byte list \<Rightarrow> node \<Rightarrow> fault + (int \<times> node)" where
  "node_open path w =
     (if path = OUT_FILE then Inr (DEV_FD, w\<lparr>dev_file := fresh_file\<rparr>) else Inr (TMP_FD, w))"

text \<open>The kernel stores the position after a read that does not fail.\<close>

definition node_read :: "int \<Rightarrow> nat \<Rightarrow> node \<Rightarrow> fault + (io_read \<times> node)" where
  "node_read fd n w =
     (if fd = DEV_FD then
        bnd (aesd_read (drv w) (dev_file w) user_fine (of_nat n) (f_pos (dev_file w))) (\<lambda>(s, pos, ret, bs).
          Inr (if sint ret < 0 then (Read_Error, w\<lparr>drv := s\<rparr>)
               else (Got bs, w\<lparr>drv := s, dev_file := (dev_file w)\<lparr>f_pos := pos\<rparr>\<rparr>)))
      else
        (case inbox w of
           [] \<Rightarrow> Inr (Got [], w)
         | c # cs \<Rightarrow> Inr (Got (take n c), w\<lparr>inbox := (if length c \<le> n then cs else drop n c # cs)\<rparr>)))"

definition node_write :: "int \<Rightarrow> byte list \<Rightarrow> node \<Rightarrow> fault + (io_write \<times> node)" where
  "node_write fd bs w =
     (if fd = DEV_FD then
        bnd (aesd_write (drv w) (dev_file w) user_fine bs (of_nat (length bs))) (\<lambda>(s, ret).
          Inr (if sint ret < 0 then Write_Error else Wrote (unat ret), w\<lparr>drv := s\<rparr>))
      else if fd = TMP_FD then Inr (Wrote (length bs), w)
      else
        (case accepts w of
           [] \<Rightarrow> Inr (Wrote (length bs), w\<lparr>outbox := outbox w @ bs\<rparr>)
         | 0 # ps \<Rightarrow> Inr (Write_EINTR, w\<lparr>accepts := ps\<rparr>)
         | k # ps \<Rightarrow> Inr (Wrote (min k (length bs)), w\<lparr>accepts := ps, outbox := outbox w @ take k bs\<rparr>)))"

definition node_ioctl :: "int \<Rightarrow> u32 \<Rightarrow> aesd_seekto \<Rightarrow> node \<Rightarrow> fault + node" where
  "node_ioctl fd cmd seekto w =
     bnd (aesd_unlocked_ioctl (drv w) (dev_file w) cmd (Some seekto)) (\<lambda>(filp, _).
       Inr (w\<lparr>dev_file := filp\<rparr>))"

definition node_accept :: "int \<Rightarrow> node \<Rightarrow> int \<times> bool \<times> node" where
  "node_accept sock w =
     (case clients w of
        [] \<Rightarrow> (- 1, True, w)
      | c # cs \<Rightarrow> (CLIENT_FD, False, w\<lparr>clients := cs, inbox := c, outbox := [], delivered := delivered w @ [outbox w]\<rparr>))"

definition node_signal :: "node \<Rightarrow> bool" where
  "node_signal w = (case sig_left w of None \<Rightarrow> False | Some k \<Rightarrow> length (clients w) \<le> k)"

definition node_os :: "node os" where
  "node_os = \<lparr>sys_open = node_open, sys_close = \<lambda>_ w. w, sys_unlink = \<lambda>_ w. w,
     sys_read = node_read, sys_write = node_write, sys_ioctl = node_ioctl,
     sys_malloc = \<lambda>_ w. (True, w), behind_block = behind, sys_pthread_create = \<lambda>w. (True, w),
     sys_accept = node_accept, sys_signal = node_signal\<rparr>"

section \<open>Reading the device and writing to the client\<close>

text \<open>Logs whose reads are in order from the first position to the end.\<close>

definition log_fine :: "line_log \<Rightarrow> bool" where
  "log_fine l \<longleftrightarrow> length (lines l) < 2147483648 \<and> end_pos (lines l) < 4294967296 \<and> in_order (lines l) \<and>
     first_pos (lines l) + length (contents (lines l)) \<le> end_pos (lines l)"

definition client_fd :: "int \<Rightarrow> bool" where
  "client_fd c \<longleftrightarrow> 0 \<le> c \<and> c \<noteq> DEV_FD \<and> c \<noteq> TMP_FD"

text \<open>What sending to a client does not touch.\<close>

definition frame :: "node \<Rightarrow> byte list \<times> byte list list \<times> byte list list list \<times> byte list list \<times> nat option" where
  "frame w = (behind w, inbox w, clients w, delivered w, sig_left w)"

lemma frame_updates [simp]:
  "frame (w\<lparr>drv := d\<rparr>) = frame w" "frame (w\<lparr>dev_file := f\<rparr>) = frame w"
  "frame (w\<lparr>accepts := ps\<rparr>) = frame w" "frame (w\<lparr>outbox := bs\<rparr>) = frame w"
  by (simp_all add: frame_def)

definition node_rep ::
  "int \<Rightarrow> line_log \<Rightarrow> (byte list \<times> byte list list \<times> byte list list list \<times> byte list list \<times> nat option) \<Rightarrow> node \<Rightarrow>
   byte list \<Rightarrow> byte list \<Rightarrow> bool" where
  "node_rep c l fr w rest out \<longleftrightarrow> frame w = fr \<and> client_fd c \<and> drv_repr (drv w) l \<and> log_fine l \<and> opened (dev_file w) \<and> outbox w = out \<and>
     (\<exists>k. f_pos (dev_file w) = of_nat (first_pos (lines l) + k) \<and>
          first_pos (lines l) + k \<le> end_pos (lines l) \<and> rest = drop k (contents (lines l)))"

lemma node_gives:
  assumes "node_rep c l fr w rest out"
  shows "\<exists>w'. node_read DEV_FD BUF_SIZE w = Inr (Got (take BUF_SIZE rest), w') \<and>
    node_rep c l fr w' (drop BUF_SIZE rest) out"
proof -
  obtain k where r: "drv_repr (drv w) l" and f: "opened (dev_file w)"
    and n: "length (lines l) < 2147483648" "end_pos (lines l) < 4294967296" "in_order (lines l)"
      "first_pos (lines l) + length (contents (lines l)) \<le> end_pos (lines l)"
    and k: "f_pos (dev_file w) = of_nat (first_pos (lines l) + k)"
      "first_pos (lines l) + k \<le> end_pos (lines l)" "rest = drop k (contents (lines l))"
    and out: "outbox w = out" "client_fd c" "frame w = fr"
    using assms by (auto simp: node_rep_def log_fine_def)
  let ?bs = "take BUF_SIZE rest"
  have "raed_result (lines l) k BUF_SIZE = Some ?bs"
    by (simp add: raed_result_def served_in_order [OF n(3)] k(3))
  then obtain s' where s': "aesd_read (drv w) (dev_file w) user_fine (of_nat BUF_SIZE) (f_pos (dev_file w)) =
      Inr (s', of_nat (first_pos (lines l) + k + length ?bs), of_nat (length ?bs), ?bs)" "drv_repr s' l"
    using aesd_read_served [OF r f n(1,2) _ _ k(2), of BUF_SIZE user_fine] k(1)
    by (auto simp: BUF_SIZE_def KMALLOC_MAX_SIZE_def simp del: of_nat_add)
  have "sint (of_nat (length ?bs) :: s64) = int (length ?bs)"
    by (rule sint_pos) (simp add: BUF_SIZE_def)
  then have run: "node_read DEV_FD BUF_SIZE w = Inr (Got ?bs, w\<lparr>drv := s',
      dev_file := (dev_file w)\<lparr>f_pos := of_nat (first_pos (lines l) + k + length ?bs)\<rparr>\<rparr>)"
    using s'(1) by (simp add: node_read_def del: of_nat_add length_take)
  have "first_pos (lines l) + (k + length ?bs) \<le> end_pos (lines l)"
  proof (cases "k \<le> length (contents (lines l))")
    case True
    then have "k + length ?bs \<le> length (contents (lines l))" by (simp add: k(3))
    with n(4) show ?thesis by linarith
  next
    case False
    with k show ?thesis by simp
  qed
  moreover have "drop BUF_SIZE rest = drop (k + length ?bs) (contents (lines l))"
    by (simp add: k(3) min_def add.commute)
  ultimately have "node_rep c l fr (w\<lparr>drv := s',
      dev_file := (dev_file w)\<lparr>f_pos := of_nat (first_pos (lines l) + k + length ?bs)\<rparr>\<rparr>) (drop BUF_SIZE rest) out"
    unfolding node_rep_def log_fine_def
    using s'(2) f n out
    by (simp add: opened_def add.assoc del: of_nat_add length_take)
      (intro exI [of _ "k + length ?bs"] conjI refl; simp)
  with run show ?thesis by blast
qed

interpretation dev_to_client: byte_relay node_os DEV_FD c "node_rep c l fr" "\<lambda>w. length (accepts w)"
  for c l fr
proof
  show "\<exists>w'. sys_read node_os DEV_FD BUF_SIZE w = Inr (Got (take BUF_SIZE rest), w') \<and>
      node_rep c l fr w' (drop BUF_SIZE rest) out" if "node_rep c l fr w rest out" for w rest out
    using node_gives [OF that] by (simp add: node_os_def)
next
  fix w rest out and bs :: "byte list"
  assume r: "node_rep c l fr w rest out" and bs: "bs \<noteq> []"
  show "(\<exists>n w'. sys_write node_os c bs w = Inr (Wrote n, w') \<and> 0 < n \<and> n \<le> length bs \<and>
        node_rep c l fr w' rest (out @ take n bs)) \<or>
      (\<exists>w'. sys_write node_os c bs w = Inr (Write_EINTR, w') \<and>
        length (accepts w') < length (accepts w) \<and> node_rep c l fr w' rest out)"
  proof (cases "accepts w")
    case Nil
    with r bs show ?thesis by (auto simp: node_os_def node_write_def node_rep_def client_fd_def)
  next
    case (Cons k ps)
    with r bs show ?thesis
      by (cases k) (auto simp: node_os_def node_write_def node_rep_def client_fd_def min_def)
  qed
qed

section \<open>One connection\<close>

lemma node_os_simps [simp]:
  "sys_open node_os = node_open" "sys_close node_os = (\<lambda>_ w. w)" "sys_unlink node_os = (\<lambda>_ w. w)"
  "sys_read node_os = node_read" "sys_write node_os = node_write" "sys_ioctl node_os = node_ioctl"
  "sys_malloc node_os = (\<lambda>_ w. (True, w))" "behind_block node_os = behind"
  "sys_pthread_create node_os = (\<lambda>w. (True, w))" "sys_accept node_os = node_accept"
  "sys_signal node_os = node_signal"
  by (simp_all add: node_os_def)

lemma malloc_node [simp]: "malloc node_os n s = (True, s\<lparr>live_blocks := live_blocks s + 1\<rparr>)"
  by (simp add: malloc_def)

lemma close_fd_node [simp]: "close_fd node_os fd s = s\<lparr>open_fds := remove1 fd (open_fds s)\<rparr>"
  by (simp add: close_fd_def)

lemma tmp_file_name_not_device [simp]: "tmp_file_name c \<noteq> OUT_FILE"
  by (simp add: tmp_file_name_def OUT_FILE_def)

lemma write_all_whole:
  assumes "sys_write os fd bs (world s) = Inr (Wrote (length bs), w)"
  shows "write_all os fd bs s = Some (Inr (0, if bs = [] then s else s\<lparr>world := w\<rparr>))"
proof (cases "bs = []")
  case True
  then show ?thesis by (simp add: write_all_def write_all_loop.simps)
next
  case False
  have stop: "write_all_loop os fd bs (length bs) s' = Some (Inr (0, s'))" for s' :: "'a server"
    by (subst write_all_loop.simps) simp
  show ?thesis
    unfolding write_all_def using False assms by (subst write_all_loop.simps) (simp add: stop)
qed

text \<open>The receiving loop reads once, because it tests the pointer and not the value.\<close>

lemma receive_once:
  assumes "client_fd c" and "inbox (world s) = bs # cs" and "bs \<noteq> []" "length bs \<le> BUF_SIZE"
  shows "receive_loop node_os c TMP_FD (Some 0) s =
    Some (Inr ((Some 0, bs), s\<lparr>world := (world s)\<lparr>inbox := cs\<rparr>\<rparr>))"
proof -
  have "node_read c BUF_SIZE (world s) = Inr (Got bs, (world s)\<lparr>inbox := cs\<rparr>)"
    using assms by (simp add: node_read_def client_fd_def)
  moreover have "write_all node_os TMP_FD bs s' = Some (Inr (0, s'))" for s'
    using write_all_whole [of node_os TMP_FD bs s' "world s'"] by (simp add: node_write_def)
  ultimately show ?thesis using assms(3) by (subst receive_loop.simps) simp
qed

text \<open>Ordinary text, and the memory behind its copy starting with a zero.\<close>

definition ordinary :: "byte list \<Rightarrow> bool" where
  "ordinary bs \<longleftrightarrow> bs \<noteq> [] \<and> length bs \<le> BUF_SIZE \<and> nul \<notin> set bs \<and> take 19 bs \<noteq> SPECIAL_STR_PREFIX"

lemma write_to_device:
  assumes r: "drv_repr (drv (world s)) l" and f: "opened (dev_file (world s))"
    and bs: "ordinary bs" "fits l bs" and b: "behind (world s) = nul # z" and m: "\<not> mutex_held s"
  shows "\<exists>d. write_to_out_file node_os DEV_FD bs s =
      Some (Inr (0, s\<lparr>world := (world s)\<lparr>drv := d\<rparr>, live_blocks := Suc (live_blocks s)\<rparr>)) \<and>
    drv_repr d (log_add l bs)"
proof -
  obtain d where d: "aesd_write (drv (world s)) (dev_file (world s)) user_fine bs (of_nat (length bs)) =
      Inr (d, of_nat (length bs))" "drv_repr d (log_add l bs)"
    using aesd_write_appends [OF r f user_fine_ok(1) bs(2)] by blast
  have n: "length bs \<le> 1024" using bs(1) by (simp add: ordinary_def BUF_SIZE_def)
  then have "sint (of_nat (length bs) :: s64) = int (length bs)" "unat (of_nat (length bs) :: u64) = length bs"
    by (simp_all add: sint_pos)
  then have w: "node_write DEV_FD bs (world s) = Inr (Wrote (length bs), (world s)\<lparr>drv := d\<rparr>)"
    using d(1) by (simp add: node_write_def)
  obtain mem where p: "parse_seek_command (length bs) (Some (bs @ nul # z)) = Inr (Some mem, None)"
    using parse_ordinary [of bs "length bs" z] bs(1) by (auto simp: ordinary_def)
  let ?s = "s\<lparr>mutex_held := True, live_blocks := Suc (live_blocks s)\<rparr>"
  have "write_all node_os DEV_FD bs ?s = Some (Inr (0, ?s\<lparr>world := (world s)\<lparr>drv := d\<rparr>\<rparr>))"
    using write_all_whole [of node_os DEV_FD bs ?s] w bs(1) by (simp add: ordinary_def)
  then have "write_to_out_file node_os DEV_FD bs s =
      Some (Inr (0, s\<lparr>world := (world s)\<lparr>drv := d\<rparr>, live_blocks := Suc (live_blocks s)\<rparr>))"
    using m p b by (simp add: write_to_out_file_unfold)
  with d(2) show ?thesis by blast
qed

text \<open>The server after it stored the client's bytes, about to read the device from its start.\<close>

definition connected :: "node server \<Rightarrow> byte list list \<Rightarrow> kfile \<Rightarrow> driver \<Rightarrow> node server" where
  "connected s cs f d = s\<lparr>open_fds := DEV_FD # open_fds s,
     world := (world s)\<lparr>inbox := cs, dev_file := f, drv := d\<rparr>,
     live_blocks := Suc (live_blocks s)\<rparr>"

lemma connected_simps [simp]:
  "world (connected s cs f d) = (world s)\<lparr>inbox := cs, dev_file := f, drv := d\<rparr>"
  "open_fds (connected s cs f d) = DEV_FD # open_fds s"
  "live_blocks (connected s cs f d) = Suc (live_blocks s)"
  "mutex_held (connected s cs f d) = mutex_held s"
  by (simp_all add: connected_def)

lemma connection_runs:
  assumes c: "client_fd c" and inb: "inbox (world s) = bs # cs" and bs: "bs \<noteq> []" "length bs \<le> BUF_SIZE"
    and live: "0 < live_blocks s"
    and w: "write_to_out_file node_os DEV_FD bs
        (s\<lparr>world := (world s)\<lparr>inbox := cs, dev_file := fresh_file\<rparr>, open_fds := DEV_FD # open_fds s\<rparr>) =
      Some (Inr (0, connected s cs f d))"
  shows "proc_new_connection node_os c s =
      then_run (send_back_loop node_os DEV_FD c 0 (connected s cs f d))
       (\<lambda>(err, s). Some (Inr (Some err, close_fd node_os c (close_fd node_os DEV_FD s))))"
proof -
  let ?s1 = "s\<lparr>open_fds := TMP_FD # open_fds s\<rparr>"
  have rec: "receive_loop node_os c TMP_FD (Some 0) ?s1 =
      Some (Inr ((Some 0, bs), ?s1\<lparr>world := (world s)\<lparr>inbox := cs\<rparr>\<rparr>))"
    using receive_once [OF c, of ?s1 bs cs] inb bs by simp
  let ?s2 = "s\<lparr>world := (world s)\<lparr>inbox := cs, dev_file := fresh_file\<rparr>, open_fds := DEV_FD # open_fds s\<rparr>"
  have "Suc (live_blocks s - 1) = live_blocks s" using live by simp
  then have "proc_new_connection node_os c s =
      then_run (write_to_out_file node_os DEV_FD bs ?s2) (\<lambda>(err, s).
        if err \<noteq> 0 then Some (Inr (Some err, s))
        else then_run (send_back_loop node_os DEV_FD c err s) (\<lambda>(err, s).
          Some (Inr (Some err, close_fd node_os c (close_fd node_os DEV_FD s)))))"
    using rec by (simp add: proc_new_connection_def free_block_def open_file_def node_open_def Let_def)
  then show ?thesis by (simp add: w)
qed

lemma connection_writes:
  assumes c: "client_fd c" and inb: "inbox (world s) = bs # cs" and bs: "ordinary bs" "fits l bs"
    and r: "drv_repr (drv (world s)) l" and b: "behind (world s) = nul # z"
    and m: "\<not> mutex_held s" "0 < live_blocks s"
  shows "\<exists>d. drv_repr d (log_add l bs) \<and>
    proc_new_connection node_os c s =
      then_run (send_back_loop node_os DEV_FD c 0 (connected s cs fresh_file d))
       (\<lambda>(err, s). Some (Inr (Some err, close_fd node_os c (close_fd node_os DEV_FD s))))"
proof -
  let ?s2 = "s\<lparr>world := (world s)\<lparr>inbox := cs, dev_file := fresh_file\<rparr>, open_fds := DEV_FD # open_fds s\<rparr>"
  obtain d where d: "write_to_out_file node_os DEV_FD bs ?s2 =
      Some (Inr (0, ?s2\<lparr>world := (world ?s2)\<lparr>drv := d\<rparr>, live_blocks := Suc (live_blocks s)\<rparr>))"
    "drv_repr d (log_add l bs)"
    using write_to_device [of ?s2 l bs z] r bs b m by auto
  then have "write_to_out_file node_os DEV_FD bs ?s2 = Some (Inr (0, connected s cs fresh_file d))"
    by (simp add: connected_def)
  with connection_runs [OF c inb _ _ m(2)] bs(1) d(2) show ?thesis by (auto simp: ordinary_def)
qed

lemma log_fine_short:
  assumes "drv_repr d l" and "length (lines l) \<le> 10"
  shows "log_fine l" "first_pos (lines l) = 0" "contents (lines l) = concat (lines l)"
proof -
  obtain m where ring: "ring_repr m (ring d) (lines l)" using drv_repr_ring [OF assms(1)] by blast
  have w: "window (lines l) = lines l" using assms(2) by (simp add: window_def)
  show f: "first_pos (lines l) = 0" and c: "contents (lines l) = concat (lines l)"
    using assms(2) w by (simp_all add: first_pos_def contents_def)
  have "end_pos (lines l) = length (contents (lines l))"
    using end_pos_contents [of "lines l"] assms(2) by simp
  moreover have "length (contents (lines l)) \<le> 41943040"
    using slot_order_bound [OF ring] by (simp only: length_slot_bytes)
  moreover have "in_order (lines l)" using assms(2) by (intro in_order_aligned) simp
  ultimately show "log_fine l" using f assms(2) by (simp add: log_fine_def)
qed

text \<open>A connection that stores a line and sends everything back, with all that it leaves alone.\<close>

lemma connection_echoes:
  assumes "client_fd c" and "inbox (world s) = bs # cs" and "ordinary bs" and "last bs = newline"
    and "fits l bs" and "drv_repr (drv (world s)) l" and "length (lines l) < 10"
    and "behind (world s) = nul # z" and "\<not> mutex_held s" and "0 < live_blocks s"
  shows "\<exists>w'. proc_new_connection node_os c s =
      Some (Inr (Some 0, s\<lparr>open_fds := remove1 c (open_fds s), world := w', live_blocks := Suc (live_blocks s)\<rparr>)) \<and>
    outbox w' = outbox (world s) @ concat (lines l) @ pending l @ bs \<and>
    drv_repr (drv w') (log_add l bs) \<and>
    frame w' = (behind (world s), cs, clients (world s), delivered (world s), sig_left (world s))"
proof -
  let ?l = "log_add l bs"
  obtain d where d: "drv_repr d ?l" and run: "proc_new_connection node_os c s =
      then_run (send_back_loop node_os DEV_FD c 0
         (connected s cs fresh_file d))
       (\<lambda>(err, s). Some (Inr (Some err, close_fd node_os c (close_fd node_os DEV_FD s))))"
    using connection_writes [OF assms(1-3,5,6,8-10)] by blast
  have l: "lines ?l = lines l @ [pending l @ bs]"
    using assms(4) by (simp add: log_add_def Let_def)
  then have short: "length (lines ?l) \<le> 10" using assms(7) by simp
  let ?s1 = "connected s cs fresh_file d"
  have "node_rep c ?l (frame (world ?s1)) (world ?s1) (concat (lines ?l)) (outbox (world s))"
    using d assms(1) log_fine_short [OF d short]
    by (auto simp: node_rep_def fresh_file_def aesd_open_def opened_def intro!: exI [of _ 0])
  then obtain w' where "send_back_loop node_os DEV_FD c 0 ?s1 = Some (Inr (0, ?s1\<lparr>world := w'\<rparr>))"
    "node_rep c ?l (frame (world ?s1)) w' [] (outbox (world s) @ concat (lines ?l))"
    using dev_to_client.send_back_sends by blast
  moreover have "frame (world ?s1) = (behind (world s), cs, clients (world s), delivered (world s), sig_left (world s))"
    by (simp add: frame_def)
  ultimately show ?thesis
    using run l by (intro exI [of _ w']) (simp add: node_rep_def connected_def)
qed

text \<open>
  C11: the whole system, client to kernel and back. A client sends a line of at most 1024 bytes that is no
  seek command, to a server on a machine whose driver keeps at most nine lines, and in memory a zero follows
  the copy of the line, which has none of its own. The client gets the bytes of all lines and of its own back,
  in order and complete, however the writes to it are cut or interrupted; the line is stored; the
  thread returns no error and both descriptors are closed; and one block of the server's heap is
  lost.
\<close>

theorem connection_echoes_history:
  assumes "client_fd c" and "inbox (world s) = bs # cs" and "ordinary bs" and "last bs = newline"
    and "fits l bs" and "drv_repr (drv (world s)) l" and "length (lines l) < 10"
    and "behind (world s) = nul # z" and "\<not> mutex_held s" and "0 < live_blocks s"
  shows "\<exists>s'. proc_new_connection node_os c s = Some (Inr (Some 0, s')) \<and>
    outbox (world s') = outbox (world s) @ concat (lines l) @ pending l @ bs \<and>
    drv_repr (drv (world s')) (log_add l bs) \<and> \<not> mutex_held s' \<and>
    open_fds s' = remove1 c (open_fds s) \<and> live_blocks s' = Suc (live_blocks s)"
  using connection_echoes [OF assms] assms(9) by auto

text \<open>A connection that stores a line and cannot read, because lines have been dropped.\<close>

lemma connection_fails:
  assumes "client_fd c" and "inbox (world s) = bs # cs" and "ordinary bs" and "last bs = newline"
    and "fits l bs" and "drv_repr (drv (world s)) l" and "10 \<le> length (lines l)"
    and "end_pos (lines l @ [pending l @ bs]) < 4294967296"
    and "behind (world s) = nul # z" and "\<not> mutex_held s" and "0 < live_blocks s"
  shows "\<exists>w'. proc_new_connection node_os c s =
      Some (Inr (Some 1, s\<lparr>open_fds := remove1 c (open_fds s), world := w', live_blocks := Suc (live_blocks s)\<rparr>)) \<and>
    outbox w' = outbox (world s) \<and> drv_repr (drv w') (log_add l bs) \<and>
    frame w' = (behind (world s), cs, clients (world s), delivered (world s), sig_left (world s))"
proof -
  let ?l = "log_add l bs"
  obtain d where d: "drv_repr d ?l" and run: "proc_new_connection node_os c s =
      then_run (send_back_loop node_os DEV_FD c 0
         (connected s cs fresh_file d))
       (\<lambda>(err, s). Some (Inr (Some err, close_fd node_os c (close_fd node_os DEV_FD s))))"
    using connection_writes [OF assms(1-3,5,6,9-11)] by blast
  have l: "lines ?l = lines l @ [pending l @ bs]"
    using assms(4) by (simp add: log_add_def Let_def)
  obtain m where "ring_repr m (ring d) (lines ?l)" using drv_repr_ring [OF d] by blast
  then have "[] \<notin> set (lines ?l)" by (auto simp: ring_repr_def line_ok_def)
  then have "0 < first_pos (lines ?l)"
    by (rule first_pos_evicted) (use l assms(7) in simp)
  then obtain d' where d': "aesd_read d fresh_file user_fine (of_nat BUF_SIZE) 0 = Inr (d', 0, - 1, [])"
    "drv_repr d' ?l"
    using aesd_read_outside [OF d fresh_file_opened, of BUF_SIZE 0 user_fine] l assms(8)
    by (auto simp: BUF_SIZE_def KMALLOC_MAX_SIZE_def)
  let ?w1 = "world (connected s cs fresh_file d)"
  have "f_pos fresh_file = 0" by (simp add: fresh_file_def aesd_open_def)
  then have "node_read DEV_FD BUF_SIZE ?w1 = Inr (Read_Error, ?w1\<lparr>drv := d'\<rparr>)"
    using d'(1) by (simp add: node_read_def)
  then have "send_back_loop node_os DEV_FD c 0 (connected s cs fresh_file d) =
      Some (Inr (1, (connected s cs fresh_file d)\<lparr>world := ?w1\<lparr>drv := d'\<rparr>\<rparr>))"
    by (subst send_back_loop.simps) (simp del: connected_simps)
  moreover have "frame (?w1\<lparr>drv := d'\<rparr>) = (behind (world s), cs, clients (world s), delivered (world s), sig_left (world s))"
    by (simp add: frame_def)
  ultimately show ?thesis
    using run d'(2) by (intro exI [of _ "?w1\<lparr>drv := d'\<rparr>"]) (simp add: connected_def)
qed

text \<open>
  C31: from the eleventh line on no client gets anything. The driver already keeps ten lines; the
  line is stored as before, but the file that the server has just opened is at position 0, which
  the ring no longer covers: the thread returns an error and the client has received nothing.
\<close>

theorem connection_fails_after_ten_lines:
  assumes "client_fd c" and "inbox (world s) = bs # cs" and "ordinary bs" and "last bs = newline"
    and "fits l bs" and "drv_repr (drv (world s)) l" and "10 \<le> length (lines l)"
    and "end_pos (lines l @ [pending l @ bs]) < 4294967296"
    and "behind (world s) = nul # z" and "\<not> mutex_held s" and "0 < live_blocks s"
  shows "\<exists>s'. proc_new_connection node_os c s = Some (Inr (Some 1, s')) \<and>
    outbox (world s') = outbox (world s) \<and> drv_repr (drv (world s')) (log_add l bs) \<and>
    lines (log_add l bs) = lines l @ [pending l @ bs]"
  using connection_fails [OF assms] assms(4) by (auto simp: log_add_def Let_def)

lemma length_show_dec: "n < 10 ^ Suc k \<Longrightarrow> length (show_dec n) \<le> Suc k"
proof (induction k arbitrary: n)
  case 0
  then show ?case by (subst show_dec.simps) simp
next
  case (Suc k)
  then have "n div 10 < 10 ^ Suc k" by (simp add: less_mult_imp_div_less)
  with Suc.IH [of "n div 10"] show ?case by (subst show_dec.simps) simp
qed

lemma seek_text_length: "length (seek_text x y) \<le> 40"
proof -
  have d: "length (show_dec (unat z)) \<le> 10" for z :: u32
    using length_show_dec [of "unat z" 9] unat_lt32 [of z] by simp
  from d [of x] d [of y] show ?thesis by (simp add: seek_text_def SPECIAL_STR_PREFIX_def)
qed

text \<open>
  C14: the seek command through the whole system. A client that sends
  \<^verbatim>\<open>AESDCHAR_IOCSEEKTO:x,y\<close> while the driver keeps at most ten lines, none dropped so far, where there is a line
  \<open>x\<close> with a byte \<open>y\<close> and a zero follows the server's copy of the command in memory, gets the bytes of line
  \<open>x\<close> from its byte \<open>y\<close> on, and of the lines after it; nothing is stored.
\<close>

theorem connection_serves_seek_command:
  assumes "client_fd c" and "inbox (world s) = (seek_text x y @ [newline]) # cs"
    and "drv_repr (drv (world s)) l" and "length (lines l) \<le> 10"
    and "unat x < length (lines l)" and "unat y < length (lines l ! unat x)"
    and "behind (world s) = nul # z" and "\<not> mutex_held s" and "0 < live_blocks s"
  shows "\<exists>s'. proc_new_connection node_os c s = Some (Inr (Some 0, s')) \<and>
    outbox (world s') = outbox (world s) @ drop (unat y) (concat (drop (unat x) (lines l))) \<and>
    drv_repr (drv (world s')) l \<and> \<not> mutex_held s'"
proof -
  let ?bs = "seek_text x y @ [newline]" and ?ls = "lines l" and ?d = "drv (world s)"
  let ?k = "length (concat (take (unat x) ?ls)) + unat y"
  note fine = log_fine_short [OF assms(3,4)]
  have so: "slot_order ?ls = ?ls" using assms(4) by (simp add: slot_order_aligned window_def)
  have split: "concat ?ls = concat (take (unat x) ?ls) @ concat (drop (unat x) ?ls)"
    by (simp flip: concat_append)
  have "unat y < length (concat (drop (unat x) ?ls))"
    using assms(5,6) by (simp add: take_append_drop_concat)
  then have k: "?k \<le> length (contents ?ls)" using fine(3) split by simp
  have e: "length (contents ?ls) = end_pos ?ls" "end_pos ?ls < 4294967296"
    using fine(1) end_pos_contents [of ?ls] assms(4) by (simp_all add: log_fine_def)
  let ?f = "fresh_file\<lparr>f_pos := of_nat ?k\<rparr>"
  have "seek_target ?ls (unat x) (unat y) = ?k"
    by (simp add: seek_target_def so fine(2) length_concat)
  moreover have "?k mod 4294967296 = ?k" using k e by simp
  moreover have "unat x \<le> 10" using assms(4,5) by linarith
  ultimately have io: "aesd_unlocked_ioctl ?d fresh_file AESDCHAR_IOCSEEKTO
      (Some \<lparr>write_cmd = x, write_cmd_offset = y\<rparr>) = Inr (?f, 0)"
    using ioctl_seekto [OF assms(3) fresh_file_opened, of "\<lparr>write_cmd = x, write_cmd_offset = y\<rparr>"]
    by (simp del: of_nat_add)
  obtain mem where "parse_seek_command (length ?bs) (Some (?bs @ nul # z)) =
      Inr (Some mem, Some \<lparr>write_cmd = x, write_cmd_offset = y\<rparr>)"
    using parse_seek_text [of "[newline]" "length ?bs" x y z] by (auto simp: crlf_def)
  then have "write_to_out_file node_os DEV_FD ?bs
        (s\<lparr>world := (world s)\<lparr>inbox := cs, dev_file := fresh_file\<rparr>, open_fds := DEV_FD # open_fds s\<rparr>) =
      Some (Inr (0, connected s cs ?f ?d))"
    using assms(7,8) io by (simp add: write_to_out_file_unfold node_ioctl_def connected_def del: of_nat_add)
  moreover have "length ?bs \<le> BUF_SIZE"
    using seek_text_length [of x y] by (simp add: BUF_SIZE_def)
  ultimately have run: "proc_new_connection node_os c s =
      then_run (send_back_loop node_os DEV_FD c 0 (connected s cs ?f ?d))
       (\<lambda>(err, s). Some (Inr (Some err, close_fd node_os c (close_fd node_os DEV_FD s))))"
    by (intro connection_runs [OF assms(1,2) _ _ assms(9)]) simp_all
  have "drop ?k (contents ?ls) = drop (unat y) (concat (drop (unat x) ?ls))"
    by (simp add: fine(3) split)
  then have "node_rep c l (frame (world (connected s cs ?f ?d))) (world (connected s cs ?f ?d)) (drop (unat y) (concat (drop (unat x) ?ls))) (outbox (world s))"
    unfolding node_rep_def using assms(1,3) fine(1,2) k e
    by (intro conjI exI [of _ ?k])
      (simp_all add: fresh_file_def aesd_open_def opened_def del: of_nat_add)
  then obtain w' where "send_back_loop node_os DEV_FD c 0 (connected s cs ?f ?d) =
      Some (Inr (0, (connected s cs ?f ?d)\<lparr>world := w'\<rparr>))"
    "node_rep c l (frame (world (connected s cs ?f ?d))) w' [] (outbox (world s) @ drop (unat y) (concat (drop (unat x) ?ls)))"
    using dev_to_client.send_back_sends by blast
  then show ?thesis
    using run assms(8) by (simp add: node_rep_def)
qed

end
