(* ===== verification/Server_Properties.thy ===== *)
theory Server_Properties
  imports Server_Node
begin

text \<open>
  Concrete runs of the whole system, and the properties of the server that hold for every operating
  system: writing everything, waiting for ever, and what the error paths leave behind.
\<close>

section \<open>Runs of the whole system\<close>

text \<open>A server with one client, on descriptor 4, that takes two bytes, interrupts, and takes one.\<close>

definition example_server :: "driver \<Rightarrow> byte list list \<Rightarrow> node server" where
  "example_server d chunks =
     \<lparr>world = \<lparr>drv = d, dev_file = fresh_file, inbox = chunks, outbox = [], accepts = [2, 0, 1], behind = [nul],
       clients = [], delivered = [], sig_left = None\<rparr>,
      mutex_held = False, quit_sig = False, timer_error_flag = False, open_fds = [4], live_blocks = 1\<rparr>"

lemma example_server_simps [simp]:
  "world (example_server d chunks) = \<lparr>drv = d, dev_file = fresh_file, inbox = chunks, outbox = [],
     accepts = [2, 0, 1], behind = [nul],
       clients = [], delivered = [], sig_left = None\<rparr>"
  "\<not> mutex_held (example_server d chunks)" "live_blocks (example_server d chunks) = 1"
  "open_fds (example_server d chunks) = [4]"
  by (simp_all add: example_server_def)

lemma client_4 [simp]: "client_fd 4"
  by (simp add: client_fd_def)

lemma connection_echoes_history_witness:
  "\<exists>d s'. load_and_write (empty_heap (\<lambda>_ _. nul)) 0 two_lines = Inr d \<and>
     proc_new_connection node_os 4 (example_server d [''fg'' @ [newline]]) = Some (Inr (Some 0, s')) \<and>
     outbox (world s') = concat two_lines @ ''fg'' @ [newline] \<and> open_fds s' = []"
proof -
  obtain d where d: "load_and_write (empty_heap (\<lambda>_ _. nul)) 0 two_lines = Inr d"
    "drv_repr d (log_of two_lines)"
    using two_lines_loaded by blast
  have "ordinary (''fg'' @ [newline])" by code_simp
  moreover have "fits (log_of two_lines) (''fg'' @ [newline])"
    by (simp add: fits_def two_lines_numbers KMALLOC_MAX_SIZE_def)
  ultimately show ?thesis
    using connection_echoes_history [of 4 "example_server d [''fg'' @ [newline]]" "''fg'' @ [newline]" "[]"
        "log_of two_lines" "[]"] d
    by (auto simp: two_lines_numbers)
qed

lemma connection_fails_after_ten_lines_witness:
  "\<exists>d s'. load_and_write (empty_heap (\<lambda>_ _. nul)) 0 (replicate 10 [newline]) = Inr d \<and>
     proc_new_connection node_os 4 (example_server d [''fg'' @ [newline]]) = Some (Inr (Some 1, s')) \<and>
     outbox (world s') = []"
proof -
  let ?ls = "replicate 10 [newline]"
  obtain d where d: "load_and_write (empty_heap (\<lambda>_ _. nul)) 0 ?ls = Inr d" "drv_repr d (log_of ?ls)"
    using load_and_write_lines [of ?ls] by (auto simp: whole_lines_def KMALLOC_MAX_SIZE_def)
  have "ordinary (''fg'' @ [newline])" "end_pos (?ls @ [''fg'' @ [newline]]) = 13" by code_simp+
  moreover have "fits (log_of ?ls) (''fg'' @ [newline])"
    by (simp add: fits_def KMALLOC_MAX_SIZE_def)
  ultimately show ?thesis
    using connection_fails_after_ten_lines [of 4 "example_server d [''fg'' @ [newline]]" "''fg'' @ [newline]" "[]"
        "log_of ?ls" "[]"] d
    by auto
qed

lemma connection_serves_seek_command_witness:
  "\<exists>d s'. load_and_write (empty_heap (\<lambda>_ _. nul)) 0 two_lines = Inr d \<and>
     proc_new_connection node_os 4 (example_server d [seek_text 1 1 @ [newline]]) = Some (Inr (Some 0, s')) \<and>
     outbox (world s') = ''de'' @ [newline]"
proof -
  obtain d where d: "load_and_write (empty_heap (\<lambda>_ _. nul)) 0 two_lines = Inr d"
    "drv_repr d (log_of two_lines)"
    using two_lines_loaded by blast
  have "length (two_lines ! 1) = 4" "drop 1 (concat (drop 1 two_lines)) = ''de'' @ [newline]"
    by code_simp+
  then show ?thesis
    using connection_serves_seek_command [of 4 "example_server d [seek_text 1 1 @ [newline]]" 1 1 "[]"
        "log_of two_lines" "[]"] d
    by (auto simp: two_lines_numbers)
qed

section \<open>Writing\<close>

text \<open>
  C18: \<^verbatim>\<open>write_all\<close> returns and writes everything. On a descriptor that takes at least one byte
  at a time and is interrupted only finitely often, it returns 0 and the bytes taken are the bytes
  given, once each and in order.
\<close>

theorem write_all_writes_everything:
  assumes "byte_sink os fd rep patience" and "rep (world s) out"
  shows "\<exists>w'. write_all os fd p s = Some (Inr (0, s\<lparr>world := w'\<rparr>)) \<and> rep w' (out @ p)"
  using assms by (rule byte_sink.write_all_writes)

lemma write_all_writes_everything_witness:
  "\<exists>d w'. load_and_write (empty_heap (\<lambda>_ _. nul)) 0 two_lines = Inr d \<and>
     write_all node_os 4 ''abcde'' (example_server d []) =
       Some (Inr (0, (example_server d [])\<lparr>world := w'\<rparr>)) \<and> outbox w' = ''abcde''"
proof -
  obtain d where d: "load_and_write (empty_heap (\<lambda>_ _. nul)) 0 two_lines = Inr d"
    "drv_repr d (log_of two_lines)"
    using two_lines_loaded by blast
  have "log_fine (log_of two_lines)"
    using log_fine_short(1) [OF d(2)] by (simp add: two_lines_numbers)
  with d have "node_rep 4 (log_of two_lines) (frame (world (example_server d []))) (world (example_server d [])) (contents two_lines) []"
    by (auto simp: node_rep_def two_lines_numbers fresh_file_def aesd_open_def opened_def intro!: exI [of _ 0])
  from write_all_writes_everything [OF dev_to_client.sink.byte_sink_axioms this, of "''abcde''"] d(1)
  show ?thesis by (auto simp: node_rep_def)
qed

lemma write_all_loop_interrupted:
  assumes "write_all_loop os fd p k s = Some y" and "\<forall>bs w. \<exists>w'. sys_write os fd bs w = Inr (Write_EINTR, w')"
  shows "length p \<le> k"
  using assms
proof (induction rule: write_all_loop.raw_induct [rotated, consumes 1])
  case (1 f os fd p k s y)
  show ?case
  proof (rule ccontr)
    assume "\<not> length p \<le> k"
    moreover obtain w' where "sys_write os fd (drop k p) (world s) = Inr (Write_EINTR, w')"
      using 1(3) by blast
    ultimately have "f os fd p k (s\<lparr>world := w'\<rparr>) = Some y" using 1(2) by simp
    from 1(1) [OF this 1(3)] \<open>\<not> length p \<le> k\<close> show False by simp
  qed
qed

text \<open>
  \<^verbatim>\<open>write_all\<close> on a descriptor whose writes are always interrupted never returns.
\<close>

theorem write_all_interrupted_for_ever:
  assumes "\<forall>bs w. \<exists>w'. sys_write os fd bs w = Inr (Write_EINTR, w')" and "p \<noteq> []"
  shows "write_all os fd p s = None"
  using write_all_loop_interrupted [of os fd p 0 s] assms
  by (cases "write_all_loop os fd p 0 s") (auto simp: write_all_def)

lemma write_all_interrupted_for_ever_witness:
  "write_all (node_os\<lparr>sys_write := \<lambda>_ _ w. Inr (Write_EINTR, w)\<rparr>) 4 ''a''
     (example_server (module_boot (empty_heap (\<lambda>_ _. nul))) []) = None"
  by (rule write_all_interrupted_for_ever) simp_all

section \<open>Receiving\<close>

text \<open>
  The server reads a client once. Whatever the first piece is, with or without a newline, and
  whatever the result of writing it to the temporary file, the loop ends after it, because the
  test meant for the error value tests the pointer to it. What the client sends later is not read.
\<close>

theorem receive_reads_once:
  assumes "sys_read os new_fd BUF_SIZE (world s) = Inr (Got bs, w)" and "bs \<noteq> []"
    and "write_all os tmp_fd bs (s\<lparr>world := w\<rparr>) = Some (Inr (v, s'))"
  shows "receive_loop os new_fd tmp_fd (Some e) s = Some (Inr ((Some v, bs), s'))"
  using assms by (subst receive_loop.simps) (simp add: Let_def)

lemma receive_reads_once_witness:
  "\<exists>s'. receive_loop node_os 4 6 (Some 0)
      (example_server (module_boot (empty_heap (\<lambda>_ _. nul))) [''ab'', ''c'' @ [newline]]) =
     Some (Inr ((Some 0, ''ab''), s')) \<and> inbox (world s') = [''c'' @ [newline]]"
proof -
  let ?s = "example_server (module_boot (empty_heap (\<lambda>_ _. nul))) [''ab'', ''c'' @ [newline]]"
  let ?w = "(world ?s)\<lparr>inbox := [''c'' @ [newline]]\<rparr>"
  have "sys_read node_os 4 BUF_SIZE (world ?s) = Inr (Got ''ab'', ?w)"
    by (simp add: node_read_def BUF_SIZE_def)
  moreover have "write_all node_os 6 ''ab'' (?s\<lparr>world := ?w\<rparr>) = Some (Inr (0, ?s\<lparr>world := ?w\<rparr>))"
    using write_all_whole [of node_os 6 "''ab''" "?s\<lparr>world := ?w\<rparr>" ?w] by (simp add: node_write_def)
  ultimately have "receive_loop node_os 4 6 (Some 0) ?s = Some (Inr ((Some 0, ''ab''), ?s\<lparr>world := ?w\<rparr>))"
    by (intro receive_reads_once) simp_all
  then show ?thesis by simp
qed

section \<open>Error paths\<close>

text \<open>
  C37: a failure inside \<^verbatim>\<open>write_to_out_file\<close> stops the server for good. When the device cannot
  be opened, or there is no memory for the copy, it returns \<open>-1\<close> without releasing the mutex, and
  every later call waits for ever.
\<close>

theorem failed_write_keeps_mutex:
  assumes "\<not> mutex_held s"
    and "out_fd = - 1 \<and> sys_open os OUT_FILE (world s) = Inr (- 1, w) \<or>
      out_fd \<noteq> - 1 \<and> sys_malloc os (length bs) (world s) = (False, w)"
  shows "\<exists>s'. write_to_out_file os out_fd bs s = Some (Inr (- 1, s')) \<and> mutex_held s' \<and>
    (\<forall>fd bs'. write_to_out_file os fd bs' s' = None)"
  using assms by (auto simp: write_to_out_file_unfold open_file_def malloc_def)

lemma failed_write_keeps_mutex_witness:
  "\<exists>s'. write_to_out_file (node_os\<lparr>sys_malloc := \<lambda>_ w. (False, w)\<rparr>) 5 ''a''
      (example_server (module_boot (empty_heap (\<lambda>_ _. nul))) []) = Some (Inr (- 1, s')) \<and> mutex_held s' \<and>
     (\<forall>fd bs'. write_to_out_file (node_os\<lparr>sys_malloc := \<lambda>_ w. (False, w)\<rparr>) fd bs' s' = None)"
  by (rule failed_write_keeps_mutex) simp_all

text \<open>
  A thread that finds no memory for its result brings the server down. It ends with
  \<^verbatim>\<open>pthread_exit(NULL)\<close>, and \<^verbatim>\<open>create_thread_and_run\<close> dereferences what it joined.
\<close>

theorem thread_without_memory_crashes:
  assumes "sys_malloc os 4 (world s) = (True, w)" and "sys_pthread_create os w = (True, w')"
    and "sys_malloc os 4 w' = (False, w'')"
  shows "create_thread_and_run os c s = Some (Inl NullDeref)"
  using assms by (simp add: create_thread_and_run_def proc_new_connection_def malloc_def free_block_def)

text \<open>An allocator that serves one request only: the length of the inbox counts them.\<close>

lemma thread_without_memory_crashes_witness:
  "create_thread_and_run
     (node_os\<lparr>sys_malloc := \<lambda>_ w. (inbox w = [], w\<lparr>inbox := [[]]\<rparr>)\<rparr>) 4
     (example_server (module_boot (empty_heap (\<lambda>_ _. nul))) []) = Some (Inl NullDeref)"
proof -
  let ?s = "example_server (module_boot (empty_heap (\<lambda>_ _. nul))) []"
  let ?w = "(world ?s)\<lparr>inbox := [[]]\<rparr>"
  show ?thesis by (rule thread_without_memory_crashes [of _ ?s ?w ?w ?w]) simp_all
qed

text \<open>The status of every run that ends.\<close>

lemma main_status_all:
  "\<forall>os sock addr opt bnd_ok lst t status t'. server_main os sock addr opt bnd_ok lst t = Some (Inr (status, t')) \<longrightarrow>
     status = (if sock = - 1 \<or> addr \<and> opt \<and> bnd_ok \<and> \<not> lst then - 1 else 0)"
  by (auto simp: server_main_def then_run_def Let_def split: if_splits option.splits sum.splits)

text \<open>
  C38: the exit status. On every system and however the server ends, its status is -1 if \<^verbatim>\<open>socket\<close> or
  \<^verbatim>\<open>listen\<close> failed and 0 otherwise: after a failure of \<^verbatim>\<open>getaddrinfo\<close>, \<^verbatim>\<open>setsockopt\<close> or \<^verbatim>\<open>bind\<close>, and after
  one of \<^verbatim>\<open>accept\<close>, it is 0, as after a signal. If one of these calls fails, \<^verbatim>\<open>accept\<close> for the first client, the server does
  end, with the listening socket closed; the list of addresses is not released if \<^verbatim>\<open>setsockopt\<close> or
  \<^verbatim>\<open>bind\<close> failed.
\<close>

theorem server_exit_status:
  assumes "sock \<notin> set (open_fds s)"
    and "sock = - 1 \<or> \<not> (addr \<and> opt \<and> bnd_ok) \<or> \<not> lst \<or>
      \<not> quit_sig s \<and> sys_accept os sock (world s) = (- 1, signal, w)"
  shows "(\<exists>s'. server_main os sock addr opt bnd_ok lst s =
      Some (Inr (if sock = - 1 \<or> addr \<and> opt \<and> bnd_ok \<and> \<not> lst then - 1 else 0, s')) \<and>
    sock \<notin> set (open_fds s') \<and>
    live_blocks s' = live_blocks s + (if sock \<noteq> - 1 \<and> addr \<and> \<not> (opt \<and> bnd_ok) then 1 else 0)) \<and>
    (\<forall>os sock addr opt bnd_ok lst t status t'. server_main (os :: 'v os) sock addr opt bnd_ok lst t = Some (Inr (status, t')) \<longrightarrow>
      status = (if sock = - 1 \<or> addr \<and> opt \<and> bnd_ok \<and> \<not> lst then - 1 else 0))"
proof (rule conjI [OF _ main_status_all])
  show "\<exists>s'. server_main os sock addr opt bnd_ok lst s =
      Some (Inr (if sock = - 1 \<or> addr \<and> opt \<and> bnd_ok \<and> \<not> lst then - 1 else 0, s')) \<and>
    sock \<notin> set (open_fds s') \<and>
    live_blocks s' = live_blocks s + (if sock \<noteq> - 1 \<and> addr \<and> \<not> (opt \<and> bnd_ok) then 1 else 0)"
  proof (cases "sock \<noteq> - 1 \<and> addr \<and> opt \<and> bnd_ok \<and> lst")
    case False
    with assms show ?thesis
      by (auto simp: server_main_def close_fd_def free_block_def Let_def)
  next
    case True
    with assms(2) have a: "\<not> quit_sig s" "sys_accept os sock (world s) = (- 1, signal, w)" by auto
    let ?s = "(if signal then sig_handler else id) (s\<lparr>open_fds := sock # open_fds s, world := w\<rparr>)"
    have "accept_loop os sock (s\<lparr>open_fds := sock # open_fds s\<rparr>) = Some (Inr ((), ?s))"
      using a by (subst accept_loop.simps) (simp add: Let_def)
    with True assms(1) show ?thesis
      by (auto simp: server_main_def close_fd_def free_block_def sig_handler_def Let_def)
  qed
qed

text \<open>\<^verbatim>\<open>bind\<close> fails; and no run of the server on this machine ends with another status.\<close>

lemma server_exit_status_witness:
  "\<exists>s'. server_main node_os 3 True True False True
      (example_server (module_boot (empty_heap (\<lambda>_ _. nul))) []) = Some (Inr (0, s')) \<and> 3 \<notin> set (open_fds s') \<and>
     live_blocks s' = 2"
proof -
  let ?s = "example_server (module_boot (empty_heap (\<lambda>_ _. nul))) []"
  have "(3 :: int) \<notin> set (open_fds ?s)" by simp
  note server_exit_status [OF this, of True True False True node_os True "world ?s", THEN conjunct1]
  then show ?thesis by (simp add: numeral_2_eq_2)
qed

end
