(* ===== verification/Server_Clients.thy ===== *)
theory Server_Clients
  imports Server_Properties
begin

text \<open>
  The server from \<^verbatim>\<open>main\<close> on: it accepts one client after the other, runs a thread for each and
  waits for it, until a signal ends the waiting for the next client.
\<close>

section \<open>One thread\<close>

lemma thread_echoes:
  assumes "client_fd c" and "inbox (world s) = bs # cs" and "ordinary bs" and "last bs = newline"
    and "fits l bs" and "drv_repr (drv (world s)) l" and "length (lines l) < 10"
    and "behind (world s) = nul # z" and "\<not> mutex_held s"
  shows "\<exists>w'. create_thread_and_run node_os c s =
      Some (Inr (0, s\<lparr>open_fds := remove1 c (open_fds s), world := w', live_blocks := Suc (live_blocks s)\<rparr>)) \<and>
    outbox w' = outbox (world s) @ concat (lines l) @ pending l @ bs \<and>
    drv_repr (drv w') (log_add l bs) \<and>
    frame w' = (behind (world s), cs, clients (world s), delivered (world s), sig_left (world s))"
proof -
  let ?s = "s\<lparr>live_blocks := Suc (live_blocks s)\<rparr>"
  obtain w' where "proc_new_connection node_os c ?s =
      Some (Inr (Some 0, ?s\<lparr>open_fds := remove1 c (open_fds ?s), world := w', live_blocks := Suc (live_blocks ?s)\<rparr>))"
    "outbox w' = outbox (world s) @ concat (lines l) @ pending l @ bs"
    "drv_repr (drv w') (log_add l bs)" "frame w' = (behind (world s), cs, clients (world s), delivered (world s), sig_left (world s))"
    using connection_echoes [of c ?s bs cs l z] assms by auto
  then show ?thesis
    by (intro exI [of _ w']) (simp add: create_thread_and_run_def free_block_def)
qed

text \<open>A thread that cannot read: what it returns is not released either.\<close>

lemma thread_fails:
  assumes "client_fd c" and "inbox (world s) = bs # cs" and "ordinary bs" and "last bs = newline"
    and "fits l bs" and "drv_repr (drv (world s)) l" and "10 \<le> length (lines l)"
    and "end_pos (lines l @ [pending l @ bs]) < 4294967296"
    and "behind (world s) = nul # z" and "\<not> mutex_held s"
  shows "\<exists>w'. create_thread_and_run node_os c s =
      Some (Inr (1, s\<lparr>open_fds := remove1 c (open_fds s), world := w', live_blocks := live_blocks s + 2\<rparr>)) \<and>
    outbox w' = outbox (world s) \<and> drv_repr (drv w') (log_add l bs) \<and>
    frame w' = (behind (world s), cs, clients (world s), delivered (world s), sig_left (world s))"
proof -
  let ?s = "s\<lparr>live_blocks := Suc (live_blocks s)\<rparr>"
  obtain w' where "proc_new_connection node_os c ?s =
      Some (Inr (Some 1, ?s\<lparr>open_fds := remove1 c (open_fds ?s), world := w', live_blocks := Suc (live_blocks ?s)\<rparr>))"
    "outbox w' = outbox (world s)"
    "drv_repr (drv w') (log_add l bs)" "frame w' = (behind (world s), cs, clients (world s), delivered (world s), sig_left (world s))"
    using connection_fails [of c ?s bs cs l z] assms by auto
  then show ?thesis
    by (intro exI [of _ w']) (simp add: create_thread_and_run_def)
qed

text \<open>Both cases, by the number of lines that the driver keeps.\<close>

lemma thread_serves:
  assumes "client_fd c" and "inbox (world s) = bs # cs" and "ordinary bs" and "last bs = newline"
    and "fits l bs" and "drv_repr (drv (world s)) l"
    and "length (concat (lines l) @ pending l @ bs) < 4294967296"
    and "behind (world s) = nul # z" and "\<not> mutex_held s"
  shows "\<exists>w' ret. create_thread_and_run node_os c s =
      Some (Inr (ret, s\<lparr>open_fds := remove1 c (open_fds s), world := w',
        live_blocks := live_blocks s + (if length (lines l) < 10 then 1 else 2)\<rparr>)) \<and>
    outbox w' = outbox (world s) @ (if length (lines l) < 10 then concat (lines l) @ pending l @ bs else []) \<and>
    drv_repr (drv w') (log_add l bs) \<and>
    frame w' = (behind (world s), cs, clients (world s), delivered (world s), sig_left (world s))"
proof (cases "length (lines l) < 10")
  case True
  then show ?thesis using thread_echoes [OF assms(1-6) _ assms(8,9)] by auto
next
  case False
  have "end_pos (lines l @ [pending l @ bs]) < 4294967296"
    using assms(7) by (simp add: end_pos_def length_concat)
  with False show ?thesis using thread_fails [OF assms(1-6) _ _ assms(8,9)] by auto
qed

section \<open>One client after the other\<close>

text \<open>
  What the clients receive when \<open>n\<close> lines are kept with the bytes \<open>h\<close>: all bytes stored so far, each time
  with the client's own, and nothing after the tenth line.
\<close>

primrec histories :: "nat \<Rightarrow> byte list \<Rightarrow> byte list list \<Rightarrow> byte list list" where
  "histories n h [] = []"
| "histories n h (bs # bss) = (if n < 10 then h @ bs else []) # histories (Suc n) (h @ bs) bss"

lemma histories_map:
  "histories n h bss = map (\<lambda>i. if n + i < 10 then h @ concat (take (Suc i) bss) else []) [0..<length bss]"
proof (induction bss arbitrary: n h)
  case Nil
  then show ?case by simp
next
  case (Cons bs bss)
  have "[0..<length (bs # bss)] = 0 # map Suc [0..<length bss]"
    by (simp add: map_Suc_upt upt_conv_Cons del: upt_Suc)
  then show ?case by (simp add: Cons o_def del: upt_Suc cong: if_cong)
qed

text \<open>The blocks that are lost: one per client, and another one for each that gets nothing.\<close>

primrec lost_blocks :: "nat \<Rightarrow> byte list list \<Rightarrow> nat" where
  "lost_blocks n [] = 0"
| "lost_blocks n (bs # bss) = (if n < 10 then 1 else 2) + lost_blocks (Suc n) bss"

lemma lost_blocks_count: "lost_blocks n bss = length bss + (length bss - (10 - n))"
  by (induction bss arbitrary: n) auto

text \<open>
  A server whose clients send the lines \<open>bss\<close>, one each; \<open>waiting\<close> are those that come after the
  signal, which arrives while the last one before them is served. If nobody comes after it, it may also
  arrive while \<^verbatim>\<open>accept\<close> waits.
\<close>

definition clients_until_signal :: "node \<Rightarrow> byte list list \<Rightarrow> byte list list list \<Rightarrow> bool" where
  "clients_until_signal w bss waiting \<longleftrightarrow> clients w = map (\<lambda>bs. [bs]) bss @ waiting \<and>
     (sig_left w = None \<and> waiting = [] \<or> sig_left w = Some (length waiting) \<and> bss \<noteq> [])"

lemma accept_loop_serves:
  assumes "clients_until_signal (world s) bss waiting"
    and "\<forall>bs \<in> set bss. ordinary bs \<and> last bs = newline" and "fit_all l bss"
    and "drv_repr (drv (world s)) l" and "length (concat (lines l) @ pending l @ concat bss) < 4294967296"
    and "behind (world s) = nul # z"
    and "\<not> mutex_held s" and "\<not> quit_sig s" and "\<not> timer_error_flag s"
  shows "\<exists>w'. accept_loop node_os sock s =
      Some (Inr ((), s\<lparr>world := w', live_blocks := live_blocks s + lost_blocks (length (lines l)) bss, quit_sig := True\<rparr>)) \<and>
    drv_repr (drv w') (log_adds l bss) \<and> clients w' = waiting \<and>
    delivered w' @ [outbox w'] = delivered (world s) @ [outbox (world s)] @ histories (length (lines l)) (concat (lines l) @ pending l) bss"
  using assms
proof (induction bss arbitrary: s l)
  case Nil
  then show ?case
    by (subst accept_loop.simps)
      (auto simp: node_accept_def sig_handler_def Let_def clients_until_signal_def intro!: exI [of _ "world s"])
next
  case (Cons bs bss)
  let ?w = "(world s)\<lparr>clients := map (\<lambda>bs. [bs]) bss @ waiting, inbox := [bs], outbox := [],
    delivered := delivered (world s) @ [outbox (world s)]\<rparr>"
  let ?s = "s\<lparr>world := ?w, open_fds := CLIENT_FD # open_fds s\<rparr>"
  let ?k = "if length (lines l) < 10 then 1 else 2 :: nat"
  obtain w1 ret where w1: "create_thread_and_run node_os CLIENT_FD ?s =
      Some (Inr (ret, ?s\<lparr>open_fds := remove1 CLIENT_FD (open_fds ?s), world := w1, live_blocks := live_blocks ?s + ?k\<rparr>))"
    "outbox w1 = (if length (lines l) < 10 then concat (lines l) @ pending l @ bs else [])" "drv_repr (drv w1) (log_add l bs)"
    "frame w1 = (behind (world s), [], map (\<lambda>bs. [bs]) bss @ waiting, delivered (world s) @ [outbox (world s)], sig_left (world s))"
    using thread_serves [of CLIENT_FD ?s bs "[]" l z] Cons.prems by auto
  let ?s1 = "s\<lparr>world := w1, live_blocks := live_blocks s + ?k\<rparr>"
  have l: "lines (log_add l bs) = lines l @ [pending l @ bs]" "pending (log_add l bs) = []"
    using Cons.prems(2) by (simp_all add: log_add_def Let_def)
  have sig: "node_signal w1 \<longleftrightarrow> sig_left (world s) \<noteq> None \<and> bss = []"
    using w1(4) Cons.prems(1) by (auto simp: node_signal_def frame_def clients_until_signal_def)
  have step: "accept_loop node_os sock s =
      accept_loop node_os sock (if node_signal w1 then ?s1\<lparr>quit_sig := True\<rparr> else ?s1)"
    using Cons.prems(1,8,9) w1(1)
    by (subst accept_loop.simps) (auto simp: node_accept_def clients_until_signal_def sig_handler_def)
  show ?case
  proof (cases "node_signal w1")
    case True
    then show ?thesis
      using step sig w1(2-4) l Cons.prems(1,8)
      by (subst (asm) (2) accept_loop.simps) (auto simp: frame_def clients_until_signal_def intro!: exI [of _ w1])
  next
    case False
    then have "clients_until_signal (world ?s1) bss waiting"
      using sig w1(4) Cons.prems(1) by (auto simp: frame_def clients_until_signal_def)
    then obtain w' where w': "accept_loop node_os sock ?s1 =
        Some (Inr ((), ?s1\<lparr>world := w', live_blocks := live_blocks ?s1 + lost_blocks (length (lines (log_add l bs))) bss, quit_sig := True\<rparr>))"
      "drv_repr (drv w') (log_adds (log_add l bs) bss)" "clients w' = waiting"
      "delivered w' @ [outbox w'] = delivered (world ?s1) @ [outbox (world ?s1)] @
         histories (length (lines (log_add l bs))) (concat (lines (log_add l bs)) @ pending (log_add l bs)) bss"
      using Cons.IH [of ?s1 "log_add l bs"] Cons.prems w1(3,4) l by (auto simp: frame_def)
    then show ?thesis
      using step False w1(2,4) l by (intro exI [of _ w']) (simp add: frame_def)
  qed
qed

lemma main_serves:
  assumes "clients_until_signal (world s) bss waiting"
    and "\<forall>bs \<in> set bss. ordinary bs \<and> last bs = newline" and "fit_all l bss"
    and "drv_repr (drv (world s)) l" and "length (concat (lines l) @ pending l @ concat bss) < 4294967296"
    and "behind (world s) = nul # z"
    and "\<not> mutex_held s" and "\<not> quit_sig s" and "\<not> timer_error_flag s" and "sock \<noteq> - 1"
  shows "\<exists>s'. server_main node_os sock True True True True s = Some (Inr (0, s')) \<and>
    delivered (world s') @ [outbox (world s')] = delivered (world s) @ [outbox (world s)] @
      map (\<lambda>i. if length (lines l) + i < 10 then concat (lines l) @ pending l @ concat (take (Suc i) bss) else [])
        [0..<length bss] \<and>
    drv_repr (drv (world s')) (log_adds l bss) \<and> clients (world s') = waiting \<and>
    open_fds s' = open_fds s \<and> quit_sig s' \<and> \<not> mutex_held s' \<and>
    live_blocks s' = live_blocks s + length bss + (length bss - (10 - length (lines l)))"
proof -
  let ?s = "s\<lparr>open_fds := sock # open_fds s\<rparr>"
  obtain w' where w': "accept_loop node_os sock ?s =
      Some (Inr ((), ?s\<lparr>world := w', live_blocks := live_blocks ?s + lost_blocks (length (lines l)) bss, quit_sig := True\<rparr>))"
    "drv_repr (drv w') (log_adds l bss)" "clients w' = waiting"
    "delivered w' @ [outbox w'] = delivered (world s) @ [outbox (world s)] @ histories (length (lines l)) (concat (lines l) @ pending l) bss"
    using accept_loop_serves [of ?s bss waiting l z sock] assms(1-9) by auto
  then show ?thesis
    using assms(7,10) by (simp add: server_main_def free_block_def histories_map lost_blocks_count)
qed

text \<open>
  C12: the server serves its clients, any number of them. On a machine with the driver loaded, \<^verbatim>\<open>main\<close>
  accepts clients that send one line each and stores the lines in order. Until the driver has ten lines it sends
  each client everything that was stored before with its own line at the end; the clients after that
  get nothing, and the server goes on. The signal stops it: the client that is being served is still
  served to the end, those that wait are not accepted; \<^verbatim>\<open>main\<close> returns 0, has closed every descriptor
  that it opened, and has lost one block of memory per client and another one per client that got nothing.
\<close>

theorem server_serves_clients:
  assumes "clients_until_signal (world s) bss waiting"
    and "\<forall>bs \<in> set bss. ordinary bs \<and> last bs = newline" and "fit_all l bss"
    and "drv_repr (drv (world s)) l" and "length (concat (lines l) @ pending l @ concat bss) < 4294967296"
    and "behind (world s) = nul # z"
    and "\<not> mutex_held s" and "\<not> quit_sig s" and "\<not> timer_error_flag s" and "sock \<noteq> - 1"
  shows "\<exists>s'. server_main node_os sock True True True True s = Some (Inr (0, s')) \<and>
    delivered (world s') @ [outbox (world s')] = delivered (world s) @ [outbox (world s)] @
      map (\<lambda>i. if length (lines l) + i < 10 then concat (lines l) @ pending l @ concat (take (Suc i) bss) else [])
        [0..<length bss] \<and>
    drv_repr (drv (world s')) (log_adds l bss) \<and> clients (world s') = waiting \<and>
    open_fds s' = open_fds s \<and> quit_sig s' \<and> \<not> mutex_held s' \<and>
    live_blocks s' = live_blocks s + length bss + (length bss - (10 - length (lines l)))"
  using assms by (rule main_serves)

text \<open>
  Nine lines are kept: the first client gets everything, the second nothing; the signal arrives during the
  second, and a third one waits.
\<close>

lemma server_serves_clients_witness:
  "\<exists>d s'. load_and_write (empty_heap (\<lambda>_ _. nul)) 0 (replicate 9 [newline]) = Inr d \<and>
     server_main node_os 3 True True True True
       ((example_server d [])\<lparr>open_fds := [],
          world := (world (example_server d []))\<lparr>sig_left := Some 1,
            clients := [[''f'' @ [newline]], [''gh'' @ [newline]], [''late'']]\<rparr>\<rparr>) =
       Some (Inr (0, s')) \<and>
     delivered (world s') @ [outbox (world s')] = [[], replicate 9 newline @ ''f'' @ [newline], []] \<and>
     clients (world s') = [[''late'']] \<and> open_fds s' = [] \<and> live_blocks s' = 4"
proof -
  let ?ls = "replicate 9 [newline]"
  obtain d where d: "load_and_write (empty_heap (\<lambda>_ _. nul)) 0 ?ls = Inr d" "drv_repr d (log_of ?ls)"
    using load_and_write_lines [of ?ls] by (auto simp: whole_lines_def KMALLOC_MAX_SIZE_def)
  let ?bss = "[''f'' @ [newline], ''gh'' @ [newline]]"
  let ?s = "(example_server d [])\<lparr>open_fds := [], world := (world (example_server d []))\<lparr>sig_left := Some 1,
    clients := map (\<lambda>bs. [bs]) ?bss @ [[''late'']]\<rparr>\<rparr>"
  have nine: "concat ?ls = replicate 9 newline" by code_simp
  have "\<forall>bs \<in> set ?bss. ordinary bs \<and> last bs = newline"
    by (simp add: ordinary_def SPECIAL_STR_PREFIX_def BUF_SIZE_def)
  moreover have "fit_all (log_of ?ls) ?bss"
    by (simp add: fits_def log_add_def KMALLOC_MAX_SIZE_def)
  moreover have "clients_until_signal (world ?s) ?bss [[''late'']]" by (simp add: clients_until_signal_def)
  ultimately have "\<exists>s'. server_main node_os 3 True True True True ?s = Some (Inr (0, s')) \<and>
    delivered (world s') @ [outbox (world s')] = delivered (world ?s) @ [outbox (world ?s)] @
      map (\<lambda>i. if length ?ls + i < 10 then concat ?ls @ [] @ concat (take (Suc i) ?bss) else []) [0..<length ?bss] \<and>
    clients (world s') = [[''late'']] \<and> open_fds s' = open_fds ?s \<and>
    live_blocks s' = live_blocks ?s + length ?bss + (length ?bss - (10 - length ?ls))"
    using server_serves_clients [of ?s ?bss "[[''late'']]" "log_of ?ls" "[]" 3] d(2)
    by (auto simp: example_server_def nine)
  with d(1) show ?thesis by (auto simp: upt_conv_Cons nine)
qed

section \<open>Time stamps\<close>

text \<open>A call without a descriptor opens the device first, under the mutex.\<close>

lemma write_to_out_file_opens:
  assumes "sys_open os OUT_FILE (world s) = Inr (fd, w)" and "fd \<noteq> - 1"
  shows "write_to_out_file os (- 1) bs s =
    write_to_out_file os fd bs (s\<lparr>world := w, open_fds := fd # open_fds s\<rparr>)"
proof (cases "mutex_held s")
  case True
  then show ?thesis by (simp add: write_to_out_file_unfold)
next
  case False
  with assms show ?thesis by (cases s) (simp add: write_to_out_file_unfold open_file_def)
qed

text \<open>The timer's function, called once for each stamp.\<close>

primrec write_stamps :: "'w os \<Rightarrow> byte list list \<Rightarrow> 'w server \<Rightarrow> (unit, 'w) run" where
  "write_stamps os [] s = Some (Inr ((), s))"
| "write_stamps os (stamp # stamps) s =
     then_run (write_time_to_file os 0 True stamp s) (\<lambda>(_, s). write_stamps os stamps s)"

lemma write_time_ok:
  assumes r: "drv_repr (drv (world s)) l" and bs: "ordinary bs" "fits l bs"
    and b: "behind (world s) = nul # z" and m: "\<not> mutex_held s"
  shows "\<exists>w'. write_time_to_file node_os 0 True bs s = Some (Inr ((), s\<lparr>world := w',
      open_fds := DEV_FD # open_fds s, live_blocks := Suc (live_blocks s)\<rparr>)) \<and>
    drv_repr (drv w') (log_add l bs) \<and> behind w' = nul # z \<and> outbox w' = outbox (world s)"
proof -
  let ?s = "s\<lparr>world := (world s)\<lparr>dev_file := fresh_file\<rparr>, open_fds := DEV_FD # open_fds s\<rparr>"
  have o: "write_to_out_file node_os (- 1) bs s = write_to_out_file node_os DEV_FD bs ?s"
    by (rule write_to_out_file_opens) (simp_all add: node_open_def)
  obtain d where "write_to_out_file node_os DEV_FD bs ?s =
      Some (Inr (0, ?s\<lparr>world := (world ?s)\<lparr>drv := d\<rparr>, live_blocks := Suc (live_blocks ?s)\<rparr>))"
    "drv_repr d (log_add l bs)"
    using write_to_device [of ?s l bs z] r bs b m by auto
  moreover have "bs \<noteq> []" using bs(1) by (simp add: ordinary_def)
  ultimately show ?thesis
    using o b by (intro exI [of _ "(world s)\<lparr>dev_file := fresh_file, drv := d\<rparr>"]) (simp add: write_time_to_file_def)
qed

text \<open>
  Every time stamp loses a descriptor and a block. The stamps are stored in the device one after
  the other, but the descriptor that \<^verbatim>\<open>write_to_out_file\<close> opens for a stamp is not closed and the
  copy that it parses is not released: after \<open>n\<close> stamps the server holds \<open>n\<close> descriptors of the
  device and \<open>n\<close> blocks more.
\<close>

theorem time_stamps_leak:
  assumes "drv_repr (drv (world s)) l" and "\<forall>stamp \<in> set stamps. ordinary stamp" and "fit_all l stamps"
    and "behind (world s) = nul # z" and "\<not> mutex_held s"
  shows "\<exists>s'. write_stamps node_os stamps s = Some (Inr ((), s')) \<and>
    drv_repr (drv (world s')) (log_adds l stamps) \<and>
    open_fds s' = replicate (length stamps) DEV_FD @ open_fds s \<and>
    live_blocks s' = live_blocks s + length stamps \<and> \<not> mutex_held s' \<and> timer_error_flag s' = timer_error_flag s"
  using assms
proof (induction stamps arbitrary: s l)
  case Nil
  then show ?case by simp
next
  case (Cons stamp stamps)
  obtain w' where w': "write_time_to_file node_os 0 True stamp s = Some (Inr ((), s\<lparr>world := w',
      open_fds := DEV_FD # open_fds s, live_blocks := Suc (live_blocks s)\<rparr>))"
    "drv_repr (drv w') (log_add l stamp)" "behind w' = nul # z"
    using write_time_ok [of s l stamp z] Cons.prems by auto
  from w' Cons.IH [of "s\<lparr>world := w', open_fds := DEV_FD # open_fds s, live_blocks := Suc (live_blocks s)\<rparr>"
      "log_add l stamp"] Cons.prems
  show ?case by (auto simp: replicate_append_same [symmetric] simp del: replicate_append_same)
qed

lemma time_stamps_leak_witness:
  "\<exists>d s'. load_and_write (empty_heap (\<lambda>_ _. nul)) 0 two_lines = Inr d \<and>
     write_stamps node_os [''t'' @ [newline], ''u'' @ [newline]] (example_server d []) = Some (Inr ((), s')) \<and>
     open_fds s' = [5, 5, 4] \<and> live_blocks s' = 3"
proof -
  obtain d where d: "load_and_write (empty_heap (\<lambda>_ _. nul)) 0 two_lines = Inr d"
    "drv_repr d (log_of two_lines)"
    using two_lines_loaded by blast
  let ?stamps = "[''t'' @ [newline], ''u'' @ [newline]]"
  have "\<forall>stamp \<in> set ?stamps. ordinary stamp"
    by (simp add: ordinary_def SPECIAL_STR_PREFIX_def BUF_SIZE_def)
  moreover have "fit_all (log_of two_lines) ?stamps"
    by (simp add: fits_def log_add_def two_lines_numbers KMALLOC_MAX_SIZE_def)
  ultimately show ?thesis
    using time_stamps_leak [of "example_server d []" "log_of two_lines" ?stamps "[]"] d
    by (auto simp: numeral_2_eq_2 numeral_3_eq_3)
qed

end
