(* ===== verification/Server_Logging.thy ===== *)
theory Server_Logging
  imports Server_Clients
begin

text \<open>
  The logging of the server. It is left out of the other theories; here is the call that matters:
  \<^verbatim>\<open>write_to_out_file\<close> logs its buffer with \<^verbatim>\<open>%s\<close>, but the buffer holds what \<^verbatim>\<open>read\<close> put there, without
  a zero at the end, and is an array on the stack of the thread.
\<close>

section \<open>Logging a string\<close>

text \<open>\<^verbatim>\<open>syslog\<close> with \<^verbatim>\<open>%s\<close> reads an object from its first byte to the first zero.\<close>

definition syslog_string :: "byte list \<Rightarrow> fault + byte list" where
  "syslog_string obj = (if nul \<in> set obj then Inr (c_string obj) else Inl OutOfBounds)"

text \<open>The array after \<^verbatim>\<open>read\<close>: the bytes received, then what was on the stack before.\<close>

definition buffer_after_read :: "byte list \<Rightarrow> byte list \<Rightarrow> byte list" where
  "buffer_after_read received stale = received @ drop (length received) stale"

text \<open>\<^verbatim>\<open>write_to_out_file\<close> with its log: the result and the text that is logged, if it gets there.\<close>

definition write_to_out_file_logged ::
  "'w os \<Rightarrow> int \<Rightarrow> byte list \<Rightarrow> byte list \<Rightarrow> 'w server \<Rightarrow> (s32 \<times> byte list option, 'w) run" where
  "write_to_out_file_logged os out_fd buf stale s =
     then_run (enter_out_file os out_fd s) (\<lambda>(out_fd, s).
       if out_fd = - 1 then Some (Inr ((- 1, None), s))
       else
         (case syslog_string (buffer_after_read buf stale) of
            Inl e \<Rightarrow> Some (Inl e)
          | Inr text \<Rightarrow> then_run (store_or_seek os out_fd buf s) (\<lambda>(err, s). Some (Inr ((err, Some text), s)))))"

lemma syslog_buffer:
  assumes "nul \<notin> set received"
  shows "syslog_string (buffer_after_read received stale) =
    (if nul \<in> set (drop (length received) stale) then Inr (received @ c_string (drop (length received) stale)) else Inl OutOfBounds)"
proof -
  have "c_string (received @ xs) = received @ c_string xs" for xs
    unfolding c_string_def by (rule takeWhile_append2) (use assms in auto)
  with assms show ?thesis by (simp add: syslog_string_def buffer_after_read_def)
qed

text \<open>
  C28: the log shows the stack, or reads past it. For bytes without a zero in them, in the server's
  buffer of 1024 bytes, the text that is logged is these bytes and then whatever was in the array behind
  them, up to its first zero; if there is none, in particular when a client sent 1024 bytes, the call
  reads memory behind the array. Otherwise the function does what it does without logging.
\<close>

theorem log_shows_the_stack:
  assumes "\<not> mutex_held s" and "out_fd \<noteq> - 1" and "nul \<notin> set buf" and "length stale = BUF_SIZE"
  shows "(nul \<notin> set (drop (length buf) stale) \<longrightarrow> write_to_out_file_logged os out_fd buf stale s = Some (Inl OutOfBounds)) \<and>
    (length buf = BUF_SIZE \<longrightarrow> write_to_out_file_logged os out_fd buf stale s = Some (Inl OutOfBounds)) \<and>
    (nul \<in> set (drop (length buf) stale) \<longrightarrow>
      write_to_out_file_logged os out_fd buf stale s =
        then_run (write_to_out_file os out_fd buf s) (\<lambda>(err, s).
          Some (Inr ((err, Some (buf @ takeWhile (\<lambda>c. c \<noteq> nul) (drop (length buf) stale))), s))))"
  using assms syslog_buffer [OF assms(3), of stale]
  by (simp add: write_to_out_file_logged_def write_to_out_file_def enter_out_file_def c_string_def)

lemma log_shows_the_stack_witness:
  "\<exists>d s'. load_and_write (empty_heap (\<lambda>_ _. nul)) 0 two_lines = Inr d \<and>
     write_to_out_file_logged node_os 5 (''x'' @ [newline]) (''-a secret'' @ replicate 1015 nul) (example_server d []) =
       Some (Inr ((0, Some (''x'' @ [newline] @ '' secret'')), s'))"
proof -
  obtain d where d: "load_and_write (empty_heap (\<lambda>_ _. nul)) 0 two_lines = Inr d"
    "drv_repr d (log_of two_lines)"
    using two_lines_loaded by blast
  let ?s = "example_server d []" and ?buf = "''x'' @ [newline]" and ?stale = "''-a secret'' @ replicate 1015 nul"
  have "ordinary ?buf" by (simp add: ordinary_def SPECIAL_STR_PREFIX_def BUF_SIZE_def)
  moreover have "fits (log_of two_lines) ?buf" by (simp add: fits_def two_lines_numbers KMALLOC_MAX_SIZE_def)
  ultimately obtain w where "write_to_out_file node_os 5 ?buf ?s = Some (Inr (0, w))"
    using write_to_device [of ?s "log_of two_lines" ?buf "[]"] d(2) fresh_file_opened by auto
  moreover have "takeWhile (\<lambda>c. c \<noteq> nul) (drop (length ?buf) ?stale) = '' secret''" by simp
  ultimately show ?thesis
    using log_shows_the_stack [of ?s 5 ?buf ?stale node_os] d(1) by (simp add: BUF_SIZE_def)
qed

end
