(* ===== verification/Threading.thy ===== *)
theory Threading
  imports Prelude
begin

text \<open>
  \<^verbatim>\<open>examples/threading/threading.c\<close>: threads that wait, obtain a mutex, wait and release it, as
  a step relation on the pool of all threads. A thread is where it is in \<^verbatim>\<open>threadfunc\<close>, and the
  \<open>thread_data\<close> it was given; a step is one call of \<^verbatim>\<open>threadfunc\<close> by any thread, so the order
  of the steps is any interleaving. Only these threads use the mutexes.
\<close>

section \<open>Threads\<close>

record thread_data =
  mutex :: nat
  wait_to_obtain_ms :: s32
  wait_to_release_ms :: s32
  thread_complete_success :: bool

text \<open>The next thing a thread does.\<close>

datatype thread_pc =
    SleepToObtain | Lock | SleepToRelease | SetSuccess | Unlock | Finished

text \<open>
  The pool: for each mutex its holder, the threads in the order they were started, the number
  of \<open>thread_data\<close> blocks that were allocated, and the calls of \<^verbatim>\<open>usleep\<close> with their arguments.
\<close>

record pool =
  holder :: "nat \<Rightarrow> nat option"
  threads :: "(thread_pc \<times> thread_data) list"
  data_blocks :: nat
  slept :: "(nat \<times> u32) list"

definition empty_pool :: pool where
  "empty_pool = \<lparr>holder = (\<lambda>_. None), threads = [], data_blocks = 0, slept = []\<rparr>"

text \<open>
  \<^verbatim>\<open>start_thread_obtaining_mutex\<close>: whether \<^verbatim>\<open>malloc\<close> and \<^verbatim>\<open>pthread_create\<close> succeed is
  given. The block stays allocated when the thread cannot be created.
\<close>

definition start_thread_obtaining_mutex ::
  "bool \<Rightarrow> bool \<Rightarrow> nat \<Rightarrow> s32 \<Rightarrow> s32 \<Rightarrow> pool \<Rightarrow> bool \<times> pool" where
  "start_thread_obtaining_mutex malloc_ok create_ok m obtain_ms release_ms p =
     (if \<not> malloc_ok then (False, p)
      else
        (let data = \<lparr>mutex = m, wait_to_obtain_ms = obtain_ms, wait_to_release_ms = release_ms,
               thread_complete_success = False\<rparr>;
             p = p\<lparr>data_blocks := Suc (data_blocks p)\<rparr>
         in if \<not> create_ok then (False, p)
            else (True, p\<lparr>threads := threads p @ [(SleepToObtain, data)]\<rparr>)))"

text \<open>
  One call of \<^verbatim>\<open>threadfunc\<close> by thread \<open>i\<close>; \<^verbatim>\<open>pthread_mutex_lock\<close> waits for the mutex. The
  milliseconds are multiplied as an \<^verbatim>\<open>int\<close>, which wraps, and passed as an unsigned number.
\<close>

inductive threadfunc_step :: "pool \<Rightarrow> nat \<Rightarrow> pool \<Rightarrow> bool" where
  sleep_to_obtain:
    "i < length (threads p) \<Longrightarrow> threads p ! i = (SleepToObtain, d) \<Longrightarrow>
     threadfunc_step p i (p\<lparr>threads := (threads p)[i := (Lock, d)],
       slept := slept p @ [(i, wait_to_obtain_ms d * 1000)]\<rparr>)"
| lock:
    "i < length (threads p) \<Longrightarrow> threads p ! i = (Lock, d) \<Longrightarrow> holder p (mutex d) = None \<Longrightarrow>
     threadfunc_step p i (p\<lparr>holder := (holder p)(mutex d := Some i), threads := (threads p)[i := (SleepToRelease, d)]\<rparr>)"
| sleep_to_release:
    "i < length (threads p) \<Longrightarrow> threads p ! i = (SleepToRelease, d) \<Longrightarrow>
     threadfunc_step p i (p\<lparr>threads := (threads p)[i := (SetSuccess, d)],
       slept := slept p @ [(i, wait_to_release_ms d * 1000)]\<rparr>)"
| set_success:
    "i < length (threads p) \<Longrightarrow> threads p ! i = (SetSuccess, d) \<Longrightarrow>
     threadfunc_step p i (p\<lparr>threads := (threads p)[i := (Unlock, d\<lparr>thread_complete_success := True\<rparr>)]\<rparr>)"
| unlock:
    "i < length (threads p) \<Longrightarrow> threads p ! i = (Unlock, d) \<Longrightarrow>
     threadfunc_step p i (p\<lparr>holder := (holder p)(mutex d := None), threads := (threads p)[i := (Finished, d)]\<rparr>)"

inductive_cases threadfunc_stepE: "threadfunc_step p i p'"

text \<open>What a program does: it starts threads, and they run.\<close>

inductive pool_reachable :: "pool \<Rightarrow> bool" where
  start: "pool_reachable empty_pool"
| create: "pool_reachable p \<Longrightarrow> start_thread_obtaining_mutex mo co m a b p = (r, p') \<Longrightarrow> pool_reachable p'"
| run: "pool_reachable p \<Longrightarrow> threadfunc_step p i p' \<Longrightarrow> pool_reachable p'"

section \<open>The invariant\<close>

definition critical :: "thread_pc \<Rightarrow> bool" where
  "critical pc \<longleftrightarrow> pc \<in> {SleepToRelease, SetSuccess, Unlock}"

lemma critical_simps [simp]:
  "\<not> critical SleepToObtain" "\<not> critical Lock" "critical SleepToRelease" "critical SetSuccess"
  "critical Unlock" "\<not> critical Finished"
  by (simp_all add: critical_def)

definition holds :: "pool \<Rightarrow> nat \<Rightarrow> nat \<Rightarrow> bool" where
  "holds p i m \<longleftrightarrow> i < length (threads p) \<and> critical (fst (threads p ! i)) \<and> mutex (snd (threads p ! i)) = m"

text \<open>The holder of a mutex is the thread between its lock and its unlock; a flag is set in time.\<close>

definition pool_ok :: "pool \<Rightarrow> bool" where
  "pool_ok p \<longleftrightarrow>
     (\<forall>m i. holder p m = Some i \<longleftrightarrow> holds p i m) \<and>
     (\<forall>t \<in> set (threads p). thread_complete_success (snd t) \<longleftrightarrow> fst t \<in> {Unlock, Finished}) \<and>
     length (threads p) \<le> data_blocks p"

lemma slept_irrelevant [simp]:
  "holds (p\<lparr>slept := z\<rparr>) i m \<longleftrightarrow> holds p i m" "pool_ok (p\<lparr>slept := z\<rparr>) \<longleftrightarrow> pool_ok p"
  by (simp_all add: holds_def pool_ok_def)

lemma pool_okI:
  assumes "pool_ok p" and "i < length (threads p)"
    and "thread_complete_success d' \<longleftrightarrow> pc' \<in> {Unlock, Finished}"
    and "\<And>m j. h m = Some j \<longleftrightarrow> holds (p\<lparr>threads := (threads p)[i := (pc', d')]\<rparr>) j m"
  shows "pool_ok (p\<lparr>holder := h, threads := (threads p)[i := (pc', d')]\<rparr>)"
  using assms set_update_subset_insert [of "threads p" i "(pc', d')"]
  unfolding pool_ok_def by (auto simp: holds_def)

lemma holds_update:
  "i < length (threads p) \<Longrightarrow>
   holds (p\<lparr>threads := (threads p)[i := (pc', d')]\<rparr>) j m \<longleftrightarrow>
   (if j = i then critical pc' \<and> mutex d' = m else holds p j m)"
  by (auto simp: holds_def nth_list_update)

lemma step_preserves_ok:
  assumes "threadfunc_step p i p'" and ok: "pool_ok p" shows "pool_ok p'"
proof -
  have h: "holder p m = Some j \<longleftrightarrow> holds p j m" for m j using ok by (simp add: pool_ok_def)
  have flag: "thread_complete_success d \<longleftrightarrow> pc \<in> {Unlock, Finished}"
    if "i < length (threads p)" "threads p ! i = (pc, d)" for pc d
    using ok nth_mem [OF that(1)] that(2) by (auto simp: pool_ok_def)
  have hi: "holds p i m \<longleftrightarrow> critical pc \<and> mutex d = m"
    if "i < length (threads p)" "threads p ! i = (pc, d)" for pc d m
    using that by (simp add: holds_def)
  have same: "p\<lparr>threads := ts\<rparr> = p\<lparr>holder := holder p, threads := ts\<rparr>" for ts by simp
  from assms(1) show ?thesis
  proof (rule threadfunc_stepE)
    fix d assume a: "p' = p\<lparr>threads := (threads p)[i := (Lock, d)],
        slept := slept p @ [(i, wait_to_obtain_ms d * 1000)]\<rparr>" "i < length (threads p)"
      "threads p ! i = (SleepToObtain, d)"
    then show ?thesis unfolding a(1) slept_irrelevant same
      by (intro pool_okI [OF ok a(2)]) (use a flag [OF a(2,3)] hi [OF a(2,3)] h in \<open>auto simp: holds_update\<close>)
  next
    fix d assume a: "p' = p\<lparr>threads := (threads p)[i := (SetSuccess, d)],
        slept := slept p @ [(i, wait_to_release_ms d * 1000)]\<rparr>" "i < length (threads p)"
      "threads p ! i = (SleepToRelease, d)"
    then show ?thesis unfolding a(1) slept_irrelevant same
      by (intro pool_okI [OF ok a(2)]) (use a flag [OF a(2,3)] hi [OF a(2,3)] h in \<open>auto simp: holds_update\<close>)
  next
    fix d assume a: "p' = p\<lparr>threads := (threads p)[i := (Unlock, d\<lparr>thread_complete_success := True\<rparr>)]\<rparr>"
      "i < length (threads p)" "threads p ! i = (SetSuccess, d)"
    then show ?thesis unfolding a(1) same
      by (intro pool_okI [OF ok a(2)]) (use a hi [OF a(2,3)] h in \<open>auto simp: holds_update\<close>)
  next
    fix d assume a: "p' = p\<lparr>holder := (holder p)(mutex d := Some i), threads := (threads p)[i := (SleepToRelease, d)]\<rparr>"
      "i < length (threads p)" "threads p ! i = (Lock, d)" "holder p (mutex d) = None"
    have "\<not> holds p j (mutex d)" for j using h [of "mutex d" j] a(4) by simp
    moreover have "\<not> holds p i m" for m using a(3) by (simp add: holds_def)
    ultimately show ?thesis unfolding a(1)
      by (intro pool_okI [OF ok a(2)]) (use a flag [OF a(2,3)] h in \<open>auto simp: holds_update\<close>)
  next
    fix d assume a: "p' = p\<lparr>holder := (holder p)(mutex d := None), threads := (threads p)[i := (Finished, d)]\<rparr>"
      "i < length (threads p)" "threads p ! i = (Unlock, d)"
    have i: "holds p i m \<longleftrightarrow> m = mutex d" for m using a by (auto simp: holds_def)
    then have "holds p j (mutex d) \<Longrightarrow> j = i" for j using h [of "mutex d"] by (metis option.inject)
    with i show ?thesis unfolding a(1)
      by (intro pool_okI [OF ok a(2)]) (use a flag [OF a(2,3)] h in \<open>auto simp: holds_update\<close>)
  qed
qed

lemma start_preserves_ok:
  assumes "start_thread_obtaining_mutex mo co m a b p = (r, p')" and "pool_ok p" shows "pool_ok p'"
proof -
  have "holds (p\<lparr>data_blocks := n, threads := threads p @ [(SleepToObtain, d)]\<rparr>) j k \<longleftrightarrow> holds p j k"
    "holds (p\<lparr>data_blocks := n\<rparr>) j k \<longleftrightarrow> holds p j k" for n d j k
    by (auto simp: holds_def nth_append less_Suc_eq)
  with assms show ?thesis
    by (auto simp: start_thread_obtaining_mutex_def Let_def pool_ok_def split: if_splits)
qed

lemma reachable_ok: "pool_reachable p \<Longrightarrow> pool_ok p"
proof (induction rule: pool_reachable.induct)
  case start
  then show ?case by (simp add: pool_ok_def empty_pool_def holds_def)
qed (auto intro: step_preserves_ok start_preserves_ok)

section \<open>Sleeping\<close>

definition sleeps_of :: "pool \<Rightarrow> nat \<Rightarrow> u32 list" where
  "sleeps_of p i = map snd (filter (\<lambda>(j, _). j = i) (slept p))"

text \<open>What a thread has slept when it is at a point.\<close>

definition sleeps_due :: "thread_pc \<times> thread_data \<Rightarrow> u32 list" where
  "sleeps_due t = (case fst t of SleepToObtain \<Rightarrow> []
     | Lock \<Rightarrow> [wait_to_obtain_ms (snd t) * 1000] | SleepToRelease \<Rightarrow> [wait_to_obtain_ms (snd t) * 1000]
     | _ \<Rightarrow> [wait_to_obtain_ms (snd t) * 1000, wait_to_release_ms (snd t) * 1000])"

definition slept_ok :: "pool \<Rightarrow> bool" where
  "slept_ok p \<longleftrightarrow> (\<forall>i<length (threads p). sleeps_of p i = sleeps_due (threads p ! i)) \<and>
     (\<forall>(j, _) \<in> set (slept p). j < length (threads p))"

lemma slept_okI:
  assumes "slept_ok p" and "i < length (threads p)" and "sleeps_due t' = sleeps_due (threads p ! i) @ map snd z"
    and "\<forall>(j, _) \<in> set z. j = i" and "threads p' = (threads p)[i := t']" and "slept p' = slept p @ z"
  shows "slept_ok p'"
proof -
  have "filter (\<lambda>(j, _). j = i) z = z" using assms(4) by (simp add: filter_id_conv)
  moreover have "filter (\<lambda>(j, _). j = k) z = []" if "k \<noteq> i" for k
    using assms(4) that by (auto simp: filter_empty_conv)
  ultimately have "sleeps_of p' k = sleeps_of p k @ (if k = i then map snd z else [])" for k
    using assms(6) by (simp add: sleeps_of_def)
  with assms show ?thesis by (auto simp: slept_ok_def nth_list_update)
qed

lemma step_preserves_slept:
  assumes "threadfunc_step p i p'" and ok: "slept_ok p" shows "slept_ok p'"
  using assms(1)
proof (rule threadfunc_stepE)
  fix d assume "p' = p\<lparr>threads := (threads p)[i := (Lock, d)],
      slept := slept p @ [(i, wait_to_obtain_ms d * 1000)]\<rparr>"
    "i < length (threads p)" "threads p ! i = (SleepToObtain, d)"
  then show ?thesis by (intro slept_okI [OF ok]) (auto simp: sleeps_due_def)
next
  fix d assume "p' = p\<lparr>holder := (holder p)(mutex d \<mapsto> i), threads := (threads p)[i := (SleepToRelease, d)]\<rparr>"
    "i < length (threads p)" "threads p ! i = (Lock, d)"
  then show ?thesis by (intro slept_okI [OF ok, where z = "[]"]) (auto simp: sleeps_due_def)
next
  fix d assume "p' = p\<lparr>threads := (threads p)[i := (SetSuccess, d)],
      slept := slept p @ [(i, wait_to_release_ms d * 1000)]\<rparr>"
    "i < length (threads p)" "threads p ! i = (SleepToRelease, d)"
  then show ?thesis by (intro slept_okI [OF ok]) (auto simp: sleeps_due_def)
next
  fix d assume "p' = p\<lparr>threads := (threads p)[i := (Unlock, d\<lparr>thread_complete_success := True\<rparr>)]\<rparr>"
    "i < length (threads p)" "threads p ! i = (SetSuccess, d)"
  then show ?thesis by (intro slept_okI [OF ok, where z = "[]"]) (auto simp: sleeps_due_def)
next
  fix d assume "p' = p\<lparr>holder := (holder p)(mutex d := None), threads := (threads p)[i := (Finished, d)]\<rparr>"
    "i < length (threads p)" "threads p ! i = (Unlock, d)"
  then show ?thesis by (intro slept_okI [OF ok, where z = "[]"]) (auto simp: sleeps_due_def)
qed

lemma slept_ok_new_thread:
  assumes "slept_ok p" shows "slept_ok (p\<lparr>data_blocks := n, threads := threads p @ [(SleepToObtain, d)]\<rparr>)"
proof -
  let ?q = "p\<lparr>data_blocks := n, threads := threads p @ [(SleepToObtain, d)]\<rparr>"
  have new: "sleeps_of p (length (threads p)) = []"
    using assms by (auto simp: slept_ok_def sleeps_of_def filter_empty_conv)
  have "sleeps_of ?q i = sleeps_due (threads ?q ! i)" if "i < length (threads ?q)" for i
  proof (cases "i = length (threads p)")
    case True
    with new show ?thesis by (simp add: sleeps_of_def sleeps_due_def)
  next
    case False
    then have i: "i < length (threads p)" using that by simp
    then have "sleeps_of p i = sleeps_due (threads p ! i)" using assms by (simp add: slept_ok_def)
    with i show ?thesis by (simp add: sleeps_of_def nth_append)
  qed
  with assms show ?thesis by (auto simp: slept_ok_def)
qed

lemma start_preserves_slept:
  assumes "start_thread_obtaining_mutex mo co m a b p = (r, p')" and "slept_ok p" shows "slept_ok p'"
proof -
  have "slept_ok (p\<lparr>data_blocks := n\<rparr>)" for n
    using assms(2) by (simp add: slept_ok_def sleeps_of_def)
  with assms slept_ok_new_thread [OF assms(2)] show ?thesis
    by (auto simp: start_thread_obtaining_mutex_def Let_def split: if_splits)
qed

lemma reachable_slept: "pool_reachable p \<Longrightarrow> slept_ok p"
proof (induction rule: pool_reachable.induct)
  case start
  then show ?case by (simp add: slept_ok_def empty_pool_def)
qed (auto intro: step_preserves_slept start_preserves_slept)

section \<open>Progress\<close>

text \<open>How many steps a thread has still to do.\<close>

definition steps_left :: "thread_pc \<Rightarrow> nat" where
  "steps_left pc = (case pc of SleepToObtain \<Rightarrow> 5 | Lock \<Rightarrow> 4 | SleepToRelease \<Rightarrow> 3
     | SetSuccess \<Rightarrow> 2 | Unlock \<Rightarrow> 1 | Finished \<Rightarrow> 0)"

definition work_left :: "pool \<Rightarrow> nat" where
  "work_left p = sum_list (map (steps_left \<circ> fst) (threads p))"

lemma work_left_update:
  assumes "i < length (threads p)" and "Suc (steps_left pc') = steps_left (fst (threads p ! i))"
  shows "Suc (sum_list (map (steps_left \<circ> fst) ((threads p)[i := (pc', d')]))) = work_left p"
proof -
  have "steps_left (fst (threads p ! i)) \<le> sum_list (map (steps_left \<circ> fst) (threads p))"
    using nth_le_sum_list [of i "map (steps_left \<circ> fst) (threads p)"] assms(1) by simp
  with assms show ?thesis by (simp add: work_left_def map_update sum_list_update)
qed

lemma step_works: "threadfunc_step p i p' \<Longrightarrow> Suc (work_left p') = work_left p"
proof -
  have w: "work_left (q\<lparr>threads := ts\<rparr>) = sum_list (map (steps_left \<circ> fst) ts)"
    "work_left (q\<lparr>holder := h, threads := ts\<rparr>) = sum_list (map (steps_left \<circ> fst) ts)"
    "work_left (q\<lparr>threads := ts, slept := z\<rparr>) = sum_list (map (steps_left \<circ> fst) ts)" for q h ts z
    by (simp_all add: work_left_def)
  show "threadfunc_step p i p' \<Longrightarrow> Suc (work_left p') = work_left p"
    by (erule threadfunc_stepE) (simp_all only: w, (rule work_left_update; simp add: steps_left_def)+)
qed

lemma step_exists:
  assumes ok: "pool_ok p" and i: "i < length (threads p)" "fst (threads p ! i) \<noteq> Finished"
  shows "\<exists>j p'. threadfunc_step p j p'"
proof -
  obtain pc d where t: "threads p ! i = (pc, d)" by force
  show ?thesis
  proof (cases "pc = Lock \<and> holder p (mutex d) \<noteq> None")
    case False
    with i t show ?thesis by (cases pc) (auto intro: threadfunc_step.intros)
  next
    case True
    then obtain j where "holds p j (mutex d)" using ok by (auto simp: pool_ok_def)
    then obtain pc' d' where "j < length (threads p)" "threads p ! j = (pc', d')" "critical pc'"
      by (metis holds_def prod.collapse)
    then show ?thesis by (cases pc') (auto intro: threadfunc_step.intros)
  qed
qed

inductive runs :: "pool \<Rightarrow> nat \<Rightarrow> pool \<Rightarrow> bool" where
  stop: "runs p 0 p"
| more: "threadfunc_step p i p' \<Longrightarrow> runs p' n p'' \<Longrightarrow> runs p (Suc n) p''"

lemma runs_work: "runs p n p' \<Longrightarrow> n + work_left p' = work_left p"
  by (induction rule: runs.induct) (auto dest: step_works)

lemma runs_reachable: "runs p n p' \<Longrightarrow> pool_reachable p \<Longrightarrow> pool_reachable p'"
  by (induction rule: runs.induct) (auto intro: pool_reachable.run)

text \<open>
  C16: mutual exclusion. In every state that a program can reach by starting threads and letting
  them run in any order, at most one thread is between the lock and the unlock of a mutex, the mutex
  is held by exactly that thread, and a thread reports success only after it had the mutex.
\<close>

theorem threads_exclude_each_other:
  assumes "pool_reachable p"
  shows "(holds p i m \<and> holds p j m \<longrightarrow> i = j) \<and> (holder p m = Some i \<longleftrightarrow> holds p i m) \<and>
    (\<forall>t \<in> set (threads p). thread_complete_success (snd t) \<longleftrightarrow> fst t \<in> {Unlock, Finished})"
proof -
  have ok: "\<And>m i. holder p m = Some i \<longleftrightarrow> holds p i m"
    and "\<forall>t \<in> set (threads p). thread_complete_success (snd t) \<longleftrightarrow> fst t \<in> {Unlock, Finished}"
    using reachable_ok [OF assms] by (simp_all add: pool_ok_def)
  moreover have "holds p i m \<and> holds p j m \<longrightarrow> i = j"
    using ok [of m i] ok [of m j] by auto
  ultimately show ?thesis by blast
qed

text \<open>
  C17: every thread finishes. From a reachable state the threads never run for more than
  \<open>work_left\<close> steps, five for a thread that was just started; and as long as a thread has not
  finished, some thread can do its next step. So every run that is not cut off ends with all threads
  finished, every one of them successful and having slept twice, for the times it was given, and
  every mutex free.
\<close>

theorem threads_finish:
  assumes "pool_reachable p" and "runs p n p'"
  shows "n \<le> work_left p \<and> work_left p \<le> 5 * length (threads p) \<and>
    ((\<exists>i p''. threadfunc_step p' i p'') \<or>
     (\<forall>t \<in> set (threads p'). fst t = Finished \<and> thread_complete_success (snd t)) \<and> (\<forall>m. holder p' m = None) \<and>
     (\<forall>i<length (threads p'). sleeps_of p' i =
        [wait_to_obtain_ms (snd (threads p' ! i)) * 1000, wait_to_release_ms (snd (threads p' ! i)) * 1000]))"
proof (intro conjI)
  show "n \<le> work_left p" using runs_work [OF assms(2)] by simp
  have "sum_list (map (steps_left \<circ> fst) ts) \<le> 5 * length ts" for ts :: "(thread_pc \<times> thread_data) list"
    by (induction ts) (auto simp: steps_left_def split: thread_pc.split)
  then show "work_left p \<le> 5 * length (threads p)" by (simp add: work_left_def)
  have ok: "pool_ok p'" and sl: "slept_ok p'"
    using runs_reachable [OF assms(2,1)] reachable_ok reachable_slept by blast+
  show "(\<exists>i p''. threadfunc_step p' i p'') \<or>
     (\<forall>t \<in> set (threads p'). fst t = Finished \<and> thread_complete_success (snd t)) \<and> (\<forall>m. holder p' m = None) \<and>
     (\<forall>i<length (threads p'). sleeps_of p' i =
        [wait_to_obtain_ms (snd (threads p' ! i)) * 1000, wait_to_release_ms (snd (threads p' ! i)) * 1000])"
  proof (cases "\<exists>i < length (threads p'). fst (threads p' ! i) \<noteq> Finished")
    case True
    with step_exists [OF ok] show ?thesis by blast
  next
    case False
    then have "\<not> holds p' i m" for i m by (auto simp: holds_def)
    then have "holder p' m = None" for m using ok by (metis not_Some_eq pool_ok_def)
    moreover have "\<forall>t \<in> set (threads p'). fst t = Finished" using False by (metis in_set_conv_nth)
    moreover have "\<forall>i<length (threads p'). sleeps_of p' i =
        [wait_to_obtain_ms (snd (threads p' ! i)) * 1000, wait_to_release_ms (snd (threads p' ! i)) * 1000]"
      using False sl by (simp add: slept_ok_def sleeps_due_def)
    ultimately show ?thesis using ok by (auto simp: pool_ok_def)
  qed
qed

text \<open>Two threads on mutex 7, the first of them holding it.\<close>

definition two_threads :: pool where
  "two_threads = snd (start_thread_obtaining_mutex True True 7 20 5 (snd (start_thread_obtaining_mutex True True 7 0 10 empty_pool)))"

lemma two_threads_reachable: "pool_reachable two_threads"
  unfolding two_threads_def
  by (rule pool_reachable.create [OF pool_reachable.create [OF pool_reachable.start prod.collapse [symmetric]]
        prod.collapse [symmetric]])

lemma two_threads_start:
  "length (threads two_threads) = 2" "fst (threads two_threads ! 0) = SleepToObtain"
  "mutex (snd (threads two_threads ! 0)) = 7" "holder two_threads = (\<lambda>_. None)"
  by (simp_all add: two_threads_def start_thread_obtaining_mutex_def Let_def empty_pool_def)

lemma first_locks: "\<exists>p. runs two_threads 2 p \<and> pool_reachable p \<and> holds p 0 7"
proof -
  obtain d where d: "threads two_threads ! 0 = (SleepToObtain, d)" "mutex d = 7"
    using two_threads_start by (metis prod.collapse)
  let ?p = "two_threads\<lparr>threads := (threads two_threads)[0 := (Lock, d)],
      slept := slept two_threads @ [(0, wait_to_obtain_ms d * 1000)]\<rparr>"
  let ?q = "?p\<lparr>holder := (holder ?p)(mutex d := Some 0), threads := (threads ?p)[0 := (SleepToRelease, d)]\<rparr>"
  have s: "threadfunc_step two_threads 0 ?p" "threadfunc_step ?p 0 ?q"
    using threadfunc_step.sleep_to_obtain [of 0 two_threads d] threadfunc_step.lock [of 0 ?p d]
      two_threads_start d by simp_all
  have "runs two_threads (Suc (Suc 0)) ?q" by (rule runs.more [OF s(1) runs.more [OF s(2) runs.stop]])
  moreover have "pool_reachable ?q"
    by (rule pool_reachable.run [OF pool_reachable.run [OF two_threads_reachable s(1)] s(2)])
  moreover have "holds ?q 0 7" using two_threads_start d(2) by (simp add: holds_def)
  ultimately show ?thesis by (metis numeral_2_eq_2)
qed

lemma threads_exclude_each_other_witness:
  "\<exists>p. runs two_threads 2 p \<and> holds p 0 7 \<and> \<not> holds p 1 7 \<and> holder p 7 = Some 0"
proof -
  obtain p where p: "runs two_threads 2 p" "pool_reachable p" "holds p 0 7" using first_locks by blast
  with threads_exclude_each_other [OF p(2), of 0 7 1] threads_exclude_each_other [OF p(2), of 0 7 0]
  show ?thesis by auto
qed

lemma threads_finish_witness:
  "\<exists>p. runs two_threads 2 p \<and> 2 \<le> work_left two_threads \<and> work_left two_threads \<le> 5 * 2 \<and>
     ((\<exists>i p''. threadfunc_step p i p'') \<or>
      (\<forall>t \<in> set (threads p). fst t = Finished \<and> thread_complete_success (snd t)) \<and> (\<forall>m. holder p m = None) \<and>
      (\<forall>i<length (threads p). sleeps_of p i =
        [wait_to_obtain_ms (snd (threads p ! i)) * 1000, wait_to_release_ms (snd (threads p ! i)) * 1000]))"
proof -
  obtain p where p: "runs two_threads 2 p" using first_locks by blast
  from threads_finish [OF two_threads_reachable p] p show ?thesis by (auto simp: two_threads_start)
qed

end
