(* ===== verification/Autotest_Validate.thy ===== *)
theory Autotest_Validate
  imports Prelude
begin

text \<open>
  \<^verbatim>\<open>examples/autotest-validate\<close> and the unit test of it: constants, the lines that the program
  prints, and the comparison with the user name of the configuration, which a submodule reads from
  \<^verbatim>\<open>conf/username.txt\<close> and is an argument here.
\<close>

definition this_function_returns_true :: bool where
  "this_function_returns_true = True"

definition this_function_returns_false :: bool where
  "this_function_returns_false = False"

definition my_username :: "byte list" where
  "my_username = ''mr16048''"

definition git_username :: "byte list" where
  "git_username = ''akshita-bhasin''"

text \<open>What \<^verbatim>\<open>main\<close> prints.\<close>

definition show_bool :: "bool \<Rightarrow> byte list" where
  "show_bool b = (if b then ''true'' else ''false'')"

definition autotest_main :: "byte list" where
  "autotest_main =
     ''this_function_returns_true returned '' @ show_bool this_function_returns_true @ [newline] @
     ''this_function_returns_false returned '' @ show_bool this_function_returns_false @ [newline]"

text \<open>\<^verbatim>\<open>test_validate_my_username\<close>: whether the assertion holds for the configured name.\<close>

definition test_validate_my_username :: "byte list \<Rightarrow> bool" where
  "test_validate_my_username conf \<longleftrightarrow> my_username = conf"

text \<open>The test accepts the name of the configuration, and not the one that \<^verbatim>\<open>main\<close>'s file declares.\<close>

lemma username_tests:
  "test_validate_my_username ''mr16048''" "\<not> test_validate_my_username git_username"
  by (simp_all add: test_validate_my_username_def my_username_def git_username_def)

end
