(* ===== verification/Systemcalls.thy ===== *)
theory Systemcalls
  imports Prelude "HOL-Library.Word"
begin

unbundle bit_operations_syntax

text \<open>
  \<^verbatim>\<open>examples/systemcalls/systemcalls.c\<close> and \<^verbatim>\<open>finder-app/writer.c\<close>. After a
  \<^verbatim>\<open>fork\<close> there are two processes, and a function may return in both: the result of a function
  is the list of the processes there are, with how each leaves the function. What the kernel answers
  is a record of arguments.
\<close>

section \<open>Processes\<close>

datatype process = Parent | Child

datatype leaves =
    Returns bool
  | Exits u32                      \<comment> \<open>\<^verbatim>\<open>_exit\<close> with this status\<close>
  | Becomes "byte list list"       \<comment> \<open>\<^verbatim>\<open>execv\<close> succeeded: the program with its arguments\<close>

text \<open>
  The answers of the kernel: whether \<^verbatim>\<open>open\<close>, \<^verbatim>\<open>fork\<close>, \<^verbatim>\<open>dup2\<close> and \<^verbatim>\<open>waitpid\<close> succeed,
  whether a path can be executed, and the wait status with which a program ends.
\<close>

record kernel =
  open_ok :: bool
  fork_ok :: bool
  dup2_ok :: bool
  waitpid_ok :: bool
  can_exec :: "byte list \<Rightarrow> bool"
  program_status :: "byte list list \<Rightarrow> u32"
  caller_status :: u32      \<comment> \<open>the wait status of a child that goes on running the caller\<close>

definition WIFEXITED :: "u32 \<Rightarrow> bool" where
  "WIFEXITED st \<longleftrightarrow> st AND 0x7F = 0"

definition WEXITSTATUS :: "u32 \<Rightarrow> u32" where
  "WEXITSTATUS st = drop_bit 8 st AND 0xFF"

text \<open>The status that \<^verbatim>\<open>waitpid\<close> reports for a child.\<close>

definition wait_status :: "kernel \<Rightarrow> leaves \<Rightarrow> u32" where
  "wait_status k l = (case l of
       Returns _ \<Rightarrow> caller_status k
     | Exits c \<Rightarrow> push_bit 8 (c AND 0xFF)
     | Becomes argv \<Rightarrow> program_status k argv)"

text \<open>\<^verbatim>\<open>execv(command[0], command)\<close>: with no command at all the path is a null pointer.\<close>

definition execv_ok :: "kernel \<Rightarrow> byte list list \<Rightarrow> bool" where
  "execv_ok k command \<longleftrightarrow> command \<noteq> [] \<and> can_exec k (hd command)"

section \<open>The functions\<close>

text \<open>\<open>result\<close> is what \<^verbatim>\<open>system(cmd)\<close> returns.\<close>

definition do_system :: "s32 \<Rightarrow> bool" where
  "do_system result = (if result \<noteq> 0 then False else True)"

definition do_exec :: "kernel \<Rightarrow> byte list list \<Rightarrow> (process \<times> leaves) list" where
  "do_exec k command =
     (if \<not> fork_ok k then [(Parent, Returns False)]
      else
        (let child = (if execv_ok k command then Becomes command else Exits (- 1));
             status = wait_status k child
         in [(Child, child),
             (Parent,
              if \<not> waitpid_ok k then Returns False
              else if WIFEXITED status \<and> WEXITSTATUS status = 0 then Returns True
              else Returns False)]))"

text \<open>
  \<^verbatim>\<open>do_exec_redirect\<close>: with each process also whether the descriptor of the output file is still
  open in it when it leaves the function.
\<close>

definition do_exec_redirect :: "kernel \<Rightarrow> byte list list \<Rightarrow> (process \<times> leaves \<times> bool) list" where
  "do_exec_redirect k command =
     (if \<not> open_ok k then [(Parent, Returns False, False)]
      else if \<not> fork_ok k then [(Parent, Returns False, True)]
      else
        (let child = (if \<not> dup2_ok k then (Returns False, True)
                      else if execv_ok k command then (Becomes command, False)
                      else (Returns False, False))
         in [(Child, child),
             (Parent, if \<not> waitpid_ok k then Returns False else Returns True, True)]))"

section \<open>\<^verbatim>\<open>writer\<close>\<close>

text \<open>
  \<^verbatim>\<open>main\<close> of \<^verbatim>\<open>writer.c\<close>: \<open>argv\<close> with the name of the program; \<open>fd\<close> is what
  \<^verbatim>\<open>open\<close> returns (the file is empty afterwards), \<open>writen\<close> what \<^verbatim>\<open>write\<close> returns. The
  result is the exit status and the contents of the file (\<open>None\<close> if it was not opened).
\<close>

definition writer_main :: "byte list list \<Rightarrow> s32 \<Rightarrow> s64 \<Rightarrow> u32 \<times> byte list option" where
  "writer_main argv fd writen =
     (if length argv \<noteq> 3 then (1, None)
      else
        (let writestr = argv ! 2 in
         if fd = - 1 then (1, None)
         else if writen = - 1 then (1, Some [])
         else (0, Some (take (nat (sint writen)) writestr))))"

section \<open>Properties\<close>

lemma exit_255: "\<not> (WIFEXITED (push_bit 8 (- 1 AND 0xFF)) \<and> WEXITSTATUS (push_bit 8 (- 1 AND 0xFF)) = 0)"
  by (simp add: WIFEXITED_def WEXITSTATUS_def)

text \<open>
  C39: \<^verbatim>\<open>do_exec\<close> keeps its contract. It returns in one process only, the parent, and returns
  true exactly if the command was started and waited for and ended by itself with status 0.
\<close>

theorem do_exec_reports_success:
  "filter (\<lambda>(_, l). case l of Returns _ \<Rightarrow> True | _ \<Rightarrow> False) (do_exec k command) =
     [(Parent, Returns (fork_ok k \<and> execv_ok k command \<and> waitpid_ok k \<and>
        WIFEXITED (program_status k command) \<and> WEXITSTATUS (program_status k command) = 0))]"
  using exit_255 by (auto simp: do_exec_def Let_def wait_status_def)

text \<open>
  C40: \<^verbatim>\<open>do_exec_redirect\<close> does not. Whenever the file is opened and \<^verbatim>\<open>fork\<close> and
  \<^verbatim>\<open>waitpid\<close> succeed, the parent returns true, whatever became of the command; it never closes
  the file; and if the command cannot be started, or the output not be redirected, the child returns
  false from the function too, and goes on running the caller's code.
\<close>

theorem do_exec_redirect_ignores_failure:
  assumes "open_ok k" and "fork_ok k" and "waitpid_ok k"
  shows "(Parent, Returns True, True) \<in> set (do_exec_redirect k command) \<and>
    ((\<exists>open. (Child, Returns False, open) \<in> set (do_exec_redirect k command)) \<longleftrightarrow>
      \<not> dup2_ok k \<or> \<not> execv_ok k command)"
  using assms by (auto simp: do_exec_redirect_def Let_def)

lemma do_exec_redirect_ignores_failure_witness:
  "let k = \<lparr>open_ok = True, fork_ok = True, dup2_ok = True, waitpid_ok = True,
       can_exec = \<lambda>_. False, program_status = \<lambda>_. 0, caller_status = 0\<rparr> in
   (Parent, Returns True, True) \<in> set (do_exec_redirect k [''/no/such/program'']) \<and>
   (\<exists>open. (Child, Returns False, open) \<in> set (do_exec_redirect k [''/no/such/program'']))"
  using do_exec_redirect_ignores_failure [of "\<lparr>open_ok = True, fork_ok = True, dup2_ok = True, waitpid_ok = True,
       can_exec = \<lambda>_. False, program_status = \<lambda>_. 0, caller_status = 0\<rparr>" "[''/no/such/program'']"]
  by (simp add: execv_ok_def)

text \<open>
  \<^verbatim>\<open>writer\<close> exits with 0 exactly if it got two arguments and neither \<^verbatim>\<open>open\<close> nor
  \<^verbatim>\<open>write\<close> failed, and then the file holds the bytes that \<^verbatim>\<open>write\<close> took. A write that takes
  fewer bytes than it was given is not noticed: the status is 0 and the file is cut short.
\<close>

theorem writer_exit_status:
  assumes "argv = [program, path, str] \<longrightarrow> writen = - 1 \<or> 0 \<le> sint writen \<and> sint writen \<le> int (length str)"
  shows "(fst (writer_main argv fd writen) = 0 \<longleftrightarrow> length argv = 3 \<and> fd \<noteq> - 1 \<and> writen \<noteq> - 1) \<and>
    (argv = [program, path, str] \<and> fd \<noteq> - 1 \<and> writen \<noteq> - 1 \<longrightarrow>
      (\<exists>cut. writer_main argv fd writen = (0, Some cut) \<and>
        length cut = nat (sint writen) \<and> cut = take (nat (sint writen)) str \<and>
        (cut = str \<longleftrightarrow> sint writen = int (length str))))"
  using assms by (auto simp: writer_main_def Let_def)

lemma writer_exit_status_witness:
  "writer_main [''writer'', ''/tmp/f'', ''hello''] 3 2 = (0, Some ''he'')"
  using writer_exit_status [of "[''writer'', ''/tmp/f'', ''hello'']" "''writer''" "''/tmp/f''" "''hello''" 2 3]
  by auto

end
