(* ===== verification/Shell.thy ===== *)
theory Shell
  imports Systemcalls Seek_Command "HOL-Library.AList" "HOL-Library.Sublist"
    "HOL-Library.List_Lexorder" "HOL-Library.Char_ord"
begin

text \<open>
  What the shell scripts of the repository use of the shell and of the standard utilities: a file
  system, the expansion of words, \<^verbatim>\<open>test\<close>, \<^verbatim>\<open>echo\<close>, sums, redirection, and \<^verbatim>\<open>cat\<close>,
  \<^verbatim>\<open>dirname\<close>, \<^verbatim>\<open>mkdir -p\<close>, \<^verbatim>\<open>rm -rf\<close>, \<^verbatim>\<open>seq\<close>. Strings are lists of bytes, as everywhere.
  Cases that shells treat differently, and \<^verbatim>\<open>grep\<close>, are functions of the record \<open>shell\<close>.
\<close>

section \<open>Files\<close>

datatype node = Regular "byte list" | Directory

type_synonym path = "byte list"
type_synonym files = "(path \<times> node) list"

abbreviation (input) slash :: byte where "slash \<equiv> CHR ''/''"

text \<open>Paths are compared as they are written; the working directory is \<^verbatim>\<open>.\<close>.\<close>

definition is_dir :: "files \<Rightarrow> path \<Rightarrow> bool" where
  "is_dir fs p \<longleftrightarrow> map_of fs p = Some Directory"

definition dirname :: "path \<Rightarrow> path" where
  "dirname p =
     (if slash \<notin> set p then ''.''
      else (let d = rev (tl (dropWhile (\<lambda>c. c \<noteq> slash) (rev p))) in if d = [] then [slash] else d))"

text \<open>\<^verbatim>\<open>open\<close> with \<^verbatim>\<open>O_CREAT | O_TRUNC\<close>: the file is there and empty, or the call fails.\<close>

definition open_trunc :: "(path \<Rightarrow> bool) \<Rightarrow> files \<Rightarrow> path \<Rightarrow> files option" where
  "open_trunc may_write fs p =
     (if may_write p \<and> \<not> is_dir fs p \<and> (map_of fs p \<noteq> None \<or> is_dir fs (dirname p))
      then Some (AList.update p (Regular []) fs) else None)"

definition rm_rf :: "path \<Rightarrow> files \<Rightarrow> files" where
  "rm_rf p fs = filter (\<lambda>(q, _). q \<noteq> p \<and> \<not> prefix (p @ [slash]) q) fs"

text \<open>\<^verbatim>\<open>mkdir -p\<close>: the directory and those above it.\<close>

definition dirs_above :: "path \<Rightarrow> path list" where
  "dirs_above p = map (\<lambda>i. take i p) (filter (\<lambda>i. p ! i = slash) [1..<length p])"

fun mkdirs :: "path list \<Rightarrow> files \<Rightarrow> files \<times> bool" where
  "mkdirs [] fs = (fs, True)"
| "mkdirs (p # ps) fs =
     (case map_of fs p of
        Some Directory \<Rightarrow> mkdirs ps fs
      | Some (Regular _) \<Rightarrow> (fs, False)
      | None \<Rightarrow> mkdirs ps (AList.update p Directory fs))"

text \<open>The files, and whether the directory is there; those above it that were made stay.\<close>

definition mkdir_p :: "path \<Rightarrow> files \<Rightarrow> files \<times> bool" where
  "mkdir_p p fs = mkdirs (dirs_above p @ [p]) fs"

text \<open>\<^verbatim>\<open>"$dir"/*\<close>: the names in a directory in their order, or the pattern if there is none.\<close>

definition entry_of :: "path \<Rightarrow> path \<Rightarrow> bool" where
  "entry_of d q \<longleftrightarrow> prefix (d @ [slash]) q \<and>
     (let name = drop (Suc (length d)) q in name \<noteq> [] \<and> slash \<notin> set name \<and> hd name \<noteq> CHR ''.'')"

definition listing :: "files \<Rightarrow> path \<Rightarrow> path list" where
  "listing fs d = sort (filter (entry_of d) (map fst fs))"

definition files_in :: "files \<Rightarrow> path \<Rightarrow> path list" where
  "files_in fs d = (if listing fs d = [] then [d @ ''/*''] else listing fs d)"

section \<open>Words\<close>

text \<open>
  What differs between shells or is a program of its own: the expansion of a word with a pattern,
  \<^verbatim>\<open>test\<close> with other arguments than those handled below, \<^verbatim>\<open>echo\<close> with options or escapes, sums of
  anything but numbers, \<^verbatim>\<open>seq\<close> of anything but a number, the output of \<^verbatim>\<open>grep -c\<close>; what the
  user may write; the exit status of a script whose sum or whose redirection fails.
\<close>

record shell =
  other_words :: "files \<Rightarrow> byte list \<Rightarrow> byte list list"
  other_test :: "files \<Rightarrow> byte list list \<Rightarrow> bool"
  other_echo :: "byte list list \<Rightarrow> byte list"
  other_sum :: "byte list \<Rightarrow> byte list \<Rightarrow> byte list option"
  other_seq :: "byte list \<Rightarrow> byte list list"
  grep_c :: "files \<Rightarrow> byte list list \<Rightarrow> byte list"
  may_write :: "path \<Rightarrow> bool"
  sum_status :: nat
  redirect_status :: nat

definition blank :: "byte \<Rightarrow> bool" where
  "blank c \<longleftrightarrow> c = CHR '' '' \<or> c = CHR 0x09 \<or> c = newline"

function fields :: "byte list \<Rightarrow> byte list list" where
  "fields [] = []"
| "fields (c # s) =
     (if blank c then fields s
      else (c # takeWhile (\<lambda>c. \<not> blank c) s) # fields (dropWhile (\<lambda>c. \<not> blank c) s))"
  by pat_completeness auto

termination
  by (relation "measure length") (auto simp: less_Suc_eq_le length_dropWhile_le)

text \<open>An expansion that is not quoted: split into fields, each of which may be a pattern.\<close>

definition unquoted :: "shell \<Rightarrow> files \<Rightarrow> byte list \<Rightarrow> byte list list" where
  "unquoted sh fs s =
     concat (map (\<lambda>w. if set w \<inter> set ''*?['' = {} then [w] else other_words sh fs w) (fields s))"

text \<open>\<^verbatim>\<open>$(...)\<close> drops the newlines at the end.\<close>

definition substitution :: "byte list \<Rightarrow> byte list" where
  "substitution s = rev (dropWhile (\<lambda>c. c = newline) (rev s))"

fun joined :: "byte list list \<Rightarrow> byte list" where
  "joined [] = []"
| "joined [w] = w"
| "joined (w # ws) = w @ CHR '' '' # joined ws"

definition echo :: "shell \<Rightarrow> byte list list \<Rightarrow> byte list" where
  "echo sh ws =
     (if (\<forall>w \<in> set ws. CHR 0x5C \<notin> set w) \<and> (ws = [] \<or> hd ws = [] \<or> hd (hd ws) \<noteq> CHR ''-'')
      then joined ws @ [newline] else other_echo sh ws)"

text \<open>\<^verbatim>\<open>[ ... ]\<close>, by the number of its arguments.\<close>

definition test_cmd :: "shell \<Rightarrow> files \<Rightarrow> byte list list \<Rightarrow> bool" where
  "test_cmd sh fs ws =
     (case ws of
        [] \<Rightarrow> False
      | [a] \<Rightarrow> a \<noteq> []
      | [a, b] \<Rightarrow> if a = ''!'' then b = [] else if a = ''-d'' then is_dir fs b else other_test sh fs ws
      | [a, b, c] \<Rightarrow> if b = ''!='' then a \<noteq> c
                     else if a = ''!'' \<and> b = ''-d'' then \<not> is_dir fs c else other_test sh fs ws
      | _ \<Rightarrow> other_test sh fs ws)"

text \<open>\<^verbatim>\<open>$((a+b))\<close> on variables that hold numbers.\<close>

definition is_number :: "byte list \<Rightarrow> bool" where
  "is_number s \<longleftrightarrow> s = show_dec (dec_value s)"

definition sum_of :: "shell \<Rightarrow> byte list \<Rightarrow> byte list \<Rightarrow> byte list option" where
  "sum_of sh a b =
     (if is_number a \<and> is_number b \<and> dec_value a + dec_value b < 2 ^ 63
      then Some (show_dec (dec_value a + dec_value b)) else other_sum sh a b)"

text \<open>\<^verbatim>\<open>seq 1 n\<close>, one word per line.\<close>

definition seq_1 :: "shell \<Rightarrow> byte list \<Rightarrow> byte list list" where
  "seq_1 sh n = (if is_number n then map show_dec [1..<Suc (dec_value n)] else other_seq sh n)"

definition cat :: "files \<Rightarrow> path \<Rightarrow> byte list option" where
  "cat fs p = (case map_of fs p of Some (Regular c) \<Rightarrow> Some c | _ \<Rightarrow> None)"

section \<open>Lines, and what \<^verbatim>\<open>grep\<close> documents\<close>

function lines_of :: "byte list \<Rightarrow> byte list list" where
  "lines_of [] = []"
| "lines_of (c # s) =
     (if c = newline then [] # lines_of s
      else (c # takeWhile (\<lambda>c. c \<noteq> newline) s) # lines_of (tl (dropWhile (\<lambda>c. c \<noteq> newline) s)))"
  by pat_completeness auto

termination
  by (relation "measure length") (auto simp: less_Suc_eq_le intro: le_trans [OF diff_le_self length_dropWhile_le])

fun contains :: "byte list \<Rightarrow> byte list \<Rightarrow> bool" where
  "contains p [] \<longleftrightarrow> p = []"
| "contains p (c # s) \<longleftrightarrow> prefix p (c # s) \<or> contains p s"

definition count_lines :: "byte list \<Rightarrow> byte list \<Rightarrow> nat" where
  "count_lines p c = length (filter (contains p) (lines_of c))"

text \<open>
  A plain word is passed on as it is by every expansion, is not an option and not a pattern; as a
  pattern of \<^verbatim>\<open>grep\<close> it stands for itself if it has no dot either.
\<close>

definition plain_char :: "byte \<Rightarrow> bool" where
  "plain_char c \<longleftrightarrow> \<not> blank c \<and> c \<notin> set ''*?[]^$'' \<and> c \<noteq> CHR 0x5C \<and> c \<noteq> nul"

definition plain :: "byte list \<Rightarrow> bool" where
  "plain w \<longleftrightarrow> w \<noteq> [] \<and> hd w \<noteq> CHR ''-'' \<and> (\<forall>c \<in> set w. plain_char c)"

definition literal :: "byte list \<Rightarrow> bool" where
  "literal p \<longleftrightarrow> plain p \<and> CHR ''.'' \<notin> set p"

definition grep_documented :: "shell \<Rightarrow> bool" where
  "grep_documented sh \<longleftrightarrow> (\<forall>fs p f c. literal p \<and> plain f \<and> map_of fs f = Some (Regular c) \<longrightarrow>
     grep_c sh fs [p, f] = show_dec (count_lines p c) @ [newline])"

section \<open>Laws\<close>

lemma fields_one: "w \<noteq> [] \<Longrightarrow> \<forall>c \<in> set w. \<not> blank c \<Longrightarrow> fields w = [w]"
  by (cases w) (auto simp: takeWhile_eq_all_conv [THEN iffD2] dropWhile_eq_Nil_conv [THEN iffD2])

lemma unquoted_plain [simp]: "plain w \<Longrightarrow> unquoted sh fs w = [w]"
  by (auto simp: unquoted_def plain_def plain_char_def fields_one)

lemma digit_plain: "is_digit c \<Longrightarrow> plain_char c \<and> c \<noteq> CHR ''-''"
  by (auto simp: is_digit_def blank_def plain_char_def)

lemma plain_show_dec [simp]: "plain (show_dec n)"
proof -
  have "\<forall>c \<in> set (show_dec n). is_digit c" using show_dec_digits by blast
  moreover from this have "is_digit (hd (show_dec n))" by simp
  ultimately show ?thesis using digit_plain by (auto simp: plain_def)
qed

lemma plain_append: "plain a \<Longrightarrow> \<forall>c \<in> set b. plain_char c \<Longrightarrow> plain (a @ b)"
  by (auto simp: plain_def)

lemma plain_no_backslash: "plain w \<Longrightarrow> CHR 0x5C \<notin> set w"
  by (auto simp: plain_def plain_char_def)

lemma is_number_show_dec [simp]: "is_number (show_dec n)"
  by (simp add: is_number_def dec_value_show_dec)

lemma sum_of_numbers: "a + b < 2 ^ 63 \<Longrightarrow> sum_of sh (show_dec a) (show_dec b) = Some (show_dec (a + b))"
  by (simp add: sum_of_def dec_value_show_dec)

lemma substitution_snoc: "substitution (s @ [newline]) = substitution s"
  by (simp add: substitution_def)

lemma substitution_id: "s = [] \<or> last s \<noteq> newline \<Longrightarrow> substitution s = s"
  by (cases s rule: rev_cases) (simp_all add: substitution_def)

lemma plain_last: "plain w \<Longrightarrow> last w \<noteq> newline"
  using last_in_set [of w] by (auto simp: plain_def plain_char_def blank_def)

lemma substitution_plain [simp]: "plain w \<Longrightarrow> substitution (w @ [newline]) = w"
  by (simp add: substitution_snoc substitution_id plain_last)

lemma echo_plain [simp]: "plain w \<Longrightarrow> echo sh [w] = w @ [newline]"
  by (auto simp: echo_def plain_def plain_char_def)

lemma map_of_rm_rf:
  "map_of (rm_rf p fs) q = (if q = p \<or> prefix (p @ [slash]) q then None else map_of fs q)"
  by (induction fs) (auto simp: rm_rf_def)

lemma mkdirs_keeps: "map_of fs q = Some n \<Longrightarrow> map_of (fst (mkdirs ps fs)) q = Some n"
proof (induction ps fs rule: mkdirs.induct)
  case (2 p ps fs)
  then show ?case by (cases "q = p") (auto simp: AList.update_conv' split: option.splits node.splits)
qed simp

lemma mkdirs_dirs: "mkdirs ps fs = (fs', True) \<Longrightarrow> p \<in> set ps \<Longrightarrow> is_dir fs' p"
proof (induction ps fs rule: mkdirs.induct)
  case (2 q ps fs)
  then show ?case
    using mkdirs_keeps [of fs q Directory ps] mkdirs_keeps [of "AList.update q Directory fs" q Directory ps]
    by (auto simp: is_dir_def AList.update_conv' split: option.splits node.splits)
qed simp

lemma mkdir_p_dir: "mkdir_p p fs = (fs', True) \<Longrightarrow> is_dir fs' p"
  unfolding mkdir_p_def by (rule mkdirs_dirs) auto

lemma mkdirs_new: "q \<in> fst ` set (fst (mkdirs ps fs)) \<Longrightarrow> q \<in> fst ` set fs \<or> q \<in> set ps"
  by (induction ps fs rule: mkdirs.induct)
    (auto simp: AList.update_keys dom_update split: option.splits node.splits)

lemma update_new: "map_of fs k = None \<Longrightarrow> AList.update k v fs = fs @ [(k, v)]"
  by (induction fs) (auto split: if_splits)

end
