(* ===== verification/Finder_App.thy ===== *)
theory Finder_App
  imports Shell
begin

text \<open>
  \<^verbatim>\<open>finder-app/\<close>: the scripts \<^verbatim>\<open>finder.sh\<close> and \<^verbatim>\<open>writer.sh\<close>, and \<^verbatim>\<open>finder-test.sh\<close>, which runs
  \<^verbatim>\<open>writer\<close> and \<^verbatim>\<open>finder.sh\<close> on a directory of its own. A script has its arguments and the files,
  and results in the files, what it printed and its exit status.
\<close>

section \<open>\<^verbatim>\<open>writer.sh\<close>\<close>

primrec mkdir_each :: "path list \<Rightarrow> files \<Rightarrow> files" where
  "mkdir_each [] fs = fs"
| "mkdir_each (p # ps) fs = mkdir_each ps (fst (mkdir_p p fs))"

text \<open>A redirection to anything but one word fails; the failure of \<^verbatim>\<open>mkdir\<close> is not looked at.\<close>

definition writer_sh :: "shell \<Rightarrow> byte list list \<Rightarrow> files \<Rightarrow> files \<times> byte list \<times> nat" where
  "writer_sh sh args fs =
     (if length args \<noteq> 2 then (fs, echo sh [''Insufficient arguments''], 1)
      else
        (let writefile = args ! 0; writestr = args ! 1;
             writeDir = substitution (concat (map (\<lambda>w. dirname w @ [newline]) (unquoted sh fs writefile)));
             fs = mkdir_each (unquoted sh fs writeDir) fs
         in case unquoted sh fs writefile of
              [file] \<Rightarrow>
                (case open_trunc (may_write sh) fs file of
                   Some fs' \<Rightarrow> (AList.update file (Regular (echo sh (unquoted sh fs writestr))) fs', [], 0)
                 | None \<Rightarrow> (fs, echo sh [''Error writing to file''], 1))
            | _ \<Rightarrow> (fs, echo sh [''Error writing to file''], 1)))"

section \<open>\<^verbatim>\<open>finder.sh\<close>\<close>

text \<open>The variables are strings. The script ends where a sum fails (\<open>Inl\<close>).\<close>

record finder =
  disk :: files
  printed :: "byte list"
  fileNum :: "byte list"
  lineNum :: "byte list"

text \<open>\<^verbatim>\<open>[ $lineNumTemp > 0 ]\<close> is a test of one word, with its output redirected to the file \<^verbatim>\<open>0\<close>.\<close>

definition finder_step :: "shell \<Rightarrow> byte list \<Rightarrow> path \<Rightarrow> finder \<Rightarrow> finder + finder" where
  "finder_step sh searchstr file st =
     (let st = st\<lparr>printed := printed st @ echo sh (unquoted sh (disk st) file)\<rparr>;
          lineNumTemp = substitution (grep_c sh (disk st)
            (unquoted sh (disk st) searchstr @ unquoted sh (disk st) file));
          ws = unquoted sh (disk st) lineNumTemp
      in case open_trunc (may_write sh) (disk st) ''0'' of
           None \<Rightarrow> Inr st
         | Some fs \<Rightarrow>
             (let st = st\<lparr>disk := fs\<rparr> in
              if test_cmd sh fs ws then
                (case sum_of sh (fileNum st) ''1'' of
                   None \<Rightarrow> Inl st
                 | Some n \<Rightarrow>
                     (let st = st\<lparr>fileNum := n\<rparr> in
                      case sum_of sh (lineNum st) lineNumTemp of
                        None \<Rightarrow> Inl st
                      | Some m \<Rightarrow> Inr (st\<lparr>lineNum := m\<rparr>)))
              else Inr st))"

primrec finder_loop :: "shell \<Rightarrow> byte list \<Rightarrow> path list \<Rightarrow> finder \<Rightarrow> finder + finder" where
  "finder_loop sh searchstr [] st = Inr st"
| "finder_loop sh searchstr (file # files) st = bnd (finder_step sh searchstr file st) (finder_loop sh searchstr files)"

definition summary :: "byte list \<Rightarrow> byte list \<Rightarrow> byte list" where
  "summary n m = ''The number of files are '' @ n @ '' and the number of matching lines are '' @ m"

definition finder_sh :: "shell \<Rightarrow> byte list list \<Rightarrow> files \<Rightarrow> files \<times> byte list \<times> nat" where
  "finder_sh sh args fs =
     (if length args \<noteq> 2 then (fs, echo sh [''Insufficient arguments.''], 1)
      else
        (let filesdir = args ! 0; searchstr = args ! 1 in
         if test_cmd sh fs ([''!'', ''-d''] @ unquoted sh fs filesdir)
         then (fs, echo sh [filesdir @ ''   doesn not edxist or is not a directory.''], 1)
         else
           (case finder_loop sh searchstr (files_in fs filesdir)
                   \<lparr>disk = fs, printed = [], fileNum = ''0'', lineNum = ''0''\<rparr> of
              Inl st \<Rightarrow> (disk st, printed st, sum_status sh)
            | Inr st \<Rightarrow> (disk st, printed st @ echo sh [summary (fileNum st) (lineNum st) @ ''.''], 0))))"

section \<open>\<^verbatim>\<open>finder-test.sh\<close>\<close>

text \<open>\<^verbatim>\<open>writer\<close> run on the files: \<^verbatim>\<open>write\<close> takes all the bytes it is given.\<close>

definition run_writer :: "shell \<Rightarrow> path \<Rightarrow> byte list \<Rightarrow> files \<Rightarrow> files \<times> u32" where
  "run_writer sh path str fs =
     (let (status, contents) = writer_main [''writer'', path, str]
            (if open_trunc (may_write sh) fs path = None then - 1 else 3) (of_nat (length str))
      in (case contents of None \<Rightarrow> fs | Some c \<Rightarrow> AList.update path (Regular c) fs, status))"

text \<open>The loop over the numbers; \<^verbatim>\<open>set -e\<close> ends it with the first status that is not 0.\<close>

primrec write_files :: "shell \<Rightarrow> path \<Rightarrow> byte list \<Rightarrow> byte list list \<Rightarrow> files \<Rightarrow> files \<times> u32" where
  "write_files sh stem str [] fs = (fs, 0)"
| "write_files sh stem str (i # is) fs =
     (let (fs, status) = run_writer sh (stem @ i @ ''.txt'') str fs in
      if status \<noteq> 0 then (fs, status) else write_files sh stem str is fs)"

definition test_params :: "byte list list \<Rightarrow> byte list \<times> byte list \<times> path" where
  "test_params args =
     (if length args < 3
      then (if length args < 1 then ''10'' else args ! 0, ''AELD_IS_FUN'', ''/tmp/aeld-data'')
      else (args ! 0, args ! 1, ''/tmp/aeld-data/'' @ args ! 2))"

definition CONF_DIR :: path where "CONF_DIR = ''/etc/finder-app/conf''"
definition RESULT_FILE :: path where "RESULT_FILE = ''/tmp/assignment4-result.txt''"

text \<open>The directory is removed and made again, except for the first assignment: the files, and whether to go on.\<close>

definition make_writedir :: "shell \<Rightarrow> path \<Rightarrow> files \<Rightarrow> files \<times> bool" where
  "make_writedir sh writedir fs =
     (let fs = rm_rf writedir fs in
      case cat fs (CONF_DIR @ ''/assignment.txt'') of
        None \<Rightarrow> (fs, False)
      | Some a \<Rightarrow>
          (if test_cmd sh fs (unquoted sh fs (substitution a) @ [''!='', ''assignment1'']) then
             (let (fs, ok) = mkdir_p writedir fs in (fs, ok \<and> test_cmd sh fs [''-d'', writedir]))
           else (fs, True)))"

text \<open>
  The whole script, with the files and the exit status, and whether it says \<^verbatim>\<open>success\<close>. \<^verbatim>\<open>finder.sh\<close> is
  found on the path: \<open>finder\<close> is what is called by this name. The line that compares the output is
  commented out: \<^verbatim>\<open>$?\<close> is the status of \<^verbatim>\<open>set +e\<close>.
\<close>

definition finder_test_with ::
  "(byte list list \<Rightarrow> files \<Rightarrow> files \<times> byte list \<times> nat) \<Rightarrow> shell \<Rightarrow> byte list list \<Rightarrow> files \<Rightarrow> files \<times> nat \<times> bool" where
  "finder_test_with finder sh args fs =
     (case cat fs (CONF_DIR @ ''/username.txt'') of
        None \<Rightarrow> (fs, 1, False)
      | Some u \<Rightarrow>
          (let (numfiles, writestr, writedir) = test_params args; username = substitution u in
           case make_writedir sh writedir fs of (fs, ok) \<Rightarrow>
             if \<not> ok then (fs, 1, False)
             else
               (let (fs, status) = write_files sh (writedir @ [slash] @ username) writestr (seq_1 sh numfiles) fs in
                if status \<noteq> 0 then (fs, unat status, False)
                else
                  (let (fs, output, status) = finder [writedir, writestr] fs; outputstring = substitution output in
                   if status \<noteq> 0 then (fs, status, False)
                   else
                     (case open_trunc (may_write sh) fs RESULT_FILE of
                        None \<Rightarrow> (fs, redirect_status sh, False)
                      | Some fs \<Rightarrow>
                          (let fs = rm_rf ''/tmp/aeld-data'' (AList.update RESULT_FILE (Regular (echo sh [outputstring])) fs);
                               last_status = (0 :: nat)
                           in if last_status = 0 then (fs, 0, True) else (fs, 1, False)))))))"

text \<open>The script with the \<^verbatim>\<open>finder.sh\<close> of the repository.\<close>

definition finder_test :: "shell \<Rightarrow> byte list list \<Rightarrow> files \<Rightarrow> files \<times> nat \<times> bool" where
  "finder_test sh = finder_test_with (finder_sh sh) sh"

section \<open>What \<^verbatim>\<open>finder.sh\<close> counts\<close>

lemma show_dec_0: "show_dec 0 = ''0''" and show_dec_1: "show_dec 1 = ''1''"
  by (subst show_dec.simps, code_simp)+

lemma open_trunc_ok:
  "may p \<Longrightarrow> \<not> is_dir fs p \<Longrightarrow> is_dir fs (dirname p) \<Longrightarrow> open_trunc may fs p = Some (AList.update p (Regular []) fs)"
  by (simp add: open_trunc_def)

lemma finder_step_counts:
  assumes sh: "may_write sh ''0''" and p: "plain p" and f: "plain f"
    and fs: "is_dir (disk st) ''.''" "\<not> is_dir (disk st) ''0''"
    and g: "grep_c sh (disk st) [p, f] = show_dec j @ [newline]"
    and n: "fileNum st = show_dec k" "lineNum st = show_dec m" "Suc k < 2 ^ 63" "m + j < 2 ^ 63"
  shows "finder_step sh p f st = Inr (st\<lparr>disk := AList.update ''0'' (Regular []) (disk st),
    printed := printed st @ f @ [newline], fileNum := show_dec (Suc k), lineNum := show_dec (m + j)\<rparr>)"
proof -
  have "open_trunc (may_write sh) (disk st) ''0'' = Some (AList.update ''0'' (Regular []) (disk st))"
    using sh fs by (intro open_trunc_ok) (simp_all add: dirname_def)
  moreover have "sum_of sh (show_dec k) ''1'' = Some (show_dec (Suc k))"
    using sum_of_numbers [of k 1 sh] n(3) show_dec_1 by simp
  moreover have "test_cmd sh fs' [show_dec j]" for fs' j by (simp add: test_cmd_def)
  ultimately show ?thesis
    using p f g n by (simp add: finder_step_def sum_of_numbers Let_def)
qed

text \<open>What \<^verbatim>\<open>grep -c\<close> prints for each file, as long as the file does not change.\<close>

definition greps :: "shell \<Rightarrow> files \<Rightarrow> byte list \<Rightarrow> (path \<Rightarrow> nat) \<Rightarrow> path list \<Rightarrow> bool" where
  "greps sh fs p g files \<longleftrightarrow> (\<forall>f \<in> set files. \<forall>fs'. map_of fs' f = map_of fs f \<longrightarrow>
     grep_c sh fs' [p, f] = show_dec (g f) @ [newline])"

lemma finder_loop_counts:
  assumes "may_write sh ''0''" "plain p" and "\<forall>f \<in> set files. plain f \<and> f \<noteq> ''0''"
    and "greps sh (disk st) p g files" and "is_dir (disk st) ''.''" "\<not> is_dir (disk st) ''0''"
    and "fileNum st = show_dec k" "lineNum st = show_dec m"
    and "k + length files < 2 ^ 63" "m + sum_list (map g files) < 2 ^ 63"
  shows "\<exists>fs. finder_loop sh p files st = Inr (st\<lparr>disk := fs,
      printed := printed st @ concat (map (\<lambda>f. f @ [newline]) files),
      fileNum := show_dec (k + length files), lineNum := show_dec (m + sum_list (map g files))\<rparr>) \<and>
    map_of fs = (if files = [] then map_of (disk st) else (map_of (disk st))(''0'' \<mapsto> Regular []))"
  using assms(3-)
proof (induction files arbitrary: st k m)
  case Nil
  then show ?case by (intro exI [of _ "disk st"]) (cases st, simp)
next
  case (Cons f files)
  let ?d = "AList.update ''0'' (Regular []) (disk st)"
  let ?st = "st\<lparr>disk := ?d, printed := printed st @ f @ [newline], fileNum := show_dec (Suc k),
     lineNum := show_dec (m + g f)\<rparr>"
  have step: "finder_step sh p f st = Inr ?st"
    using Cons.prems by (intro finder_step_counts [OF assms(1,2)]) (simp_all add: greps_def)
  have "greps sh ?d p g files"
    using Cons.prems(1,2) by (auto simp: greps_def AList.update_conv')
  then obtain fs where "finder_loop sh p files ?st = Inr (?st\<lparr>disk := fs,
      printed := printed ?st @ concat (map (\<lambda>f. f @ [newline]) files),
      fileNum := show_dec (Suc k + length files), lineNum := show_dec (m + g f + sum_list (map g files))\<rparr>)"
    "map_of fs = (if files = [] then map_of ?d else (map_of ?d)(''0'' \<mapsto> Regular []))"
    using Cons.IH [of ?st "Suc k" "m + g f"] Cons.prems by (auto simp: is_dir_def AList.update_conv')
  then show ?case
    by (intro exI [of _ fs]) (auto simp: step AList.update_conv' add.assoc)
qed

lemma listing_entry: "f \<in> set (listing fs d) \<Longrightarrow> entry_of d f"
  by (simp add: listing_def)

lemma entry_not_0: "entry_of d f \<Longrightarrow> f \<noteq> ''0''"
  by (auto simp: entry_of_def prefix_def Cons_eq_append_conv)

lemma digits_echo: "CHR 0x5C \<notin> set (show_dec n)"
  by (rule plain_no_backslash) simp

lemma echo_summary: "echo sh [summary (show_dec n) (show_dec m) @ ''.''] = summary (show_dec n) (show_dec m) @ ''.'' @ [newline]"
  by (simp add: echo_def summary_def digits_echo)

definition finder_output :: "path list \<Rightarrow> nat \<Rightarrow> nat \<Rightarrow> byte list" where
  "finder_output files n m = concat (map (\<lambda>f. f @ [newline]) files) @ summary (show_dec n) (show_dec m) @ ''.''"

lemma finder_sh_output:
  assumes sh: "may_write sh ''0''" and p: "plain p" and d: "plain d" "is_dir fs d"
    and cwd: "is_dir fs ''.''" "\<not> is_dir fs ''0''"
    and files: "listing fs d \<noteq> []" "\<forall>f \<in> set (listing fs d). plain f" "greps sh fs p g (listing fs d)"
    and n: "length (listing fs d) < 2 ^ 63" "sum_list (map g (listing fs d)) < 2 ^ 63"
  shows "\<exists>fs'. finder_sh sh [d, p] fs =
      (fs', finder_output (listing fs d) (length (listing fs d)) (sum_list (map g (listing fs d))) @ [newline], 0) \<and>
    map_of fs' = (map_of fs)(''0'' \<mapsto> Regular [])"
proof -
  let ?files = "listing fs d" and ?st = "\<lparr>disk = fs, printed = [], fileNum = ''0'', lineNum = ''0''\<rparr>"
  have "\<forall>f \<in> set ?files. plain f \<and> f \<noteq> ''0''" using files(2) entry_not_0 [OF listing_entry] by blast
  then obtain fs' where fs': "finder_loop sh p ?files ?st = Inr (?st\<lparr>disk := fs',
      printed := printed ?st @ concat (map (\<lambda>f. f @ [newline]) ?files),
      fileNum := show_dec (0 + length ?files), lineNum := show_dec (0 + sum_list (map g ?files))\<rparr>)"
    "map_of fs' = (map_of fs)(''0'' \<mapsto> Regular [])"
    using finder_loop_counts [OF sh p, of ?files ?st g 0 0] cwd files(1,3) n
    by (auto simp: show_dec_0)
  moreover have "files_in fs d = ?files" using files(1) by (simp add: files_in_def)
  ultimately show ?thesis
    using d by (simp add: finder_sh_def test_cmd_def echo_summary finder_output_def)
qed

definition lines_in :: "files \<Rightarrow> byte list \<Rightarrow> path \<Rightarrow> nat" where
  "lines_in fs p f = (case cat fs f of Some c \<Rightarrow> count_lines p c | None \<Rightarrow> 0)"

lemma greps_documented:
  assumes "grep_documented sh" and "literal p" and "\<forall>f \<in> set files. plain f \<and> cat fs f \<noteq> None"
  shows "greps sh fs p (lines_in fs p) files"
proof -
  have "grep_c sh fs' [p, f] = show_dec (lines_in fs p f) @ [newline]"
    if "f \<in> set files" "map_of fs' f = map_of fs f" for f fs'
    using assms that by (force simp: grep_documented_def lines_in_def cat_def split: option.splits node.splits)
  then show ?thesis by (simp add: greps_def)
qed

text \<open>
  C25: \<^verbatim>\<open>finder.sh\<close> counts every file. On a directory with at least one file that is not hidden, where these
  are regular files with plain names, and for a text of one word without special characters, it prints the
  names in order and exits with 0; the number of matching lines is right, but the number of files is that of all
  these files, whether or not a line matches: \<^verbatim>\<open>>\<close> in the test is a redirection. It leaves
  (or empties) a file named \<^verbatim>\<open>0\<close> in the working directory.
\<close>

theorem finder_counts_every_file:
  assumes "grep_documented sh" and "may_write sh ''0''" and "literal p" and "plain d" and "is_dir fs d"
    and "is_dir fs ''.''" and "\<not> is_dir fs ''0''"
    and "listing fs d \<noteq> []" and "\<forall>f \<in> set (listing fs d). plain f \<and> cat fs f \<noteq> None"
    and "length (listing fs d) < 2 ^ 63" and "sum_list (map (lines_in fs p) (listing fs d)) < 2 ^ 63"
  shows "\<exists>fs'. finder_sh sh [d, p] fs = (fs', concat (map (\<lambda>f. f @ [newline]) (listing fs d)) @
      ''The number of files are '' @ show_dec (length (listing fs d)) @ '' and the number of matching lines are '' @
      show_dec (sum_list (map (lines_in fs p) (listing fs d))) @ ''.'' @ [newline], 0) \<and>
    map_of fs' = (map_of fs)(''0'' \<mapsto> Regular [])"
  using finder_sh_output [OF assms(2) _ assms(4-8) _ greps_documented [OF assms(1,3,9)] assms(10,11)] assms(3,9)
  by (simp add: finder_output_def summary_def literal_def)

section \<open>What \<^verbatim>\<open>finder-test.sh\<close> tests\<close>

lemma dirname_below:
  assumes "d \<noteq> []" and "slash \<notin> set name" shows "dirname (d @ slash # name) = d"
proof -
  have "dropWhile (\<lambda>c. c \<noteq> slash) (rev name @ slash # rev d) = slash # rev d"
    by (subst dropWhile_append2) (use assms(2) in auto)
  with assms(1) show ?thesis by (simp add: dirname_def)
qed

text \<open>What \<^verbatim>\<open>write\<close> returns when it takes the whole string.\<close>

lemma writen_whole:
  assumes "length (str :: byte list) < 2 ^ 63"
  shows "sint (of_nat (length str) :: s64) = int (length str)" and "(of_nat (length str) :: s64) \<noteq> - 1"
proof -
  have "unat (of_nat (length str) :: s64) = length str" using assms by (simp add: unat_of_nat_small)
  then show s: "sint (of_nat (length str) :: s64) = int (length str)"
    using sint_eq_unat64 [of "of_nat (length str) :: s64"] assms by simp
  show "(of_nat (length str) :: s64) \<noteq> - 1"
  proof
    assume "(of_nat (length str) :: s64) = - 1"
    with s show False by simp
  qed
qed

lemma run_writer_new:
  assumes "may_write sh path" and "map_of fs path = None" and "is_dir fs (dirname path)" and "length str < 2 ^ 63"
  shows "run_writer sh path str fs = (fs @ [(path, Regular str)], 0)"
proof -
  have "open_trunc (may_write sh) fs path \<noteq> None"
    using open_trunc_ok [of "may_write sh" path fs] assms by (simp add: is_dir_def)
  with writen_whole [OF assms(4)] show ?thesis by (simp add: run_writer_def writer_main_def update_new assms(2))
qed

lemma run_writer_exists:
  assumes "may_write sh path" and "\<not> is_dir fs path" and "is_dir fs (dirname path)" and "length str < 2 ^ 63"
  shows "\<exists>fs'. run_writer sh path str fs = (fs', 0) \<and> map_of fs' = (map_of fs)(path \<mapsto> Regular str)"
proof -
  have "open_trunc (may_write sh) fs path \<noteq> None" using open_trunc_ok [of "may_write sh" path fs] assms by simp
  with writen_whole [OF assms(4)] show ?thesis by (simp add: run_writer_def writer_main_def AList.update_conv')
qed

lemma write_files_new:
  assumes "\<forall>p. may_write sh p" and "d \<noteq> []" and "is_dir fs d" and "length str < 2 ^ 63" and "distinct is"
    and "\<forall>i \<in> set is. slash \<notin> set (u @ i @ ''.txt'') \<and> map_of fs (d @ slash # u @ i @ ''.txt'') = None"
  shows "write_files sh (d @ [slash] @ u) str is fs = (fs @ map (\<lambda>i. (d @ slash # u @ i @ ''.txt'', Regular str)) is, 0)"
  using assms(3,5,6)
proof (induction "is" arbitrary: fs)
  case (Cons i "is")
  let ?path = "d @ slash # u @ i @ ''.txt''"
  have "run_writer sh ?path str fs = (fs @ [(?path, Regular str)], 0)"
    using Cons.prems assms(1,2,4) dirname_below [of d "u @ i @ ''.txt''"] by (intro run_writer_new) simp_all
  moreover have "is_dir (fs @ [(?path, Regular str)]) d" using Cons.prems(1) by (simp add: is_dir_def)
  moreover have "\<forall>j \<in> set is. slash \<notin> set (u @ j @ ''.txt'') \<and>
      map_of (fs @ [(?path, Regular str)]) (d @ slash # u @ j @ ''.txt'') = None"
    using Cons.prems(2,3) by (auto simp: map_add_def)
  ultimately show ?case using Cons.IH [of "fs @ [(?path, Regular str)]"] Cons.prems(2) by simp
qed simp

text \<open>A file whose only line is the pattern has one matching line.\<close>

lemma count_lines_self:
  assumes "literal p" shows "count_lines p p = 1"
proof -
  have p: "p \<noteq> []" "\<forall>c \<in> set p. c \<noteq> newline" using assms by (auto simp: literal_def plain_def plain_char_def blank_def)
  then have "lines_of p = [p]"
    by (cases p) (auto simp: takeWhile_eq_all_conv [THEN iffD2] dropWhile_eq_Nil_conv [THEN iffD2])
  moreover have "contains p p" by (cases p) simp_all
  ultimately show ?thesis by (simp add: count_lines_def)
qed

lemma mkdirs_other: "q \<notin> set ps \<Longrightarrow> map_of (fst (mkdirs ps fs)) q = map_of fs q"
  by (induction ps fs rule: mkdirs.induct) (auto simp: AList.update_conv' split: option.splits node.splits)

lemma dirs_above_prefix: "q \<in> set (dirs_above d @ [d]) \<Longrightarrow> prefix q d"
  by (auto simp: dirs_above_def take_is_prefix)

text \<open>The directory that the script makes is empty.\<close>

lemma make_writedir_ok:
  assumes a: "cat fs (CONF_DIR @ ''/assignment.txt'') = Some a" "plain (substitution a)" "substitution a \<noteq> ''assignment1''"
    and d: "\<not> prefix d (CONF_DIR @ ''/assignment.txt'')" "snd (mkdir_p d (rm_rf d fs))"
  obtains fs1 where "make_writedir sh d fs = (fs1, True)" "is_dir fs1 d" "\<forall>q \<in> fst ` set fs1. \<not> prefix (d @ [slash]) q"
    "\<And>q. \<not> prefix d q \<Longrightarrow> \<not> prefix q d \<Longrightarrow> map_of fs1 q = map_of fs q"
    "\<And>q n. \<not> prefix d q \<Longrightarrow> map_of fs q = Some n \<Longrightarrow> map_of fs1 q = Some n"
proof -
  let ?fs = "rm_rf d fs"
  obtain fs1 where m: "mkdir_p d ?fs = (fs1, True)" using d(2) by (cases "mkdir_p d ?fs") auto
  have keep: "map_of ?fs q = map_of fs q" if "\<not> prefix d q" for q
    using that append_prefixD [of d "[slash]" q] by (auto simp: map_of_rm_rf)
  have "cat ?fs (CONF_DIR @ ''/assignment.txt'') = Some a"
    using a(1) keep [OF d(1)] by (simp add: cat_def)
  then have mk: "make_writedir sh d fs = (fs1, True)"
    using a(2,3) m mkdir_p_dir [OF m] by (simp add: make_writedir_def test_cmd_def)
  have fst: "fs1 = fst (mkdirs (dirs_above d @ [d]) ?fs)" using m by (simp add: mkdir_p_def)
  have "\<not> prefix (d @ [slash]) q" if "q \<in> fst ` set fs1" for q
  proof -
    have "q \<in> fst ` set ?fs \<or> prefix q d" using mkdirs_new [of q _ ?fs] that dirs_above_prefix unfolding fst by blast
    then show ?thesis using prefix_length_le [of "d @ [slash]" q] prefix_length_le [of q d] by (auto simp: rm_rf_def)
  qed
  then show ?thesis
    by (intro that [OF mk mkdir_p_dir [OF m]] ballI)
      (auto simp: fst keep mkdirs_keeps dest!: dirs_above_prefix intro!: mkdirs_other [THEN trans] mkdirs_keeps)
qed

section \<open>The whole test\<close>

text \<open>
  What the test needs of the machine: it may write, its configuration is there and names an assignment
  after the first, the directory can be made. \<open>d\<close> is the directory and \<open>u\<close> the user's name.
\<close>

definition finder_ready :: "shell \<Rightarrow> files \<Rightarrow> path \<Rightarrow> byte list \<Rightarrow> bool" where
  "finder_ready sh fs d u \<longleftrightarrow>
     (\<forall>p. may_write sh p) \<and> is_dir fs ''.'' \<and> \<not> is_dir fs ''0'' \<and> is_dir fs ''/tmp'' \<and> \<not> is_dir fs RESULT_FILE \<and>
     plain d \<and> snd (mkdir_p d (rm_rf d fs)) \<and>
     map_option substitution (cat fs (CONF_DIR @ ''/username.txt'')) = Some u \<and> plain u \<and> slash \<notin> set u \<and> hd u \<noteq> CHR ''.'' \<and>
     (\<exists>a. cat fs (CONF_DIR @ ''/assignment.txt'') = Some a \<and> plain (substitution a) \<and> substitution a \<noteq> ''assignment1'')"

definition test_file :: "path \<Rightarrow> byte list \<Rightarrow> nat \<Rightarrow> path" where
  "test_file d u i = d @ slash # u @ show_dec i @ ''.txt''"

definition test_files :: "path \<Rightarrow> byte list \<Rightarrow> nat \<Rightarrow> path list" where
  "test_files d u n = sort (map (test_file d u) [1..<Suc n])"

lemma length_test_files [simp]: "length (test_files d u n) = n"
  by (simp add: test_files_def)

lemma plain_test_file: "plain d \<Longrightarrow> plain u \<Longrightarrow> plain (test_file d u i)"
  using plain_show_dec [of i] unfolding test_file_def
  by (intro plain_append) (auto simp: plain_def plain_char_def blank_def)

lemma entry_of_test_file:
  "slash \<notin> set u \<Longrightarrow> u \<noteq> [] \<Longrightarrow> hd u \<noteq> CHR ''.'' \<Longrightarrow> entry_of d (test_file d u i)"
  using show_dec_digits [of slash i] by (auto simp: entry_of_def test_file_def is_digit_def)

lemma test_params_dir: "test_params args = (num, str, d) \<Longrightarrow> prefix ''/tmp/aeld-data'' d"
  by (auto simp: test_params_def split: if_splits)

lemma apart:
  assumes "prefix ''/tmp/aeld-data'' d" and "q \<in> {''.'', ''0'', RESULT_FILE, CONF_DIR @ ''/assignment.txt''}"
  shows "\<not> prefix d q \<and> \<not> prefix q d"
  using assms by (auto simp: prefix_def RESULT_FILE_def CONF_DIR_def)

lemma apart_tmp: "prefix ''/tmp/aeld-data'' d \<Longrightarrow> \<not> prefix d ''/tmp''"
  by (auto simp: prefix_def)

lemma map_of_same: "i \<in> set is \<Longrightarrow> map_of (map (\<lambda>i. (f i, v)) is) (f i) = Some v"
  by (induction "is") auto

text \<open>The files that \<^verbatim>\<open>writer\<close> writes are those that \<^verbatim>\<open>finder.sh\<close> finds.\<close>

lemma test_files_written:
  assumes "\<forall>q \<in> fst ` set fs. \<not> prefix (d @ [slash]) q" and "slash \<notin> set u" "u \<noteq> []" "hd u \<noteq> CHR ''.''"
    and fs2: "fs2 = fs @ map (\<lambda>i. (test_file d u i, Regular str)) [1..<Suc n]"
  shows "listing fs2 d = test_files d u n"
    and "f \<in> set (test_files d u n) \<Longrightarrow> map_of fs2 f = Some (Regular str)"
    and "\<not> prefix d q \<Longrightarrow> map_of fs2 q = map_of fs q"
proof -
  have none: "map_of fs q = None" if "prefix (d @ [slash]) q" for q
    using that assms(1) by (auto simp: map_of_eq_None_iff)
  have "filter (entry_of d) (map fst fs) = []"
    using assms(1) by (auto simp: filter_empty_conv entry_of_def)
  moreover have "filter (entry_of d) (map (test_file d u) [1..<Suc n]) = map (test_file d u) [1..<Suc n]"
    using entry_of_test_file [OF assms(2-4)] by (auto simp: filter_id_conv)
  ultimately show "listing fs2 d = test_files d u n"
    by (simp add: listing_def fs2 test_files_def comp_def del: upt_Suc)
  show "map_of fs2 f = Some (Regular str)" if f: "f \<in> set (test_files d u n)"
  proof -
    obtain i where "f = test_file d u i" "i \<in> set [1..<Suc n]" using f by (auto simp: test_files_def)
    with map_of_same [of i "[1..<Suc n]" "test_file d u"] none [of f] show ?thesis
      by (simp add: fs2 map_add_def test_file_def del: upt_Suc)
  qed
  show "map_of fs2 q = map_of fs q" if q: "\<not> prefix d q"
  proof -
    have "q \<notin> test_file d u ` set [1..<Suc n]" using q by (auto simp: test_file_def)
    then have "map_of (map (\<lambda>i. (test_file d u i, Regular str)) [1..<Suc n]) q = None"
      by (auto simp: map_of_eq_None_iff)
    then show ?thesis by (simp add: fs2 map_add_def del: upt_Suc split: option.split)
  qed
qed

lemma finder_output_echo:
  assumes "files \<noteq> []" and "\<forall>f \<in> set files. plain f"
  shows "substitution (finder_output files n m @ [newline]) = finder_output files n m"
    and "echo sh [finder_output files n m] = finder_output files n m @ [newline]"
proof -
  show "substitution (finder_output files n m @ [newline]) = finder_output files n m"
    unfolding substitution_snoc by (rule substitution_id) (simp add: finder_output_def)
  have "\<forall>f \<in> set files. CHR 0x5C \<notin> set f" using assms(2) plain_no_backslash by blast
  then have "CHR 0x5C \<notin> set (finder_output files n m)"
    by (auto simp: finder_output_def summary_def digits_echo)
  moreover have "hd (finder_output files n m) \<noteq> CHR ''-''"
    using assms by (cases files) (auto simp: finder_output_def plain_def)
  ultimately show "echo sh [finder_output files n m] = finder_output files n m @ [newline]"
    by (simp add: echo_def)
qed

text \<open>The script up to the call of \<^verbatim>\<open>finder.sh\<close>.\<close>

lemma test_files_run:
  assumes ready: "finder_ready sh fs d u" and args: "test_params args = (show_dec n, str, d)"
    and str: "plain str" "length str < 2 ^ 63"
  obtains fs1 fs2 where "make_writedir sh d fs = (fs1, True)"
    "write_files sh (d @ [slash] @ u) str (seq_1 sh (show_dec n)) fs1 = (fs2, 0)"
    "is_dir fs2 d" "listing fs2 d = test_files d u n" "\<forall>f \<in> set (test_files d u n). map_of fs2 f = Some (Regular str)"
    "\<forall>q \<in> {''.'', ''0'', RESULT_FILE}. map_of fs2 q = map_of fs q" "is_dir fs2 ''/tmp''"
proof -
  have w: "\<forall>p. may_write sh p" and tmp: "is_dir fs ''/tmp''" and d: "plain d" "snd (mkdir_p d (rm_rf d fs))"
    and u: "plain u" "slash \<notin> set u" "hd u \<noteq> CHR ''.''" "u \<noteq> []"
    using ready by (simp_all add: finder_ready_def plain_def)
  obtain a where a: "cat fs (CONF_DIR @ ''/assignment.txt'') = Some a" "plain (substitution a)" "substitution a \<noteq> ''assignment1''"
    using ready by (auto simp: finder_ready_def)
  note ap = apart [OF test_params_dir [OF args]]
  obtain fs1 where fs1: "make_writedir sh d fs = (fs1, True)" "is_dir fs1 d" "\<forall>q \<in> fst ` set fs1. \<not> prefix (d @ [slash]) q"
    "\<And>q. \<not> prefix d q \<Longrightarrow> \<not> prefix q d \<Longrightarrow> map_of fs1 q = map_of fs q"
    "\<And>q n. \<not> prefix d q \<Longrightarrow> map_of fs q = Some n \<Longrightarrow> map_of fs1 q = Some n"
    using make_writedir_ok [OF a _ d(2)] ap by blast
  define fs2 where "fs2 = fs1 @ map (\<lambda>i. (test_file d u i, Regular str)) [1..<Suc n]"
  note fs2 = test_files_written [OF fs1(3) u(2,4,3) fs2_def]
  have "distinct (map show_dec [1..<Suc n])"
    by (auto simp: distinct_map inj_on_def simp del: upt_Suc dest: arg_cong [where f = dec_value] simp: dec_value_show_dec)
  moreover have none: "map_of fs1 (d @ slash # name) = None" for name
    using bspec [OF fs1(3), of "d @ slash # name"] by (auto simp: map_of_eq_None_iff)
  then have "\<forall>i \<in> set (map show_dec [1..<Suc n]). slash \<notin> set (u @ i @ ''.txt'') \<and> map_of fs1 (d @ slash # u @ i @ ''.txt'') = None"
    using u(2) none show_dec_digits [of slash] by (auto simp: is_digit_def)
  ultimately have wr: "write_files sh (d @ [slash] @ u) str (seq_1 sh (show_dec n)) fs1 = (fs2, 0)"
    using write_files_new [OF w _ fs1(2) str(2), of "map show_dec [1..<Suc n]" u] d(1)
    by (simp add: seq_1_def dec_value_show_dec fs2_def test_file_def comp_def plain_def del: upt_Suc)
  have "map_of fs2 q = map_of fs q" if "q \<in> {''.'', ''0'', RESULT_FILE}" for q
    using that fs2(3) [of q] fs1(4) [of q] ap [of q] by auto
  moreover have "is_dir fs2 ''/tmp''"
    using tmp(1) fs2(3) [of "''/tmp''"] fs1(5) [of "''/tmp''" Directory] apart_tmp [OF test_params_dir [OF args]]
    by (simp add: is_dir_def)
  moreover have "is_dir fs2 d" using fs1(2) by (simp add: is_dir_def fs2_def)
  ultimately show ?thesis using fs1(1) wr fs2(1,2) by (intro that) auto
qed

text \<open>The script after the call, on files in which nothing stands in the way of the result file.\<close>

lemma finder_test_verdict:
  assumes ready: "finder_ready sh fs d u" and args: "test_params args = (num, str, d)"
    and wr: "make_writedir sh d fs = (fs1, True)" "write_files sh (d @ [slash] @ u) str (seq_1 sh num) fs1 = (fs2, 0)"
    and f: "finder [d, str] fs2 = (fs3, output, status)"
    and fs3: "map_of fs3 RESULT_FILE = map_of fs RESULT_FILE" "is_dir fs3 ''/tmp''"
  shows "\<exists>fs'. finder_test_with finder sh args fs = (fs', status, status = 0) \<and>
    (status = 0 \<longrightarrow> cat fs' RESULT_FILE = Some (echo sh [substitution output]))"
proof -
  have w: "\<forall>p. may_write sh p" and tmp: "\<not> is_dir fs RESULT_FILE"
    using ready by (simp_all add: finder_ready_def)
  obtain c where c: "cat fs (CONF_DIR @ ''/username.txt'') = Some c" "substitution c = u"
    using ready by (auto simp: finder_ready_def)
  have "RESULT_FILE \<noteq> ''0''" "dirname RESULT_FILE = ''/tmp''" by (simp_all add: RESULT_FILE_def dirname_def)
  then have "open_trunc (may_write sh) fs3 RESULT_FILE = Some (AList.update RESULT_FILE (Regular []) fs3)"
    using w tmp fs3 by (intro open_trunc_ok) (simp_all add: is_dir_def)
  then show ?thesis
    using c args wr f
    by (simp add: finder_test_with_def cat_def map_of_rm_rf AList.update_conv' RESULT_FILE_def)
qed

text \<open>The script from the first line to the last, when \<^verbatim>\<open>grep\<close> prints \<open>j\<close> for every file written.\<close>

lemma finder_test_run:
  assumes ready: "finder_ready sh fs d u" and args: "test_params args = (show_dec n, str, d)"
    and n: "0 < n" "n < 2 ^ 63" "n * j < 2 ^ 63" and str: "plain str" "length str < 2 ^ 63"
    and g: "\<And>fs' f. plain f \<Longrightarrow> map_of fs' f = Some (Regular str) \<Longrightarrow> grep_c sh fs' [str, f] = show_dec j @ [newline]"
  shows "\<exists>fs'. finder_test sh args fs = (fs', 0, True) \<and>
    cat fs' RESULT_FILE = Some (finder_output (test_files d u n) n (n * j) @ [newline])"
proof -
  let ?files = "test_files d u n"
  have w: "\<forall>p. may_write sh p" and cwd: "is_dir fs ''.''" "\<not> is_dir fs ''0''" and d: "plain d" and u: "plain u"
    using ready by (simp_all add: finder_ready_def)
  obtain fs1 fs2 where wr: "make_writedir sh d fs = (fs1, True)"
    "write_files sh (d @ [slash] @ u) str (seq_1 sh (show_dec n)) fs1 = (fs2, 0)"
    and fs2: "is_dir fs2 d" "listing fs2 d = ?files" "\<forall>f \<in> set ?files. map_of fs2 f = Some (Regular str)"
    and at: "\<forall>q \<in> {''.'', ''0'', RESULT_FILE}. map_of fs2 q = map_of fs q" and tmp: "is_dir fs2 ''/tmp''"
    by (rule test_files_run [OF ready args str])
  have pl: "\<forall>f \<in> set ?files. plain f" using plain_test_file [OF d u] by (auto simp: test_files_def)
  with g fs2(3) have "greps sh fs2 str (\<lambda>_. j) ?files" by (simp add: greps_def)
  moreover have ne: "?files \<noteq> []" using n(1) length_test_files [of d u n] by (metis list.size(3) less_irrefl)
  ultimately obtain fs3 where fs3: "finder_sh sh [d, str] fs2 = (fs3, finder_output ?files n (n * j) @ [newline], 0)"
    "map_of fs3 = (map_of fs2)(''0'' \<mapsto> Regular [])"
    using finder_sh_output [of sh str d fs2 "\<lambda>_. j"] w str(1) d n fs2(1,2) at cwd pl
    by (auto simp: is_dir_def sum_list_triv)
  have "map_of fs3 RESULT_FILE = map_of fs RESULT_FILE" "is_dir fs3 ''/tmp''"
    using fs3(2) at tmp by (simp_all add: RESULT_FILE_def is_dir_def)
  from finder_test_verdict [where finder = "finder_sh sh", OF ready args wr fs3(1) this] show ?thesis
    using finder_output_echo [OF ne pl] by (simp add: finder_test_def)
qed

text \<open>
  C26: \<^verbatim>\<open>writer\<close> and \<^verbatim>\<open>finder.sh\<close> work together. Run with any number of files and any text of one word without
  special characters, in directories it may write, the test script writes the files, finds exactly these, and its result file ends
  with the line that it announces: as many files and as many matching lines as it was asked for.
\<close>

theorem finder_test_finds_its_files:
  assumes "grep_documented sh" and "finder_ready sh fs d u" and "test_params args = (show_dec n, str, d)"
    and "0 < n" and "n < 2 ^ 63" and "literal str" and "length str < 2 ^ 63"
  shows "\<exists>fs'. finder_test sh args fs = (fs', 0, True) \<and>
    cat fs' RESULT_FILE = Some (concat (map (\<lambda>f. f @ [newline]) (test_files d u n)) @
      ''The number of files are '' @ show_dec n @ '' and the number of matching lines are '' @ show_dec n @ ''.'' @ [newline])"
  using finder_test_run [OF assms(2-5) _ _ assms(7), of 1] assms(1,5,6) count_lines_self [OF assms(6)]
  by (auto simp: grep_documented_def literal_def finder_output_def summary_def)


section \<open>\<^verbatim>\<open>writer.sh\<close> and \<^verbatim>\<open>writer\<close>\<close>

lemma plain_dirname:
  assumes "plain p" shows "plain (dirname p)"
proof -
  have up: "set (tl (dropWhile (\<lambda>c. c \<noteq> slash) (rev p))) \<subseteq> set p"
    by (metis list.set_sel(2) set_dropWhileD set_rev subsetI tl_Nil)
  have "prefix (rev (tl (dropWhile (\<lambda>c. c \<noteq> slash) (rev p)))) p"
    by (metis rev_rev_ident suffix_dropWhile suffix_tl suffix_order.trans suffix_to_prefix)
  then have "rev (tl (dropWhile (\<lambda>c. c \<noteq> slash) (rev p))) \<noteq> [] \<Longrightarrow>
      hd (rev (tl (dropWhile (\<lambda>c. c \<noteq> slash) (rev p)))) = hd p"
    by (metis hd_append2 prefixE)
  with assms up show ?thesis by (auto simp: dirname_def plain_def plain_char_def blank_def Let_def)
qed

text \<open>
  The program replaced the script, and differs in two ways: the script makes the directory of the
  file, without which the program fails, and it ends the text with a newline.
\<close>

lemma writer_sh_and_writer:
  assumes "may_write sh file" and "plain file" and "plain str" and "length str < 2 ^ 63"
    and "mkdir_p (dirname file) fs = (fs1, True)" and "\<not> is_dir fs1 file"
  shows "\<exists>fs'. writer_sh sh [file, str] fs = (fs', [], 0) \<and>
      map_of fs' = (map_of fs1)(file \<mapsto> Regular (str @ [newline]))"
    and "is_dir fs (dirname file) \<Longrightarrow>
      \<exists>fs'. run_writer sh file str fs = (fs', 0) \<and> map_of fs' = (map_of fs)(file \<mapsto> Regular str)"
    and "map_of fs (dirname file) = None \<Longrightarrow> map_of fs file = None \<Longrightarrow> run_writer sh file str fs = (fs, 1)"
proof -
  have "open_trunc (may_write sh) fs1 file = Some (AList.update file (Regular []) fs1)"
    using assms(1,6) mkdir_p_dir [OF assms(5)] by (intro open_trunc_ok)
  then show "\<exists>fs'. writer_sh sh [file, str] fs = (fs', [], 0) \<and>
      map_of fs' = (map_of fs1)(file \<mapsto> Regular (str @ [newline]))"
    using assms(2,3,5) plain_dirname [OF assms(2)] by (simp add: writer_sh_def Let_def AList.update_conv')
  have "\<not> is_dir fs file"
    using assms(5,6) mkdirs_keeps [of fs "file" "Directory"]
    by (metis fst_conv is_dir_def mkdir_p_def)
  then show "is_dir fs (dirname file) \<Longrightarrow>
      \<exists>fs'. run_writer sh file str fs = (fs', 0) \<and> map_of fs' = (map_of fs)(file \<mapsto> Regular str)"
    using run_writer_exists assms(1,4) by blast
  show "map_of fs (dirname file) = None \<Longrightarrow> map_of fs file = None \<Longrightarrow> run_writer sh file str fs = (fs, 1)"
    by (simp add: run_writer_def writer_main_def open_trunc_def is_dir_def)
qed

section \<open>Examples\<close>

definition example_shell :: shell where
  "example_shell = \<lparr>other_words = \<lambda>_ w. [w], other_test = \<lambda>_ _. False, other_echo = \<lambda>_. [],
     other_sum = \<lambda>_ _. None, other_seq = \<lambda>_. [],
     grep_c = \<lambda>fs ws. (case ws of [p, f] \<Rightarrow> (case cat fs f of Some c \<Rightarrow> show_dec (count_lines p c) @ [newline] | None \<Rightarrow> []) | _ \<Rightarrow> []),
     may_write = \<lambda>_. True, sum_status = 2, redirect_status = 2\<rparr>"

definition example_files :: files where
  "example_files = [(''.'', Directory), (''/tmp'', Directory),
     (''/etc/finder-app/conf/username.txt'', Regular (''joe'' @ [newline])),
     (''/etc/finder-app/conf/assignment.txt'', Regular (''assignment4'' @ [newline])),
     (''/d'', Directory), (''/d/a'', Regular (''one two'' @ [newline] @ ''two'')), (''/d/b'', Regular ''three'')]"

lemma example_shell_grep: "grep_documented example_shell"
  by (simp add: grep_documented_def example_shell_def cat_def)

lemma example_listing: "listing example_files ''/d'' = [''/d/a'', ''/d/b'']"
  by code_simp

lemma example_lines: "map (lines_in example_files ''two'') [''/d/a'', ''/d/b''] = [2, 0]"
  by code_simp

lemma finder_counts_every_file_witness:
  "\<exists>fs'. finder_sh example_shell [''/d'', ''two''] example_files = (fs', ''/d/a'' @ [newline] @ ''/d/b'' @ [newline] @
     ''The number of files are 2 and the number of matching lines are 2.'' @ [newline], 0)"
proof -
  have "show_dec 2 = ''2''" "show_dec (Suc (Suc 0)) = ''2''" by code_simp+
  moreover have "literal ''two''" "plain ''/d''" "plain ''/d/a''" "plain ''/d/b''" by code_simp+
  moreover have "is_dir example_files ''/d''" "is_dir example_files ''.''" "\<not> is_dir example_files ''0''"
    "cat example_files ''/d/a'' \<noteq> None" "cat example_files ''/d/b'' \<noteq> None" by code_simp+
  moreover have "may_write example_shell ''0''" by (simp add: example_shell_def)
  ultimately show ?thesis
    using finder_counts_every_file [OF example_shell_grep, of "''two''" "''/d''" example_files] example_lines
    by (auto simp: example_listing)
qed

lemma example_ready:
  "finder_ready sh example_files ''/tmp/aeld-data'' ''joe''" if "\<forall>p. may_write sh p"
proof -
  have "is_dir example_files ''.'' \<and> \<not> is_dir example_files ''0'' \<and> is_dir example_files ''/tmp'' \<and>
     \<not> is_dir example_files RESULT_FILE \<and> plain ''/tmp/aeld-data'' \<and>
     snd (mkdir_p ''/tmp/aeld-data'' (rm_rf ''/tmp/aeld-data'' example_files)) \<and>
     map_option substitution (cat example_files (CONF_DIR @ ''/username.txt'')) = Some ''joe'' \<and>
     plain ''joe'' \<and> slash \<notin> set ''joe'' \<and> hd ''joe'' \<noteq> CHR ''.''" by code_simp
  moreover have "cat example_files (CONF_DIR @ ''/assignment.txt'') = Some (''assignment4'' @ [newline])"
    "plain (substitution (''assignment4'' @ [newline]))" "substitution (''assignment4'' @ [newline]) \<noteq> ''assignment1''"
    by code_simp+
  ultimately show ?thesis using that unfolding finder_ready_def by blast
qed

lemma example_params: "test_params [] = (show_dec 10, ''AELD_IS_FUN'', ''/tmp/aeld-data'')"
  by code_simp

lemma finder_test_finds_its_files_witness:
  "\<exists>fs' files. finder_test example_shell [] example_files = (fs', 0, True) \<and>
     cat fs' RESULT_FILE = Some (files @ ''The number of files are 10 and the number of matching lines are 10.'' @ [newline])"
proof -
  have "show_dec 10 = ''10''" by code_simp
  moreover have "literal ''AELD_IS_FUN''" by code_simp
  moreover have "\<forall>p. may_write example_shell p" by (simp add: example_shell_def)
  ultimately show ?thesis
    using finder_test_finds_its_files [OF example_shell_grep example_ready example_params] by auto
qed


end
