(* ===== verification/Module_Scripts.thy ===== *)
theory Module_Scripts
  imports Shell Driver_Faults
begin

text \<open>
  \<^verbatim>\<open>aesdchar_load\<close> and \<^verbatim>\<open>aesdchar_unload\<close> with the module that they load: the scripts find the major
  number of the module in \<^verbatim>\<open>/proc/devices\<close> and make the device file with it.
\<close>

section \<open>The machine\<close>

text \<open>
  The loaded module with its kernel heap, or the heap while no module is loaded; the device numbers
  registered for others, and for earlier instances of the module that were not given back; the device
  file with its numbers; how many open files of the driver there are, which keep it loaded
  (\<^verbatim>\<open>.owner = THIS_MODULE\<close>).
\<close>

record machine =
  module_loaded :: "driver option"
  idle_heap :: kheap
  other_devices :: "(u32 \<times> byte list) list"
  dev_node :: "(u32 \<times> u32) option"
  users :: nat

text \<open>What the kernel and the installation answer.\<close>

record answers =
  alloc_result :: s32
  alloc_dev :: u32
  cdev_add_result :: s32
  local_ko :: bool
  modprobe_finds :: bool
  group_exists :: bool

text \<open>The name under which \<^verbatim>\<open>aesd_init_module\<close> registers its numbers.\<close>

definition chrdev_name :: "byte list" where "chrdev_name = ''aesdchar''"

definition registered :: "driver \<Rightarrow> (u32 \<times> byte list) list" where
  "registered s = map (\<lambda>dev. (MAJOR dev, chrdev_name)) (regions s)"

definition proc_devices :: "machine \<Rightarrow> (u32 \<times> byte list) list" where
  "proc_devices m = other_devices m @ (case module_loaded m of None \<Rightarrow> [] | Some s \<Rightarrow> registered s)"

definition insmod :: "answers \<Rightarrow> machine \<Rightarrow> fault + (machine \<times> bool)" where
  "insmod k m =
     (case module_loaded m of
        Some _ \<Rightarrow> Inr (m, False)
      | None \<Rightarrow>
          bnd (aesd_init_module (module_boot (idle_heap m)) (alloc_result k) (alloc_dev k) (cdev_add_result k))
            (\<lambda>(s, ret). Inr (if ret = 0 then (m\<lparr>module_loaded := Some s\<rparr>, True)
               else (m\<lparr>idle_heap := heap s, other_devices := other_devices m @ registered s\<rparr>, False))))"

text \<open>\<^verbatim>\<open>modprobe\<close> is content with a module that is loaded.\<close>

definition modprobe :: "answers \<Rightarrow> machine \<Rightarrow> fault + (machine \<times> bool)" where
  "modprobe k m =
     (if module_loaded m \<noteq> None then Inr (m, True)
      else if modprobe_finds k then insmod k m else Inr (m, False))"

text \<open>\<^verbatim>\<open>rmmod\<close> fails if the module is not loaded or in use.\<close>

definition rmmod :: "machine \<Rightarrow> fault + (machine \<times> bool)" where
  "rmmod m =
     (case module_loaded m of
        None \<Rightarrow> Inr (m, False)
      | Some s \<Rightarrow>
          if users m \<noteq> 0 then Inr (m, False)
          else
            bnd (aesd_cleanup_module s) (\<lambda>s.
              Inr (m\<lparr>module_loaded := None, idle_heap := heap s, other_devices := other_devices m @ registered s\<rparr>, True)))"

section \<open>The scripts\<close>

text \<open>
  \<^verbatim>\<open>mknod /dev/aesdchar c $major 0\<close>: \<^verbatim>\<open>$major\<close> is as many words as \<^verbatim>\<open>awk\<close> printed lines; with
  any number but one \<^verbatim>\<open>mknod\<close> fails, and the script with it (\<^verbatim>\<open>set -e\<close>).
\<close>

definition aesdchar_load :: "answers \<Rightarrow> machine \<Rightarrow> fault + (machine \<times> nat)" where
  "aesdchar_load k m =
     bnd (if local_ko k then insmod k m else modprobe k m) (\<lambda>(m, ok).
       if \<not> ok then Inr (m, 1)
       else
         (let major = map fst (filter (\<lambda>(_, name). name = chrdev_name) (proc_devices m));
              m = m\<lparr>dev_node := None\<rparr>
          in case major of
               [ma] \<Rightarrow> Inr (m\<lparr>dev_node := Some (ma, 0)\<rparr>, if group_exists k then 0 else 1)
             | _ \<Rightarrow> Inr (m, 1)))"

definition aesdchar_unload :: "machine \<Rightarrow> fault + (machine \<times> nat)" where
  "aesdchar_unload m =
     bnd (rmmod m) (\<lambda>(m, ok). if \<not> ok then Inr (m, 1) else Inr (m\<lparr>dev_node := None\<rparr>, 0))"

text \<open>Opening the device file: the kernel looks the numbers up among the character devices.\<close>

definition open_node :: "machine \<Rightarrow> kfile \<Rightarrow> kfile option" where
  "open_node m filp =
     (case (dev_node m, module_loaded m) of
        (Some (ma, mi), Some s) \<Rightarrow> if MKDEV ma mi \<in> set (cdevs s) then Some (aesd_open filp) else None
      | _ \<Rightarrow> None)"

section \<open>Loading and unloading\<close>

lemma load_ok:
  assumes h: "heap_is (idle_heap m) b 0" and k: "0 \<le> sint (alloc_result k)" "cdev_add_result k = 0"
    and dev: "alloc_dev k = MKDEV (MAJOR (alloc_dev k)) 0"
    and m: "module_loaded m = None" "chrdev_name \<notin> snd ` set (other_devices m)"
    and i: "local_ko k \<or> modprobe_finds k" "group_exists k"
  obtains s where "aesdchar_load k m = Inr (m\<lparr>module_loaded := Some s, dev_node := Some (MAJOR (alloc_dev k), 0)\<rparr>, 0)"
    "drv_repr s empty_log" "regions s = [alloc_dev k]" "cdevs s = [alloc_dev k]" "aesd_major s = MAJOR (alloc_dev k)"
    "aesd_init_module (module_boot (idle_heap m)) (alloc_result k) (alloc_dev k) 0 = Inr (s, 0)"
proof -
  obtain s where s: "aesd_init_module (module_boot (idle_heap m)) (alloc_result k) (alloc_dev k) 0 = Inr (s, 0)"
    "drv_repr s empty_log" "regions s = [alloc_dev k]" "cdevs s = [MKDEV (MAJOR (alloc_dev k)) 0]"
    using aesd_init_module_ok [OF h k(1), of "alloc_dev k"] by auto
  have maj: "aesd_major s = MAJOR (alloc_dev k)"
    using s(1) k(1) by (auto simp: aesd_init_module_def aesd_setup_cdev_def put_buffer_def Let_def bnd_eq_Inr_iff
        split: prod.splits if_splits)
  have "filter (\<lambda>(_, name). name = chrdev_name) (other_devices m) = []"
    using m(2) by (force simp: filter_empty_conv)
  then have "aesdchar_load k m = Inr (m\<lparr>module_loaded := Some s, dev_node := Some (MAJOR (alloc_dev k), 0)\<rparr>, 0)"
    using s(1,3) k(2) m(1) i by (auto simp: aesdchar_load_def insmod_def modprobe_def proc_devices_def registered_def)
  with s dev maj show ?thesis by (intro that) simp_all
qed

text \<open>
  The scripts make the driver reachable and take it away. On a machine without the module,
  \<^verbatim>\<open>aesdchar_load\<close> exits with 0 and leaves a device file that opens the driver, whose log is empty;
  \<^verbatim>\<open>aesdchar_unload\<close> after it exits with 0, and no device file, no registered number and no block of the
  kernel's memory is left.
\<close>

theorem load_then_unload:
  assumes "heap_is (idle_heap m) b 0" and "0 \<le> sint (alloc_result k)" and "cdev_add_result k = 0"
    and "alloc_dev k = MKDEV (MAJOR (alloc_dev k)) 0"
    and "module_loaded m = None" and "chrdev_name \<notin> snd ` set (other_devices m)"
    and "local_ko k \<or> modprobe_finds k" and "group_exists k" and "users m = 0"
  shows "\<exists>m1 s m2. aesdchar_load k m = Inr (m1, 0) \<and> module_loaded m1 = Some s \<and> drv_repr s empty_log \<and>
    (\<exists>filp'. open_node m1 filp = Some filp' \<and> opened filp') \<and>
    aesdchar_unload m1 = Inr (m2, 0) \<and> module_loaded m2 = None \<and> dev_node m2 = None \<and> open_node m2 filp = None \<and>
    proc_devices m2 = other_devices m \<and> nlive (idle_heap m2) = 0"
proof -
  let ?dev = "alloc_dev k"
  obtain s where s: "aesdchar_load k m = Inr (m\<lparr>module_loaded := Some s, dev_node := Some (MAJOR ?dev, 0)\<rparr>, 0)"
    "drv_repr s empty_log" "regions s = [?dev]" "cdevs s = [?dev]" "aesd_major s = MAJOR ?dev"
    using load_ok [OF assms(1-8)] .
  let ?m1 = "m\<lparr>module_loaded := Some s, dev_node := Some (MAJOR ?dev, 0)\<rparr>"
  obtain m' d bs where d: "heap_is (heap s) m' (census 1 empty_log)" "buffer (aesd_device s) = Blk d" "m' d = Some bs"
    using s(2) by (rule drv_reprE)
  obtain h' where h': "kfree (heap s) (Blk d) = Inr h'" "heap_is h' (m'(d := None)) (census 1 empty_log - 1)"
    using kh.dealloc [OF d(1,3)] by auto
  have "aesd_cleanup_module s = Inr (s\<lparr>cdevs := [], heap := h', regions := []\<rparr>)"
    using s(3-5) d(2) h'(1) assms(4) by (simp add: aesd_cleanup_module_def)
  then have "aesdchar_unload ?m1 = Inr (m\<lparr>module_loaded := None, idle_heap := h', dev_node := None\<rparr>, 0)"
    using assms(9) by (simp add: aesdchar_unload_def rmmod_def registered_def)
  moreover have "nlive h' = 0" using h'(2) by (simp add: heap_is_def census_def empty_log_def)
  moreover have "open_node ?m1 filp = Some (aesd_open filp)" "opened (aesd_open filp)"
    using s(4) assms(4) by (simp_all add: open_node_def opened_def aesd_open_def)
  ultimately show ?thesis
    using s(1,2) by (auto simp: open_node_def proc_devices_def)
qed

section \<open>A number that is not given back\<close>

text \<open>Runs of the scripts one after the other, with what each is answered and its exit status.\<close>

datatype script = Load answers | Unload

fun run_script :: "script \<Rightarrow> machine \<Rightarrow> fault + (machine \<times> nat)" where
  "run_script (Load k) m = aesdchar_load k m"
| "run_script Unload m = aesdchar_unload m"

fun run_scripts :: "script list \<Rightarrow> machine \<Rightarrow> fault + (machine \<times> nat list)" where
  "run_scripts [] m = Inr (m, [])"
| "run_scripts (x # xs) m =
     bnd (run_script x m) (\<lambda>(m, status). bnd (run_scripts xs m) (\<lambda>(m, sts). Inr (m, status # sts)))"

text \<open>
  A number of the name that no module owns. A module that is loaded beside it has a number of its own, and
  the ring that unloading frees.
\<close>

definition ring_live :: "driver \<Rightarrow> bool" where
  "ring_live s \<longleftrightarrow> (\<exists>d. buffer (aesd_device s) = Blk d \<and> d < length (blocks (heap s)) \<and> is_live (blocks (heap s) ! d))"

definition stale :: "machine \<Rightarrow> bool" where
  "stale m \<longleftrightarrow> chrdev_name \<in> snd ` set (other_devices m) \<and> dev_node m = None \<and>
     (\<forall>s. module_loaded m = Some s \<longrightarrow> regions s \<noteq> [] \<and> ring_live s)"

lemma init_given_memory:
  assumes "0 \<le> sint result" and "hcount h \<notin> hfail h"
  shows "\<exists>s. aesd_init_module (module_boot h) result dev err = Inr (s, err) \<and>
    (err = 0 \<longrightarrow> regions s = [dev] \<and> ring_live s)"
  using assms by (simp add: aesd_init_module_def Let_def module_boot_def kmalloc_def memset_def store_def
      sizeof_aesd_circular_buffer_def KMALLOC_MAX_SIZE_def aesd_circular_buffer_init_def aesd_init_entry_def
      zero_entry_def put_buffer_def aesd_setup_cdev_def ring_live_def)

lemma init_total:
  "\<exists>s r. aesd_init_module (module_boot h) result dev err = Inr (s, r) \<and>
     (r = 0 \<longrightarrow> regions s \<noteq> [] \<and> ring_live s)"
proof (cases "sint result < 0")
  case True
  then have "result \<noteq> 0" by auto
  with True show ?thesis by (simp add: aesd_init_module_def Let_def)
next
  case False
  then show ?thesis
    using init_given_memory [of result h dev err] init_no_memory [of result h dev err]
    by (cases "hcount h \<in> hfail h") fastforce+
qed

lemma two_majors:
  assumes "stale m" and "module_loaded m = Some s"
  shows "\<nexists>ma. map fst (filter (\<lambda>(_, name). name = chrdev_name) (proc_devices m)) = [ma]"
proof -
  let ?f = "filter (\<lambda>(_, name). name = chrdev_name)"
  have "?f (other_devices m) \<noteq> []" using assms(1) by (force simp: stale_def filter_empty_conv)
  moreover have "?f (registered s) \<noteq> []"
    using assms by (cases "regions s") (auto simp: stale_def registered_def)
  ultimately show ?thesis
    using assms(2) by (cases "?f (other_devices m)"; cases "?f (registered s)") (auto simp: proc_devices_def)
qed

lemma insmod_stale:
  assumes "stale m"
  shows "\<exists>m' ok. insmod k m = Inr (m', ok) \<and> stale m' \<and> (ok \<longrightarrow> (\<exists>s. module_loaded m' = Some s))"
proof (cases "module_loaded m")
  case None
  with assms init_total [of "idle_heap m" "alloc_result k" "alloc_dev k" "cdev_add_result k"] show ?thesis
    by (fastforce simp: insmod_def stale_def ex_bool_eq intro: rev_image_eqI)
next
  case (Some s)
  with assms show ?thesis by (simp add: insmod_def ex_bool_eq)
qed

lemma modprobe_stale:
  assumes "stale m"
  shows "\<exists>m' ok. modprobe k m = Inr (m', ok) \<and> stale m' \<and> (ok \<longrightarrow> (\<exists>s. module_loaded m' = Some s))"
  using assms insmod_stale [OF assms, of k] by (auto simp: modprobe_def ex_bool_eq)

lemma load_stale:
  assumes "stale m" shows "\<exists>m'. aesdchar_load k m = Inr (m', 1) \<and> stale m'"
proof -
  obtain m1 ok where r: "(if local_ko k then insmod k m else modprobe k m) = Inr (m1, ok)" "stale m1"
    "ok \<longrightarrow> (\<exists>s. module_loaded m1 = Some s)"
    using insmod_stale [OF assms, of k] modprobe_stale [OF assms, of k] by (cases "local_ko k") auto
  moreover have "m1\<lparr>dev_node := None\<rparr> = m1" using r(2) by (simp add: stale_def)
  ultimately show ?thesis
    using two_majors [OF r(2)] by (auto simp: aesdchar_load_def Let_def split: list.splits)
qed

lemma unload_stale:
  assumes "stale m" shows "\<exists>m' status. aesdchar_unload m = Inr (m', status) \<and> stale m'"
proof (cases "module_loaded m")
  case None
  with assms show ?thesis by (simp add: aesdchar_unload_def rmmod_def)
next
  case (Some s)
  then obtain d where d: "buffer (aesd_device s) = Blk d" "d < length (blocks (heap s))" "is_live (blocks (heap s) ! d)"
    using assms unfolding stale_def ring_live_def by blast
  then obtain bs where "blocks (heap s) ! d = Live bs" by (cases "blocks (heap s) ! d") auto
  with d(1,2) Some assms show ?thesis
    by (simp add: aesdchar_unload_def rmmod_def aesd_cleanup_module_def kfree_def stale_def Let_def image_Un)
qed

lemma scripts_stale:
  "stale m \<Longrightarrow> \<exists>m' sts. run_scripts xs m = Inr (m', sts) \<and> stale m' \<and>
     list_all2 (\<lambda>x status. \<forall>k. x = Load k \<longrightarrow> status = 1) xs sts"
proof (induction xs arbitrary: m)
  case (Cons x xs)
  obtain m1 status where r: "run_script x m = Inr (m1, status)" "stale m1" "\<forall>k. x = Load k \<longrightarrow> status = 1"
  proof (cases x)
    case (Load k)
    with load_stale [OF Cons.prems, of k] that show ?thesis by fastforce
  next
    case Unload
    with unload_stale [OF Cons.prems] that show ?thesis by fastforce
  qed
  with Cons.IH [OF r(2)] show ?case by fastforce
qed simp

text \<open>
  C27: one failed allocation makes the driver unreachable for good. If the kernel has no memory for the
  ring while the module is loaded, the number stays registered; from then on every sequence of the two
  scripts, whatever the kernel answers, runs to its end, every \<^verbatim>\<open>aesdchar_load\<close> in it fails and no
  device file exists, also while the module itself is loaded.
\<close>

theorem failed_load_is_final:
  assumes "module_loaded m = None" and "dev_node m = None" and "hcount (idle_heap m) \<in> hfail (idle_heap m)"
    and "0 \<le> sint (alloc_result k)" and "local_ko k"
  shows "\<exists>m' sts. run_scripts (Load k # xs) m = Inr (m', sts) \<and>
    list_all2 (\<lambda>x status. \<forall>k. x = Load k \<longrightarrow> status = 1) (Load k # xs) sts \<and> dev_node m' = None \<and>
    (\<forall>filp. open_node m' filp = None)"
proof -
  obtain s where s: "aesd_init_module (module_boot (idle_heap m)) (alloc_result k) (alloc_dev k) (cdev_add_result k) = Inr (s, - 12)"
    "regions s = [alloc_dev k]"
    using assms(3,4) init_no_memory by blast
  let ?m = "m\<lparr>idle_heap := heap s, other_devices := other_devices m @ registered s\<rparr>"
  have load: "aesdchar_load k m = Inr (?m, 1)"
    using s(1) assms(1,5) by (simp add: aesdchar_load_def insmod_def)
  have "stale ?m" using assms(1,2) s(2) by (simp add: stale_def registered_def)
  from scripts_stale [OF this, of xs] load show ?thesis
    by (auto simp: stale_def open_node_def)
qed

section \<open>Examples\<close>

definition bare_machine :: "kheap \<Rightarrow> machine" where
  "bare_machine h = \<lparr>module_loaded = None, idle_heap = h, other_devices = [(1, ''mem'')], dev_node = None, users = 0\<rparr>"

definition good_answers :: answers where
  "good_answers = \<lparr>alloc_result = 0, alloc_dev = 0x0FC00000, cdev_add_result = 0, local_ko = True,
     modprobe_finds = False, group_exists = True\<rparr>"

lemma load_then_unload_witness:
  "\<exists>m1 m2. aesdchar_load good_answers (bare_machine (empty_heap (\<lambda>_ _. nul))) = Inr (m1, 0) \<and>
     open_node m1 fresh_file \<noteq> None \<and> aesdchar_unload m1 = Inr (m2, 0) \<and>
     proc_devices m2 = [(1, ''mem'')] \<and> nlive (idle_heap m2) = 0"
proof -
  have "alloc_dev good_answers = MKDEV (MAJOR (alloc_dev good_answers)) 0" by code_simp
  moreover have "heap_is (empty_heap (\<lambda>_ _. nul)) (blk (empty_heap (\<lambda>_ _. nul))) 0"
    by (simp add: heap_is_def empty_heap_def nlive_def avail_def)
  ultimately show ?thesis
    using load_then_unload [of "bare_machine (empty_heap (\<lambda>_ _. nul))" _ good_answers fresh_file]
    by (force simp: good_answers_def bare_machine_def chrdev_name_def)
qed

text \<open>Memory is short at the first loading only; the module is then loaded, but not its device file made.\<close>

lemma failed_load_is_final_witness:
  "\<exists>m' s. run_scripts [Load good_answers, Load good_answers] (bare_machine ((empty_heap (\<lambda>_ _. nul))\<lparr>hfail := {0}\<rparr>)) =
     Inr (m', [1, 1]) \<and> module_loaded m' = Some s \<and> open_node m' fresh_file = None"
proof -
  let ?h = "(empty_heap (\<lambda>_ _. nul))\<lparr>hfail := {0}\<rparr>"
  let ?m1 = "(bare_machine (?h\<lparr>hcount := 1\<rparr>))\<lparr>other_devices := [(1, ''mem''), (0xFC, chrdev_name)]\<rparr>"
  have first: "aesdchar_load good_answers (bare_machine ?h) = Inr (?m1, 1)"
    by (simp add: aesdchar_load_def insmod_def good_answers_def bare_machine_def aesd_init_module_def module_boot_def
        kmalloc_def empty_heap_def sizeof_aesd_circular_buffer_def Let_def registered_def MAJOR_def)
  obtain s where s: "aesd_init_module (module_boot (idle_heap ?m1)) 0 0x0FC00000 0 = Inr (s, 0)" "regions s = [0x0FC00000]"
    using init_given_memory [of 0 "idle_heap ?m1" "0x0FC00000" 0] by (auto simp: bare_machine_def empty_heap_def)
  have "aesdchar_load good_answers ?m1 = Inr (?m1\<lparr>module_loaded := Some s\<rparr>, 1)"
    using s by (simp add: aesdchar_load_def insmod_def good_answers_def bare_machine_def proc_devices_def
        registered_def MAJOR_def chrdev_name_def)
  with first have run: "run_scripts [Load good_answers, Load good_answers] (bare_machine ?h) =
    Inr (?m1\<lparr>module_loaded := Some s\<rparr>, [1, 1])" by simp
  from failed_load_is_final [of "bare_machine ?h" good_answers "[Load good_answers]"] run show ?thesis
    by (simp add: bare_machine_def good_answers_def empty_heap_def)
qed

end
