(* ===== verification/Server_Invariants.thy ===== *)
theory Server_Invariants
  imports Server_Clients Ring_Types
begin

text \<open>
  What the system calls keep, the server keeps: an invariant of the world that holds before and after
  every system call holds after every function of the server that returns, whatever the clients send
  and however the calls fail. On the machine with the driver this gives the types of the ring and the
  registration of the module, which unloading relies on.
\<close>

section \<open>Invariants of the world\<close>

definition keeps :: "('w \<Rightarrow> bool) \<Rightarrow> (fault + 'a \<times> 'w) \<Rightarrow> bool" where
  "keeps P r \<longleftrightarrow> (\<forall>x w. r = Inr (x, w) \<longrightarrow> P w)"

locale world_invariant =
  fixes os :: "'w os" and good :: "'w \<Rightarrow> bool"
  assumes open_keeps: "good w \<Longrightarrow> keeps good (sys_open os path w)"
    and close_keeps: "good w \<Longrightarrow> good (sys_close os fd w)"
    and unlink_keeps: "good w \<Longrightarrow> good (sys_unlink os path w)"
    and read_keeps: "good w \<Longrightarrow> keeps good (sys_read os fd n w)"
    and write_keeps: "good w \<Longrightarrow> keeps good (sys_write os fd bs w)"
    and ioctl_keeps: "good w \<Longrightarrow> sys_ioctl os fd cmd arg w = Inr w' \<Longrightarrow> good w'"
    and malloc_keeps: "good w \<Longrightarrow> good (snd (sys_malloc os n w))"
    and create_keeps: "good w \<Longrightarrow> good (snd (sys_pthread_create os w))"
    and accept_keeps: "good w \<Longrightarrow> good (snd (snd (sys_accept os sock w)))"
begin

text \<open>Runs that return with the invariant.\<close>

definition safe :: "('a, 'w) run \<Rightarrow> bool" where
  "safe r \<longleftrightarrow> (\<forall>x s. r = Some (Inr (x, s)) \<longrightarrow> good (world s))"

lemma safe_simps [simp]:
  "safe None" "safe (Some (Inl e))" "safe (Some (Inr (x, s))) \<longleftrightarrow> good (world s)"
  by (simp_all add: safe_def)

lemma safe_then: "safe m \<Longrightarrow> (\<And>x s. good (world s) \<Longrightarrow> safe (f (x, s))) \<Longrightarrow> safe (then_run m f)"
  by (auto simp: safe_def then_run_def split: option.splits sum.splits)

lemma safe_call: "keeps good r \<Longrightarrow> safe (call r s)"
  by (auto simp: safe_def call_def keeps_def split: sum.splits)

lemma open_file_safe: "good (world s) \<Longrightarrow> safe (open_file os path s)"
  unfolding open_file_def by (intro safe_then safe_call open_keeps) simp_all

lemma close_fd_good: "good (world s) \<Longrightarrow> good (world (close_fd os fd s))"
  by (simp add: close_fd_def close_keeps)

lemma malloc_good: "good (world s) \<Longrightarrow> malloc os n s = (ok, s') \<Longrightarrow> good (world s')"
  using malloc_keeps [of "world s" n] by (auto simp: malloc_def split: prod.splits)

lemma read_good: "good w \<Longrightarrow> sys_read os fd n w = Inr (r, w') \<Longrightarrow> good w'"
  using read_keeps [of w fd n] by (simp add: keeps_def)

lemma write_good: "good w \<Longrightarrow> sys_write os fd bs w = Inr (r, w') \<Longrightarrow> good w'"
  using write_keeps [of w fd bs] by (simp add: keeps_def)

text \<open>The loops, by induction on the calls of the partial functions.\<close>

lemma write_all_loop_safe:
  assumes "good (world s)" shows "safe (write_all_loop os fd p sent s)"
proof -
  have "os' = os \<longrightarrow> good (world s) \<longrightarrow> safe (Some y)" if "write_all_loop os' fd p sent s = Some y" for os' fd p sent s y
  proof (rule write_all_loop.raw_induct [OF _ that])
    fix f os' fd p sent s y
    assume IH: "\<And>os' fd p sent s y. f os' fd p sent s = Some y \<Longrightarrow> os' = os \<longrightarrow> good (world s) \<longrightarrow> safe (Some y)"
      and run: "(if sent < length p then
        (case sys_write os' fd (drop sent p) (world s) of
           Inl e \<Rightarrow> Some (Inl e)
         | Inr (r, w) \<Rightarrow>
             (case r of
                Wrote n \<Rightarrow> if 0 < n then f os' fd p (sent + n) (s\<lparr>world := w\<rparr>)
                           else Some (Inr (- 1, s\<lparr>world := w\<rparr>))
              | Write_EINTR \<Rightarrow> f os' fd p sent (s\<lparr>world := w\<rparr>)
              | Write_Error \<Rightarrow> Some (Inr (- 1, s\<lparr>world := w\<rparr>))))
      else Some (Inr (0, s))) = Some y"
    then show "os' = os \<longrightarrow> good (world s) \<longrightarrow> safe (Some y)"
      using write_good [of "world s" fd "drop sent p"]
      by (auto split: if_splits sum.splits io_write.splits dest!: IH)
  qed
  with assms show ?thesis by (cases "write_all_loop os fd p sent s") auto
qed

lemma write_all_safe: "good (world s) \<Longrightarrow> safe (write_all os fd bs s)"
  unfolding write_all_def by (rule write_all_loop_safe)

lemma receive_loop_safe:
  assumes "good (world s)" shows "safe (receive_loop os new_fd tmp_fd err s)"
proof -
  have "safe (case write_all os tmp_fd bs (s\<lparr>world := w\<rparr>) of None \<Rightarrow> None | Some (Inl e) \<Rightarrow> Some (Inl e)
     | Some (Inr (v, s)) \<Rightarrow> if err = None then Some (Inl NullDeref)
         else (let err = Some v in if err \<noteq> None then Some (Inr ((err, bs), s)) else if newline \<in> set bs then Some (Inr ((err, bs), s))
           else receive_loop os new_fd tmp_fd err s))"
    if "good w" for bs w
    using that write_all_safe [of "s\<lparr>world := w\<rparr>" tmp_fd bs] by (auto split: option.splits sum.splits)
  with assms show ?thesis
    using read_good [of "world s" new_fd BUF_SIZE]
    by (subst receive_loop.simps) (auto split: sum.splits io_read.splits)
qed

lemma send_back_loop_safe:
  assumes "good (world s)" shows "safe (send_back_loop os out_fd new_fd err s)"
proof -
  have "os' = os \<longrightarrow> good (world s) \<longrightarrow> safe (Some y)" if "send_back_loop os' out_fd new_fd err s = Some y" for os' out_fd new_fd err s y
  proof (rule send_back_loop.raw_induct [OF _ that])
    fix f os' out_fd new_fd err s y
    assume IH: "\<And>os' out_fd new_fd err s y. f os' out_fd new_fd err s = Some y \<Longrightarrow> os' = os \<longrightarrow> good (world s) \<longrightarrow> safe (Some y)"
      and run: "(case sys_read os' out_fd BUF_SIZE (world s) of
        Inl e \<Rightarrow> Some (Inl e)
      | Inr (r, w) \<Rightarrow>
          (case r of
             Read_Error \<Rightarrow> Some (Inr (1, s\<lparr>world := w\<rparr>))
           | Got bs \<Rightarrow>
               if bs = [] then Some (Inr (err, s\<lparr>world := w\<rparr>))
               else
                 (case write_all os' new_fd bs (s\<lparr>world := w\<rparr>) of
                    None \<Rightarrow> None
                  | Some (Inl e) \<Rightarrow> Some (Inl e)
                  | Some (Inr (v, s)) \<Rightarrow>
                      if v \<noteq> 0 then Some (Inr (v, s)) else f os' out_fd new_fd v s))) = Some y"
    show "os' = os \<longrightarrow> good (world s) \<longrightarrow> safe (Some y)"
    proof (intro impI)
      assume os: "os' = os" and g: "good (world s)"
      have again: "safe (f os a b c s)" if "good (world s)" for a b c s
        using IH [of os a b c s] that by (cases "f os a b c s") auto
      show "safe (Some y)"
        unfolding run [unfolded os, symmetric] then_run_def [symmetric]
        using read_good [OF g, of out_fd BUF_SIZE]
        by (auto split: sum.split io_read.split intro!: safe_then write_all_safe again)
    qed
  qed
  with assms show ?thesis by (cases "send_back_loop os out_fd new_fd err s") auto
qed

text \<open>The functions, call by call.\<close>

lemma store_or_seek_safe: "good (world s) \<Longrightarrow> safe (store_or_seek os out_fd bs s)"
proof -
  assume g: "good (world s)"
  obtain ok s1 where m: "malloc os (length bs) s = (ok, s1)" by (cases "malloc os (length bs) s")
  have g1: "good (world s1)" using malloc_good [OF g m] .
  have "keeps good (bnd (sys_ioctl os fd cmd arg (world s1)) (\<lambda>w. Inr ((0 :: s32), w)))" for fd cmd arg
    using ioctl_keeps [OF g1] by (auto simp: keeps_def bnd_eq_Inr_iff)
  then have "safe (then_run (case command of
        Some seekto \<Rightarrow> call (bnd (sys_ioctl os out_fd AESDCHAR_IOCSEEKTO seekto (world s1)) (\<lambda>w. Inr (0, w))) s1
      | None \<Rightarrow> write_all os out_fd bs s1)
     (\<lambda>(err, s). Some (Inr (err, s\<lparr>mutex_held := False\<rparr>))))" for command
    by (intro safe_then) (auto simp: g1 safe_call write_all_safe split: option.split)
  with g1 show ?thesis by (auto simp: store_or_seek_def m split: sum.splits)
qed

lemma write_to_out_file_safe: "good (world s) \<Longrightarrow> safe (write_to_out_file os out_fd bs s)"
  unfolding write_to_out_file_def enter_out_file_def Let_def
  by (intro safe_then) (auto simp: open_file_safe store_or_seek_safe)

lemma proc_new_connection_safe:
  assumes "good (world s)" shows "safe (proc_new_connection os new_fd s)"
proof -
  obtain ok s1 where m: "malloc os 4 (free_block s) = (ok, s1)" by (cases "malloc os 4 (free_block s)")
  have "good (world s1)" using malloc_good [OF _ m] assms by (simp add: free_block_def)
  moreover have "good (world (close_fd os fd s\<lparr>world := sys_unlink os path (world (close_fd os fd s))\<rparr>))"
    if "good (world s)" for fd path s
    using that by (simp add: unlink_keeps close_fd_good)
  ultimately show ?thesis
    unfolding proc_new_connection_def Let_def m
    by (auto intro!: safe_then open_file_safe receive_loop_safe write_to_out_file_safe send_back_loop_safe
        simp: close_fd_good)
qed

lemma create_thread_and_run_safe:
  assumes "good (world s)" shows "safe (create_thread_and_run os new_fd s)"
proof -
  obtain ok s1 where m: "malloc os 4 s = (ok, s1)" by (cases "malloc os 4 s")
  have "good (world s1)" using malloc_good [OF assms m] .
  then show ?thesis
    using create_keeps [of "world s1"]
    by (auto simp: create_thread_and_run_def m free_block_def Let_def split: prod.splits option.splits
        intro!: safe_then proc_new_connection_safe)
qed

lemma accept_loop_safe:
  assumes "good (world s)" shows "safe (accept_loop os sock s)"
proof -
  have "os' = os \<longrightarrow> good (world s) \<longrightarrow> safe (Some y)" if "accept_loop os' sock s = Some y" for os' sock s y
  proof (rule accept_loop.raw_induct [OF _ that])
    fix f os' sock s y
    assume IH: "\<And>os' sock s y. f os' sock s = Some y \<Longrightarrow> os' = os \<longrightarrow> good (world s) \<longrightarrow> safe (Some y)"
      and run: "(if quit_sig s then Some (Inr ((), s))
      else
        (case sys_accept os' sock (world s) of
           (new_fd, signal, w) \<Rightarrow>
             (let s = (if signal then sig_handler else id) (s\<lparr>world := w\<rparr>) in
              if new_fd = - 1 then Some (Inr ((), s))
              else
                (case create_thread_and_run os' new_fd (s\<lparr>open_fds := new_fd # open_fds s\<rparr>) of
                   None \<Rightarrow> None
                 | Some (Inl e) \<Rightarrow> Some (Inl e)
                 | Some (Inr (_, s)) \<Rightarrow>
                     (let s = (if sys_signal os' (world s) then sig_handler else id) s in
                      if timer_error_flag s then Some (Inr ((), s)) else f os' sock s))))) = Some y"
    show "os' = os \<longrightarrow> good (world s) \<longrightarrow> safe (Some y)"
    proof (intro impI)
      assume os: "os' = os" and g: "good (world s)"
      have again: "safe (f os a s)" if "good (world s)" for a s
        using IH [of os a s] that by (cases "f os a s") auto
      show "safe (Some y)"
        unfolding run [unfolded os, symmetric] then_run_def [symmetric]
        using g accept_keeps [OF g, of sock]
        by (auto simp: Let_def sig_handler_def split: prod.split intro!: safe_then create_thread_and_run_safe again)
    qed
  qed
  with assms show ?thesis by (cases "accept_loop os sock s") auto
qed

lemma server_main_safe:
  "good (world s) \<Longrightarrow> safe (server_main os sock addrinfo_ok setsockopt_ok bind_ok listen_ok s)"
  unfolding server_main_def Let_def
  by (auto intro!: safe_then accept_loop_safe simp: close_fd_good free_block_def)

end

section \<open>The machine with the driver\<close>

text \<open>What \<^verbatim>\<open>aesd_init_module\<close> registered, which no file operation touches.\<close>

definition registration :: "driver \<Rightarrow> u32 \<times> u32 list \<times> u32 list" where
  "registration s = (aesd_major s, regions s, cdevs s)"

lemma read_registration: "aesd_read s f ua n pos = Inr (s', r) \<Longrightarrow> registration s' = registration s"
  by (cases r; cases "kmalloc (heap s) n")
    (auto simp: aesd_read_def registration_def put_buffer_def bnd_eq_Inr_iff split: if_split_asm)

lemma write_registration: "aesd_write s f ua bs n = Inr (s', r) \<Longrightarrow> registration s' = registration s"
  by (cases "kmalloc (heap s) n")
    (auto simp: aesd_write_def registration_def put_buffer_def bnd_eq_Inr_iff split: if_split_asm)

lemma read_typed: "aesd_read s f ua n (f_pos f) = Inr (s', pos, ret, bs) \<Longrightarrow> ring_typed (ring s) \<Longrightarrow> ring_typed (ring s')"
  using fops_typed [of vfs_keep s f "Call_read ua n"] by fastforce

lemma write_typed: "aesd_write s f ua bs n = Inr (s', ret) \<Longrightarrow> ring_typed (ring s) \<Longrightarrow> ring_typed (ring s')"
  using fops_typed [of vfs_keep s f "Call_write ua bs n"] by fastforce

definition sound_node :: "u32 \<times> u32 list \<times> u32 list \<Rightarrow> node \<Rightarrow> bool" where
  "sound_node reg w \<longleftrightarrow> ring_typed (ring (drv w)) \<and> registration (drv w) = reg"

interpretation sound: world_invariant node_os "sound_node reg"
proof unfold_locales
  show "sound_node reg w \<Longrightarrow> keeps (sound_node reg) (sys_open node_os path w)" for w path
    by (auto simp: node_os_def node_open_def keeps_def sound_node_def)
  show "sound_node reg w \<Longrightarrow> keeps (sound_node reg) (sys_read node_os fd n w)" for w fd n
    by (auto simp: node_os_def node_read_def keeps_def sound_node_def bnd_eq_Inr_iff split: if_splits list.splits
        dest: read_typed read_registration)
  show "sound_node reg w \<Longrightarrow> keeps (sound_node reg) (sys_write node_os fd bs w)" for w fd bs
    by (auto simp: node_os_def node_write_def keeps_def sound_node_def bnd_eq_Inr_iff split: if_splits list.splits nat.splits
        dest: write_typed write_registration)
  show "sound_node reg w \<Longrightarrow> sys_ioctl node_os fd cmd arg w = Inr w' \<Longrightarrow> sound_node reg w'" for w fd cmd arg w'
    by (auto simp: node_os_def node_ioctl_def sound_node_def bnd_eq_Inr_iff)
  show "sound_node reg w \<Longrightarrow> sound_node reg (snd (snd (sys_accept node_os sock w)))" for w sock
    by (auto simp: node_os_def node_accept_def sound_node_def split: list.splits)
qed (simp_all add: node_os_def)

lemma kept_registration:
  assumes "server_main node_os sock addrinfo_ok setsockopt_ok bind_ok listen_ok s = Some (Inr (status, s'))"
    and "ring_typed (ring (drv (world s)))"
  shows "ring_typed (ring (drv (world s'))) \<and> registration (drv (world s')) = registration (drv (world s))"
  using sound.server_main_safe [of "registration (drv (world s))" s sock addrinfo_ok setsockopt_ok bind_ok listen_ok] assms
  by (simp add: sound_node_def)

end
