(* ===== verification/Service.thy ===== *)
theory Service
  imports Module_Scripts Server_Invariants
begin

text \<open>
  The whole service: \<^verbatim>\<open>aesdchar_load\<close> loads the driver, the server runs on it until it is stopped,
  \<^verbatim>\<open>aesdchar_unload\<close> unloads the driver.
\<close>

section \<open>Unloading a driver in use\<close>

lemma cleanup_registered:
  assumes "drv_repr s l" and "regions s = [dev]" and "cdevs s = [dev]" and "aesd_major s = MAJOR dev"
    and "dev = MKDEV (MAJOR dev) 0"
  shows "\<exists>s'. aesd_cleanup_module s = Inr s' \<and> regions s' = [] \<and> cdevs s' = [] \<and> nlive (heap s') = census 0 l"
proof -
  obtain m d bs where d: "heap_is (heap s) m (census 1 l)" "buffer (aesd_device s) = Blk d" "m d = Some bs"
    using assms(1) by (rule drv_reprE)
  obtain h where h: "kfree (heap s) (Blk d) = Inr h" "heap_is h (m(d := None)) (census 1 l - 1)"
    using kh.dealloc [OF d(1,3)] by auto
  have "census 1 l - 1 = census 0 l" by (simp add: census_def)
  with h(2) have "nlive h = census 0 l" by (simp add: heap_is_def)
  with h(1) d(2) assms(2-5) show ?thesis by (auto simp: aesd_cleanup_module_def)
qed

lemma unload_registered:
  assumes "drv_repr s l" and "regions s = [dev]" and "cdevs s = [dev]" and "aesd_major s = MAJOR dev"
    and "dev = MKDEV (MAJOR dev) 0" and "module_loaded m = Some s" and "users m = 0"
  shows "\<exists>h. aesdchar_unload m = Inr (m\<lparr>module_loaded := None, idle_heap := h, dev_node := None\<rparr>, 0) \<and>
    nlive h = census 0 l"
proof -
  obtain s' where "aesd_cleanup_module s = Inr s'" "regions s' = []" "nlive (heap s') = census 0 l"
    using cleanup_registered [OF assms(1-5)] by auto
  with assms(6,7) show ?thesis
    by (intro exI [of _ "heap s'"]) (simp add: aesdchar_unload_def rmmod_def registered_def)
qed

lemma length_concat_ge: "\<forall>xs \<in> set xss. xs \<noteq> [] \<Longrightarrow> length xss \<le> length (concat xss)"
  by (induction xss) (auto simp: Suc_le_eq neq_Nil_conv)

text \<open>Lines that the server takes fit into the driver.\<close>

lemma lines_of_clients:
  assumes "\<forall>bs \<in> set bss. ordinary bs \<and> last bs = newline" and "length (concat bss) < 4294967296"
  shows "fit_all empty_log bss" and "log_adds empty_log bss = log_of bss"
proof -
  have bs: "\<forall>bs \<in> set bss. bs \<noteq> [] \<and> last bs = newline \<and> length bs \<le> KMALLOC_MAX_SIZE"
    using assms(1) by (auto simp: ordinary_def BUF_SIZE_def KMALLOC_MAX_SIZE_def)
  then have "\<forall>bs \<in> set bss. bs \<noteq> []" by simp
  then have "length bss \<le> length (concat bss)" by (rule length_concat_ge)
  with assms(2) have n: "length bss < 4294967296" by simp
  show "fit_all empty_log bss"
    by (rule fit_all_whole_lines) (use bs n in \<open>simp_all add: empty_log_def\<close>)
  show "log_adds empty_log bss = log_of bss"
    using bs by (simp add: log_adds_whole_lines empty_log_def)
qed

section \<open>From loading to unloading\<close>

text \<open>
  C7: the service from beginning to end. On a machine without the module, \<^verbatim>\<open>aesdchar_load\<close> makes the
  device; the server on it takes a line from each of its clients, however many they are: the first ten get
  the lines of this and of the earlier clients, the others nothing. \<^verbatim>\<open>main\<close> ends on the signal with
  status 0. It has closed the device, so the driver is not in use and \<^verbatim>\<open>aesdchar_unload\<close> takes it, the device file
  and its number away. What stays behind is a block
  of kernel memory for every line that the driver kept, the last ten.
\<close>

theorem service_cycle:
  assumes "heap_is (idle_heap m) b 0" and "0 \<le> sint (alloc_result k)" and "cdev_add_result k = 0"
    and "alloc_dev k = MKDEV (MAJOR (alloc_dev k)) 0"
    and "module_loaded m = None" and "chrdev_name \<notin> snd ` set (other_devices m)"
    and "local_ko k \<or> modprobe_finds k" and "group_exists k"
    and "clients_until_signal (world s) bss waiting"
    and "\<forall>bs \<in> set bss. ordinary bs \<and> last bs = newline" and "length (concat bss) < 4294967296"
    and "behind (world s) = nul # z"
    and "\<not> mutex_held s" and "\<not> quit_sig s" and "\<not> timer_error_flag s" and "sock \<noteq> - 1"
    and "DEV_FD \<notin> set (open_fds s)"
  shows "\<exists>m1 d s' m2. aesdchar_load k m = Inr (m1, 0) \<and> module_loaded m1 = Some d \<and>
    (\<exists>filp'. open_node m1 filp = Some filp' \<and> opened filp') \<and>
    server_main node_os sock True True True True (s\<lparr>world := (world s)\<lparr>drv := d\<rparr>\<rparr>) = Some (Inr (0, s')) \<and>
    delivered (world s') @ [outbox (world s')] = delivered (world s) @ [outbox (world s)] @
      map (\<lambda>i. if i < 10 then concat (take (Suc i) bss) else []) [0..<length bss] \<and>
    aesdchar_unload (m1\<lparr>module_loaded := Some (drv (world s')), users := count_list (open_fds s') DEV_FD\<rparr>) = Inr (m2, 0) \<and>
    module_loaded m2 = None \<and> dev_node m2 = None \<and> proc_devices m2 = other_devices m \<and>
    nlive (idle_heap m2) = min (length bss) 10"
proof -
  let ?dev = "alloc_dev k"
  obtain d where d: "aesdchar_load k m = Inr (m\<lparr>module_loaded := Some d, dev_node := Some (MAJOR ?dev, 0)\<rparr>, 0)"
    "drv_repr d empty_log" "regions d = [?dev]" "cdevs d = [?dev]" "aesd_major d = MAJOR ?dev"
    "aesd_init_module (module_boot (idle_heap m)) (alloc_result k) ?dev 0 = Inr (d, 0)"
    using load_ok [OF assms(1-8)] .
  let ?m1 = "m\<lparr>module_loaded := Some d, dev_node := Some (MAJOR ?dev, 0)\<rparr>"
  let ?s = "s\<lparr>world := (world s)\<lparr>drv := d\<rparr>\<rparr>"
  note lines = lines_of_clients [OF assms(10,11)]
  have "clients_until_signal (world ?s) bss waiting" using assms(9) by (simp add: clients_until_signal_def)
  with lines(1) obtain s' where s': "server_main node_os sock True True True True ?s = Some (Inr (0, s'))"
    "delivered (world s') @ [outbox (world s')] = delivered (world s) @ [outbox (world s)] @
      map (\<lambda>i. if i < 10 then concat (take (Suc i) bss) else []) [0..<length bss]"
    "drv_repr (drv (world s')) (log_adds empty_log bss)" "open_fds s' = open_fds s"
    using main_serves [of ?s bss waiting empty_log z sock] d(2) assms(10-16) by (auto simp: empty_log_def)
  have reg: "registration (drv (world s')) = registration d"
    using kept_registration [OF s'(1)] init_typed [OF d(6)] by simp
  let ?m = "?m1\<lparr>module_loaded := Some (drv (world s')), users := count_list (open_fds s') DEV_FD\<rparr>"
  obtain h where h: "aesdchar_unload ?m = Inr (?m\<lparr>module_loaded := None, idle_heap := h, dev_node := None\<rparr>, 0)"
    "nlive h = census 0 (log_adds empty_log bss)"
    using unload_registered [OF s'(3), of ?dev ?m] reg d(3-5) assms(4,17) s'(4) by (auto simp: registration_def)
  have "census 0 (log_adds empty_log bss) = min (length bss) 10"
    using lines(2) by (simp add: census_def)
  moreover have "open_node ?m1 filp = Some (aesd_open filp)" "opened (aesd_open filp)"
    using d(4) assms(4) by (simp_all add: open_node_def opened_def aesd_open_def)
  ultimately show ?thesis
    using d(1) s'(1,2) h by (auto simp: proc_devices_def)
qed

text \<open>Two clients are served, the signal arrives during the second, and a third one waits.\<close>

lemma service_cycle_witness:
  "\<exists>m1 d s' m2. aesdchar_load good_answers (bare_machine (empty_heap (\<lambda>_ _. nul))) = Inr (m1, 0) \<and>
     module_loaded m1 = Some d \<and>
     server_main node_os 3 True True True True
       ((example_server d [])\<lparr>world := (world (example_server d []))\<lparr>sig_left := Some 1,
         clients := [[''f'' @ [newline]], [''gh'' @ [newline]], [''late'']]\<rparr>\<rparr>) = Some (Inr (0, s')) \<and>
     delivered (world s') @ [outbox (world s')] =
       [[], ''f'' @ [newline], ''f'' @ [newline] @ ''gh'' @ [newline]] \<and>
     aesdchar_unload (m1\<lparr>module_loaded := Some (drv (world s')), users := count_list (open_fds s') DEV_FD\<rparr>) = Inr (m2, 0) \<and> nlive (idle_heap m2) = 2"
proof -
  let ?bss = "[''f'' @ [newline], ''gh'' @ [newline]]" and ?m = "bare_machine (empty_heap (\<lambda>_ _. nul))"
  let ?s = "\<lambda>d. (example_server d [])\<lparr>world := (world (example_server d []))\<lparr>sig_left := Some 1,
    clients := map (\<lambda>bs. [bs]) ?bss @ [[''late'']]\<rparr>\<rparr>"
  have "alloc_dev good_answers = MKDEV (MAJOR (alloc_dev good_answers)) 0" by code_simp
  moreover have "heap_is (idle_heap ?m) (blk (empty_heap (\<lambda>_ _. nul))) 0"
    by (simp add: heap_is_def empty_heap_def nlive_def avail_def bare_machine_def)
  moreover have "0 \<le> sint (alloc_result good_answers)" "cdev_add_result good_answers = 0" "group_exists good_answers"
    "local_ko good_answers \<or> modprobe_finds good_answers" "module_loaded ?m = None"
    "chrdev_name \<notin> snd ` set (other_devices ?m)" "other_devices ?m = [(1, ''mem'')]"
    by (simp_all add: good_answers_def bare_machine_def chrdev_name_def)
  moreover have "\<forall>bs \<in> set ?bss. ordinary bs \<and> last bs = newline"
    by (simp add: ordinary_def SPECIAL_STR_PREFIX_def BUF_SIZE_def)
  moreover have "clients_until_signal (world (?s undefined)) ?bss [[''late'']]" by (simp add: clients_until_signal_def)
  ultimately have "\<exists>m1 d s' m2. aesdchar_load good_answers ?m = Inr (m1, 0) \<and> module_loaded m1 = Some d \<and>
    server_main node_os 3 True True True True ((?s undefined)\<lparr>world := (world (?s undefined))\<lparr>drv := d\<rparr>\<rparr>) = Some (Inr (0, s')) \<and>
    delivered (world s') @ [outbox (world s')] = delivered (world (?s undefined)) @ [outbox (world (?s undefined))] @
      map (\<lambda>i. if i < 10 then concat (take (Suc i) ?bss) else []) [0..<length ?bss] \<and>
    aesdchar_unload (m1\<lparr>module_loaded := Some (drv (world s')), users := count_list (open_fds s') DEV_FD\<rparr>) = Inr (m2, 0) \<and> nlive (idle_heap m2) = min (length ?bss) 10"
    using service_cycle [of ?m _ good_answers "?s undefined" ?bss "[[''late'']]" "[]" 3 fresh_file]
    by (simp add: example_server_def) blast
  then show ?thesis by (simp add: example_server_def upt_conv_Cons numeral_2_eq_2)
qed

end
