(* ===== verification/Server_Plain_File.thy ===== *)
theory Server_Plain_File
  imports Server_Properties
begin

text \<open>
  The server on a machine where the driver is not loaded. \<^verbatim>\<open>open\<close> with \<^verbatim>\<open>O_CREAT\<close> then makes
  \<^verbatim>\<open>/dev/aesdchar\<close> a regular file, and the server runs on it as it does on the device. The difference
  is what the position of a file means: a write with \<^verbatim>\<open>O_APPEND\<close> leaves it at the end of a regular
  file, while \<^verbatim>\<open>aesd_write\<close> leaves it where it was.
\<close>

section \<open>The machine\<close>

record pnode =
  stored :: "byte list"              \<comment> \<open>the regular file\<close>
  offset :: nat                      \<comment> \<open>the position of the open file\<close>
  p_inbox :: "byte list list"
  p_outbox :: "byte list"
  p_accepts :: "nat list"
  p_behind :: "byte list"
  p_clients :: "byte list list list"
  p_delivered :: "byte list list"

definition plain_open :: "byte list \<Rightarrow> pnode \<Rightarrow> fault + (int \<times> pnode)" where
  "plain_open path w = (if path = OUT_FILE then Inr (DEV_FD, w\<lparr>offset := 0\<rparr>) else Inr (TMP_FD, w))"

definition plain_read :: "int \<Rightarrow> nat \<Rightarrow> pnode \<Rightarrow> fault + (io_read \<times> pnode)" where
  "plain_read fd n w =
     (if fd = DEV_FD then
        (let bs = take n (drop (offset w) (stored w)) in Inr (Got bs, w\<lparr>offset := offset w + length bs\<rparr>))
      else
        (case p_inbox w of
           [] \<Rightarrow> Inr (Got [], w)
         | c # cs \<Rightarrow> Inr (Got (take n c), w\<lparr>p_inbox := (if length c \<le> n then cs else drop n c # cs)\<rparr>)))"

definition plain_write :: "int \<Rightarrow> byte list \<Rightarrow> pnode \<Rightarrow> fault + (io_write \<times> pnode)" where
  "plain_write fd bs w =
     (if fd = DEV_FD then
        Inr (Wrote (length bs), w\<lparr>stored := stored w @ bs, offset := length (stored w @ bs)\<rparr>)
      else if fd = TMP_FD then Inr (Wrote (length bs), w)
      else
        (case p_accepts w of
           [] \<Rightarrow> Inr (Wrote (length bs), w\<lparr>p_outbox := p_outbox w @ bs\<rparr>)
         | 0 # ps \<Rightarrow> Inr (Write_EINTR, w\<lparr>p_accepts := ps\<rparr>)
         | k # ps \<Rightarrow> Inr (Wrote (min k (length bs)), w\<lparr>p_accepts := ps, p_outbox := p_outbox w @ take k bs\<rparr>)))"

text \<open>The signal arrives when no client is left; \<^verbatim>\<open>ioctl\<close> fails on a regular file.\<close>

definition plain_accept :: "int \<Rightarrow> pnode \<Rightarrow> int \<times> bool \<times> pnode" where
  "plain_accept sock w =
     (case p_clients w of
        [] \<Rightarrow> (- 1, True, w)
      | c # cs \<Rightarrow> (CLIENT_FD, False,
          w\<lparr>p_clients := cs, p_inbox := c, p_outbox := [], p_delivered := p_delivered w @ [p_outbox w]\<rparr>))"

definition plain_os :: "pnode os" where
  "plain_os = \<lparr>sys_open = plain_open, sys_close = \<lambda>_ w. w, sys_unlink = \<lambda>_ w. w,
     sys_read = plain_read, sys_write = plain_write, sys_ioctl = \<lambda>_ _ _ w. Inr w,
     sys_malloc = \<lambda>_ w. (True, w), behind_block = p_behind, sys_pthread_create = \<lambda>w. (True, w),
     sys_accept = plain_accept, sys_signal = \<lambda>_. False\<rparr>"

lemma plain_os_simps [simp]:
  "sys_open plain_os = plain_open" "sys_close plain_os = (\<lambda>_ w. w)" "sys_unlink plain_os = (\<lambda>_ w. w)"
  "sys_read plain_os = plain_read" "sys_write plain_os = plain_write" "sys_ioctl plain_os = (\<lambda>_ _ _ w. Inr w)"
  "sys_malloc plain_os = (\<lambda>_ w. (True, w))" "behind_block plain_os = p_behind"
  "sys_pthread_create plain_os = (\<lambda>w. (True, w))" "sys_accept plain_os = plain_accept"
  "sys_signal plain_os = (\<lambda>_. False)"
  by (simp_all add: plain_os_def)

lemma malloc_plain [simp]: "malloc plain_os n s = (True, s\<lparr>live_blocks := live_blocks s + 1\<rparr>)"
  by (simp add: malloc_def)

lemma close_fd_plain [simp]: "close_fd plain_os fd s = s\<lparr>open_fds := remove1 fd (open_fds s)\<rparr>"
  by (simp add: close_fd_def)

section \<open>Reading the file and writing to the client\<close>

text \<open>What sending to a client does not touch.\<close>

definition p_frame :: "pnode \<Rightarrow> byte list \<times> byte list \<times> byte list list \<times> byte list list list \<times> byte list list" where
  "p_frame w = (stored w, p_behind w, p_inbox w, p_clients w, p_delivered w)"

definition plain_rep ::
  "int \<Rightarrow> byte list \<times> byte list \<times> byte list list \<times> byte list list list \<times> byte list list \<Rightarrow> pnode \<Rightarrow>
   byte list \<Rightarrow> byte list \<Rightarrow> bool" where
  "plain_rep c fr w rest out \<longleftrightarrow> client_fd c \<and> p_frame w = fr \<and> p_outbox w = out \<and> rest = drop (offset w) (stored w)"

interpretation file_to_client: byte_relay plain_os DEV_FD c "plain_rep c fr" "\<lambda>w. length (p_accepts w)" for c fr
proof unfold_locales
  fix w rest out
  assume "plain_rep c fr w rest out"
  then show "\<exists>w'. sys_read plain_os DEV_FD BUF_SIZE w = Inr (Got (take BUF_SIZE rest), w') \<and>
      plain_rep c fr w' (drop BUF_SIZE rest) out"
    by (auto simp: plain_read_def plain_rep_def p_frame_def Let_def min_def add.commute)
next
  fix w rest out and bs :: "byte list"
  assume r: "plain_rep c fr w rest out" and bs: "bs \<noteq> []"
  show "(\<exists>n w'. sys_write plain_os c bs w = Inr (Wrote n, w') \<and> 0 < n \<and> n \<le> length bs \<and>
        plain_rep c fr w' rest (out @ take n bs)) \<or>
      (\<exists>w'. sys_write plain_os c bs w = Inr (Write_EINTR, w') \<and>
        length (p_accepts w') < length (p_accepts w) \<and> plain_rep c fr w' rest out)"
  proof (cases "p_accepts w")
    case Nil
    with r bs show ?thesis by (auto simp: plain_write_def plain_rep_def p_frame_def client_fd_def)
  next
    case (Cons k ps)
    with r bs show ?thesis
      by (cases k) (auto simp: plain_write_def plain_rep_def p_frame_def client_fd_def min_def)
  qed
qed

section \<open>One connection\<close>

text \<open>A message is a seek command or ordinary text; what it leaves in the file, and what comes back.\<close>

definition command :: "byte list \<Rightarrow> bool" where
  "command bs \<longleftrightarrow> (\<exists>x y. bs = seek_text x y @ [newline])"

definition file_after :: "byte list \<Rightarrow> byte list \<Rightarrow> byte list" where
  "file_after kept bs = (if command bs then kept else kept @ bs)"

definition reply_to :: "byte list \<Rightarrow> byte list \<Rightarrow> byte list" where
  "reply_to kept bs = (if command bs then kept else [])"

lemma command_not_ordinary: "command bs \<Longrightarrow> \<not> ordinary bs"
  by (auto simp: command_def ordinary_def seek_text_def SPECIAL_STR_PREFIX_def)

lemma command_size:
  assumes "command bs" shows "bs \<noteq> []" "length bs \<le> BUF_SIZE"
proof -
  obtain x y where "bs = seek_text x y @ [newline]" using assms by (auto simp: command_def)
  with seek_text_length [of x y] show "bs \<noteq> []" "length bs \<le> BUF_SIZE" by (simp_all add: BUF_SIZE_def)
qed

lemma plain_store:
  assumes "ordinary bs \<or> command bs" and "p_behind (world s) = nul # z" and "\<not> mutex_held s" and "offset (world s) = 0"
  shows "\<exists>w'. write_to_out_file plain_os DEV_FD bs s =
      Some (Inr (0, s\<lparr>world := w', live_blocks := Suc (live_blocks s)\<rparr>)) \<and>
    w' = (world s)\<lparr>stored := file_after (stored (world s)) bs, offset := offset w'\<rparr> \<and>
    drop (offset w') (stored w') = reply_to (stored (world s)) bs"
proof (cases "command bs")
  case True
  then obtain x y where bs: "bs = seek_text x y @ [newline]" by (auto simp: command_def)
  obtain mem where "parse_seek_command (length bs) (Some (bs @ nul # z)) =
      Inr (Some mem, Some \<lparr>write_cmd = x, write_cmd_offset = y\<rparr>)"
    using parse_seek_text [of "[newline]" "length bs" x y z] bs by (auto simp: crlf_def)
  with True assms(2-4) show ?thesis
    by (intro exI [of _ "world s"]) (simp add: write_to_out_file_unfold file_after_def reply_to_def)
next
  case False
  then have o: "ordinary bs" using assms(1) by simp
  obtain mem where p: "parse_seek_command (length bs) (Some (bs @ nul # z)) = Inr (Some mem, None)"
    using parse_ordinary [of bs "length bs" z] o by (auto simp: ordinary_def)
  let ?w = "(world s)\<lparr>stored := stored (world s) @ bs, offset := length (stored (world s) @ bs)\<rparr>"
    and ?s = "s\<lparr>mutex_held := True, live_blocks := Suc (live_blocks s)\<rparr>"
  have "write_all plain_os DEV_FD bs ?s = Some (Inr (0, ?s\<lparr>world := ?w\<rparr>))"
    using write_all_whole [of plain_os DEV_FD bs ?s] o by (simp add: plain_write_def ordinary_def)
  with False p assms(2,3) show ?thesis
    by (intro exI [of _ ?w]) (simp add: write_to_out_file_unfold file_after_def reply_to_def)
qed

lemma plain_receive:
  assumes "client_fd c" and "p_inbox (world s) = bs # cs" and "bs \<noteq> []" "length bs \<le> BUF_SIZE"
  shows "receive_loop plain_os c TMP_FD (Some 0) s =
    Some (Inr ((Some 0, bs), s\<lparr>world := (world s)\<lparr>p_inbox := cs\<rparr>\<rparr>))"
proof -
  have "plain_read c BUF_SIZE (world s) = Inr (Got bs, (world s)\<lparr>p_inbox := cs\<rparr>)"
    using assms by (simp add: plain_read_def client_fd_def)
  moreover have "write_all plain_os TMP_FD bs s' = Some (Inr (0, s'))" for s'
    using write_all_whole [of plain_os TMP_FD bs s' "world s'"] by (simp add: plain_write_def)
  ultimately show ?thesis using assms(3) by (subst receive_loop.simps) simp
qed

lemma plain_connection:
  assumes c: "client_fd c" and inb: "p_inbox (world s) = bs # cs" and bs: "ordinary bs \<or> command bs"
    and b: "p_behind (world s) = nul # z" and m: "\<not> mutex_held s" and live: "0 < live_blocks s"
  shows "\<exists>w'. proc_new_connection plain_os c s =
      Some (Inr (Some 0, s\<lparr>open_fds := remove1 c (open_fds s), world := w', live_blocks := Suc (live_blocks s)\<rparr>)) \<and>
    p_outbox w' = p_outbox (world s) @ reply_to (stored (world s)) bs \<and>
    p_frame w' = (file_after (stored (world s)) bs, p_behind (world s), cs, p_clients (world s), p_delivered (world s))"
proof -
  have size: "bs \<noteq> []" "length bs \<le> BUF_SIZE" using bs command_size by (auto simp: ordinary_def)
  let ?s1 = "s\<lparr>open_fds := TMP_FD # open_fds s\<rparr>"
  let ?s2 = "s\<lparr>world := (world s)\<lparr>p_inbox := cs, offset := 0\<rparr>, open_fds := DEV_FD # open_fds s\<rparr>"
  have rec: "receive_loop plain_os c TMP_FD (Some 0) ?s1 =
      Some (Inr ((Some 0, bs), ?s1\<lparr>world := (world s)\<lparr>p_inbox := cs\<rparr>\<rparr>))"
    using plain_receive [OF c, of ?s1 bs cs] inb size by simp
  obtain w where w: "write_to_out_file plain_os DEV_FD bs ?s2 =
      Some (Inr (0, ?s2\<lparr>world := w, live_blocks := Suc (live_blocks s)\<rparr>))"
    "w = (world ?s2)\<lparr>stored := file_after (stored (world s)) bs, offset := offset w\<rparr>"
    "drop (offset w) (stored w) = reply_to (stored (world s)) bs"
    using plain_store [of bs ?s2 z] bs b m by auto
  let ?s3 = "?s2\<lparr>world := w, live_blocks := Suc (live_blocks s)\<rparr>"
  have fields: "p_frame w = (file_after (stored (world s)) bs, p_behind (world s), cs, p_clients (world s), p_delivered (world s))"
    "p_outbox w = p_outbox (world s)"
    by (subst w(2), simp add: p_frame_def)+
  then have "plain_rep c (p_frame w) (world ?s3) (reply_to (stored (world s)) bs) (p_outbox (world s))"
    using c w(3) by (simp add: plain_rep_def)
  from file_to_client.send_back_sends [OF this] obtain w' where w':
    "send_back_loop plain_os DEV_FD c 0 ?s3 = Some (Inr (0, ?s3\<lparr>world := w'\<rparr>))"
    "p_frame w' = p_frame w" "p_outbox w' = p_outbox (world s) @ reply_to (stored (world s)) bs"
    by (auto simp: plain_rep_def)
  have "Suc (live_blocks s - 1) = live_blocks s" using live by simp
  then show ?thesis
    using rec w(1) w' fields(1) c
    by (intro exI [of _ w'])
      (simp add: proc_new_connection_def free_block_def open_file_def plain_open_def Let_def client_fd_def)
qed

section \<open>All clients\<close>

text \<open>The file and the replies after a number of messages.\<close>

primrec replies :: "byte list \<Rightarrow> byte list list \<Rightarrow> byte list list" where
  "replies kept [] = []"
| "replies kept (bs # bss) = reply_to kept bs # replies (file_after kept bs) bss"

lemma plain_loop:
  assumes "p_clients (world s) = map (\<lambda>bs. [bs]) bss" and "\<forall>bs \<in> set bss. ordinary bs \<or> command bs"
    and "p_behind (world s) = nul # z" and "\<not> mutex_held s" and "\<not> quit_sig s" and "\<not> timer_error_flag s"
  shows "\<exists>w'. accept_loop plain_os sock s =
      Some (Inr ((), s\<lparr>world := w', live_blocks := live_blocks s + length bss, quit_sig := True\<rparr>)) \<and>
    stored w' = foldl file_after (stored (world s)) bss \<and>
    p_delivered w' @ [p_outbox w'] = p_delivered (world s) @ [p_outbox (world s)] @ replies (stored (world s)) bss"
  using assms
proof (induction bss arbitrary: s)
  case Nil
  then show ?case
    by (subst accept_loop.simps) (auto simp: plain_accept_def sig_handler_def Let_def intro!: exI [of _ "world s"])
next
  case (Cons bs bss)
  let ?w = "(world s)\<lparr>p_clients := map (\<lambda>bs. [bs]) bss, p_inbox := [bs], p_outbox := [],
    p_delivered := p_delivered (world s) @ [p_outbox (world s)]\<rparr>"
  let ?s = "s\<lparr>world := ?w, open_fds := CLIENT_FD # open_fds s, live_blocks := Suc (live_blocks s)\<rparr>"
  obtain w1 where w1: "proc_new_connection plain_os CLIENT_FD ?s =
      Some (Inr (Some 0, ?s\<lparr>open_fds := remove1 CLIENT_FD (open_fds ?s), world := w1, live_blocks := Suc (live_blocks ?s)\<rparr>))"
    "p_outbox w1 = reply_to (stored (world s)) bs"
    "p_frame w1 = (file_after (stored (world s)) bs, p_behind (world s), [], map (\<lambda>bs. [bs]) bss,
       p_delivered (world s) @ [p_outbox (world s)])"
    using plain_connection [of CLIENT_FD ?s bs "[]" z] Cons.prems by auto
  let ?s1 = "s\<lparr>world := w1, live_blocks := Suc (live_blocks s)\<rparr>"
  have "accept_loop plain_os sock s = accept_loop plain_os sock ?s1"
    using Cons.prems(1,5,6) w1(1)
    by (subst accept_loop.simps) (simp add: plain_accept_def create_thread_and_run_def free_block_def Let_def)
  moreover obtain w' where "accept_loop plain_os sock ?s1 =
        Some (Inr ((), ?s1\<lparr>world := w', live_blocks := live_blocks ?s1 + length bss, quit_sig := True\<rparr>))"
      "stored w' = foldl file_after (stored (world ?s1)) bss"
      "p_delivered w' @ [p_outbox w'] = p_delivered (world ?s1) @ [p_outbox (world ?s1)] @ replies (stored (world ?s1)) bss"
    using Cons.IH [of ?s1] Cons.prems w1(3) by (auto simp: p_frame_def)
  ultimately show ?case
    using w1(2,3) by (intro exI [of _ w']) (simp add: p_frame_def)
qed

definition texts :: "byte list list \<Rightarrow> byte list" where
  "texts bss = concat (filter (\<lambda>bs. \<not> command bs) bss)"

lemma files_after: "foldl file_after kept bss = kept @ texts bss"
  by (induction bss arbitrary: kept) (auto simp: file_after_def texts_def)

lemma replies_nth:
  "replies kept bss = map (\<lambda>i. if command (bss ! i) then kept @ texts (take i bss) else []) [0..<length bss]"
proof (induction bss arbitrary: kept)
  case (Cons bs bss)
  have "[0..<length (bs # bss)] = 0 # map Suc [0..<length bss]"
    by (simp add: map_Suc_upt upt_conv_Cons del: upt_Suc)
  then show ?case by (simp add: Cons.IH o_def reply_to_def file_after_def texts_def del: upt_Suc cong: if_cong)
qed simp

text \<open>
  C10: without the driver no client gets anything back. If \<^verbatim>\<open>/dev/aesdchar\<close> is a regular file, which is
  what the server makes of it when the driver is not loaded, \<^verbatim>\<open>main\<close> still serves every client and ends
  on the signal with status 0, and the file keeps every text in order. But the server reads on where
  its write has left the position, at the end: a client that sends text receives nothing. Only one
  that sends a seek command, which is not stored, receives bytes, and these are the whole file whatever
  the command asks for.
\<close>

theorem server_needs_the_driver:
  assumes "p_clients (world s) = map (\<lambda>bs. [bs]) bss" and "\<forall>bs \<in> set bss. ordinary bs \<or> command bs"
    and "p_behind (world s) = nul # z" and "\<not> mutex_held s" and "\<not> quit_sig s" and "\<not> timer_error_flag s" and "sock \<noteq> - 1"
  shows "\<exists>s'. server_main plain_os sock True True True True s = Some (Inr (0, s')) \<and>
    stored (world s') = stored (world s) @ texts bss \<and>
    p_delivered (world s') @ [p_outbox (world s')] = p_delivered (world s) @ [p_outbox (world s)] @
      map (\<lambda>i. if command (bss ! i) then stored (world s) @ texts (take i bss) else []) [0..<length bss] \<and>
    open_fds s' = open_fds s \<and> live_blocks s' = live_blocks s + length bss"
proof -
  let ?s = "s\<lparr>open_fds := sock # open_fds s\<rparr>"
  obtain w' where "accept_loop plain_os sock ?s =
      Some (Inr ((), ?s\<lparr>world := w', live_blocks := live_blocks ?s + length bss, quit_sig := True\<rparr>))"
    "stored w' = stored (world s) @ texts bss"
    "p_delivered w' @ [p_outbox w'] = p_delivered (world s) @ [p_outbox (world s)] @ replies (stored (world s)) bss"
    using plain_loop [of ?s bss z sock] assms(1-6) by (auto simp: files_after)
  then show ?thesis
    using assms(7) by (simp add: server_main_def free_block_def replies_nth)
qed

text \<open>A client that sends a line, and one that seeks.\<close>

definition example_plain :: "pnode server" where
  "example_plain =
     \<lparr>world = \<lparr>stored = ''ab'' @ [newline], offset = 0, p_inbox = [], p_outbox = [], p_accepts = [2, 0, 1], p_behind = [nul],
        p_clients = [[''c'' @ [newline]], [seek_text 1 0 @ [newline]]], p_delivered = []\<rparr>,
      mutex_held = False, quit_sig = False, timer_error_flag = False, open_fds = [], live_blocks = 1\<rparr>"

lemma server_needs_the_driver_witness:
  "\<exists>s'. server_main plain_os 3 True True True True example_plain = Some (Inr (0, s')) \<and>
     stored (world s') = ''ab'' @ [newline] @ ''c'' @ [newline] \<and>
     p_delivered (world s') @ [p_outbox (world s')] = [[], [], ''ab'' @ [newline] @ ''c'' @ [newline]]"
proof -
  let ?bss = "[''c'' @ [newline], seek_text 1 0 @ [newline]]"
  have o: "ordinary (''c'' @ [newline])" by (simp add: ordinary_def SPECIAL_STR_PREFIX_def BUF_SIZE_def)
  then have "\<not> command (''c'' @ [newline])" using command_not_ordinary by blast
  moreover have "command (seek_text 1 0 @ [newline])" unfolding command_def by blast
  moreover have "p_clients (world example_plain) = map (\<lambda>bs. [bs]) ?bss" by (simp add: example_plain_def)
  ultimately show ?thesis
    using server_needs_the_driver [of example_plain ?bss "[]" 3] o
    by (auto simp: example_plain_def texts_def upt_conv_Cons)
qed

end
