(* ===== verification/Test_Scripts.thy ===== *)
theory Test_Scripts
  imports Shell
begin

text \<open>
  The scripts that run the tests, \<^verbatim>\<open>unit-test.sh\<close>, \<^verbatim>\<open>test-unit.sh\<close>, \<^verbatim>\<open>full-test.sh\<close> and
  \<^verbatim>\<open>test.sh\<close>, and the one that starts and stops the server. The programs that they call are not in the
  repository: \<open>run\<close> says what a command does to the files when it is called in a directory, and its
  exit status. Directories are given relative to the one of the scripts. What goes to the log file is
  left out.
\<close>

type_synonym commands = "path \<Rightarrow> byte list list \<Rightarrow> files \<Rightarrow> files \<times> nat"

definition is_file :: "files \<Rightarrow> path \<Rightarrow> bool" where
  "is_file fs p \<longleftrightarrow> cat fs p \<noteq> None"

section \<open>The unit tests\<close>

definition AUTOTEST :: path where "AUTOTEST = ''./build/assignment-autotest/assignment-autotest''"

text \<open>\<^verbatim>\<open>cd build\<close>, which stays where it is when it fails, and \<^verbatim>\<open>cd ..\<close>.\<close>

definition cd_build :: "files \<Rightarrow> path" where
  "cd_build fs = (if is_dir fs ''build'' then ''build'' else ''.'')"

definition cd_up :: "path \<Rightarrow> path" where
  "cd_up cwd = (if cwd = ''build'' then ''.'' else ''..'')"

text \<open>\<^verbatim>\<open>unit-test.sh\<close> looks at no status; its own is that of the last command.\<close>

definition unit_test_sh :: "commands \<Rightarrow> files \<Rightarrow> files \<times> nat" where
  "unit_test_sh run fs =
     (let fs = fst (mkdir_p ''build'' fs); cwd = cd_build fs;
          fs = fst (run cwd [''cmake'', ''..''] fs);
          fs = fst (run cwd [''make'', ''clean''] fs);
          fs = fst (run cwd [''make''] fs)
      in run (cd_up cwd) [AUTOTEST] fs)"

text \<open>\<^verbatim>\<open>test-unit.sh\<close> is the same with the status of each step of the build looked at.\<close>

definition test_unit_sh :: "commands \<Rightarrow> files \<Rightarrow> files \<times> nat" where
  "test_unit_sh run fs =
     (let fs = fst (mkdir_p ''build'' fs); cwd = cd_build fs; (fs, status) = run cwd [''cmake'', ''..''] fs in
      if status \<noteq> 0 then (fs, 1)
      else
        (let (fs, status) = run cwd [''make'', ''clean''] fs in
         if status \<noteq> 0 then (fs, 1)
         else
           (let (fs, status) = run cwd [''make''] fs in
            if status \<noteq> 0 then (fs, 1) else run (cd_up cwd) [AUTOTEST] fs)))"

section \<open>The test of an assignment\<close>

definition ASSIGNMENT :: path where "ASSIGNMENT = ''conf/assignment.txt''"

definition assignment_test :: "byte list \<Rightarrow> path" where
  "assignment_test assignment = ''./assignment-autotest/test/'' @ assignment @ ''/assignment-test.sh''"

text \<open>\<^verbatim>\<open>full-test.sh\<close>; \<open>here\<close> is what \<^verbatim>\<open>pwd\<close> prints. Names of assignments are plain words.\<close>

definition full_test_sh :: "commands \<Rightarrow> byte list \<Rightarrow> files \<Rightarrow> files \<times> nat" where
  "full_test_sh run here fs =
     (let (fs, unit_test_rc) = unit_test_sh run fs in
      case cat fs ASSIGNMENT of
        None \<Rightarrow> (fs, 1)
      | Some c \<Rightarrow>
          (let script = assignment_test (substitution c) in
           if is_file fs script then
             (let (fs, rc) = run ''.'' [script, here] fs in if rc = 0 then (fs, unit_test_rc) else (fs, rc))
           else (fs, 1)))"

text \<open>
  \<^verbatim>\<open>test.sh\<close>: \<^verbatim>\<open>set -e\<close> ends it with the first status that is not 0. The options for containers are
  read and used by files of a submodule.
\<close>

definition test_sh :: "commands \<Rightarrow> byte list list \<Rightarrow> files \<Rightarrow> files \<times> nat" where
  "test_sh run args fs =
     (let options = ''./assignment-autotest/docker/options'';
          (fs, status) =
            (if is_file fs options then
               (let (fs, status) = run ''.'' [''.'', options] fs in
                if status \<noteq> 0 then (fs, status) else run ''.'' (''parse_docker_options'' # args) fs)
             else (fs, 0))
      in
      if status \<noteq> 0 then (fs, status)
      else
        (let (fs, status) = test_unit_sh run fs in
         if status \<noteq> 0 then (fs, status)
         else
           (case cat fs ASSIGNMENT of
              None \<Rightarrow> (fs, 0)
            | Some c \<Rightarrow>
                (let script = assignment_test (substitution c) in
                 if is_file fs script then run ''.'' [script] fs else (fs, 0)))))"

section \<open>What the scripts report\<close>

text \<open>A command that succeeds.\<close>

definition succeeds :: "files \<times> nat \<Rightarrow> bool" where
  "succeeds r \<longleftrightarrow> snd r = 0"

text \<open>The three steps of the build, each run on what the one before has left, all of them with status 0.\<close>

definition builds :: "commands \<Rightarrow> files \<Rightarrow> bool" where
  "builds run fs \<longleftrightarrow>
     (let fs0 = fst (mkdir_p ''build'' fs); cwd = cd_build fs0;
          r1 = run cwd [''cmake'', ''..''] fs0; r2 = run cwd [''make'', ''clean''] (fst r1); r3 = run cwd [''make''] (fst r2)
      in succeeds r1 \<and> succeeds r2 \<and> succeeds r3)"

text \<open>What the steps leave when each of them is run whether or not the one before has failed, and where the tests are then run.\<close>

definition left_by_build :: "commands \<Rightarrow> files \<Rightarrow> files" where
  "left_by_build run fs =
     (let fs0 = fst (mkdir_p ''build'' fs) in
      foldl (\<lambda>fs step. fst (run (cd_build fs0) step fs)) fs0 [[''cmake'', ''..''], [''make'', ''clean''], [''make'']])"

definition tests_dir :: "files \<Rightarrow> path" where
  "tests_dir fs = cd_up (cd_build (fst (mkdir_p ''build'' fs)))"

lemma unit_tests_agree:
  "(builds run fs \<longrightarrow> test_unit_sh run fs = unit_test_sh run fs) \<and> (\<not> builds run fs \<longrightarrow> snd (test_unit_sh run fs) = 1)"
  by (simp add: builds_def succeeds_def test_unit_sh_def unit_test_sh_def Let_def case_prod_unfold)

lemma unit_test_runs_what_is_there: "unit_test_sh run fs = run (tests_dir fs) [AUTOTEST] (left_by_build run fs)"
  by (simp add: unit_test_sh_def left_by_build_def tests_dir_def Let_def)

text \<open>
  C29: when the tests pass. The two scripts for the unit tests do the same if every step of the build
  succeeds. If one does not, \<^verbatim>\<open>test-unit.sh\<close> fails with 1, and so does \<^verbatim>\<open>test.sh\<close> where there is no
  file with options for containers. \<^verbatim>\<open>unit-test.sh\<close> runs all the steps in any case, and then the test
  program that is there; its status is that of this program, which a failed build may have left from an
  earlier one. \<^verbatim>\<open>full-test.sh\<close> succeeds exactly if that program does, an assignment is configured, its
  test is there and succeeds.
\<close>

theorem when_the_tests_pass:
  shows "(builds run fs \<longrightarrow> test_unit_sh run fs = unit_test_sh run fs) \<and>
    (\<not> builds run fs \<longrightarrow> snd (test_unit_sh run fs) = 1 \<and>
      (\<not> is_file fs ''./assignment-autotest/docker/options'' \<longrightarrow> snd (test_sh run args fs) = 1)) \<and>
    unit_test_sh run fs = run (tests_dir fs) [AUTOTEST] (left_by_build run fs) \<and>
    (snd (full_test_sh run here fs) = 0 \<longleftrightarrow>
      (let (fs1, status) = run (tests_dir fs) [AUTOTEST] (left_by_build run fs) in
       status = 0 \<and> (\<exists>c. cat fs1 ASSIGNMENT = Some c \<and>
         is_file fs1 (assignment_test (substitution c)) \<and>
         snd (run ''.'' [assignment_test (substitution c), here] fs1) = 0)))"
  using unit_tests_agree [of run fs]
  by (auto simp: full_test_sh_def test_sh_def Let_def case_prod_unfold unit_test_runs_what_is_there split: option.splits)

text \<open>Only \<^verbatim>\<open>make\<close> fails, and the program of an earlier build succeeds.\<close>

definition broken_build :: commands where
  "broken_build cwd ws fs = (fs, if ws = [''make''] then 2 else 0)"

lemma when_the_tests_pass_witness:
  "\<not> builds broken_build [] \<and> snd (test_unit_sh broken_build []) = 1 \<and> snd (test_sh broken_build [] []) = 1 \<and>
   snd (unit_test_sh broken_build []) = 0"
proof -
  have "\<not> builds broken_build []" "\<not> is_file [] ''./assignment-autotest/docker/options''"
    "snd (broken_build (tests_dir []) [AUTOTEST] (left_by_build broken_build [])) = 0" by code_simp+
  with when_the_tests_pass [of broken_build "[]" "[]" "[]"] show ?thesis by simp
qed

section \<open>\<^verbatim>\<open>aesdsocket-start-stop\<close>\<close>

definition DAEMON_PATH :: path where "DAEMON_PATH = ''/usr/bin/aesdsocket''"
definition PIDFILE :: path where "PIDFILE = ''/var/run/aesdsocket.pid''"

text \<open>The words that \<^verbatim>\<open>start-stop-daemon\<close> is called with, and what it does with them, is an argument.\<close>

definition start_stop :: "(byte list list \<Rightarrow> 'm \<Rightarrow> 'm \<times> nat) \<Rightarrow> byte list list \<Rightarrow> 'm \<Rightarrow> 'm \<times> byte list \<times> nat" where
  "start_stop start_stop_daemon args m =
     (let arg = (case args of [] \<Rightarrow> [] | a # _ \<Rightarrow> a) in
      if arg = ''start'' then
        (fst (start_stop_daemon [''-S'', ''--make-pidfile'', ''--pidfile'', PIDFILE, ''--background'', ''--exec'', DAEMON_PATH] m),
         ''starting aesdsocket'' @ [newline], 0)
      else if arg = ''stop'' then
        (fst (start_stop_daemon [''-K'', ''--pidfile'', PIDFILE, ''--exec'', DAEMON_PATH] m),
         ''terminating aesdsocket'' @ [newline], 0)
      else (m, [], 0))"

lemma start_stop_reports_success: "snd (snd (start_stop ssd args m)) = 0"
  by (simp add: start_stop_def Let_def)

end
