(* ===== verification/Spec2Isabelle.thy ===== *)
theory Spec2Isabelle
  imports Driver_Properties Reader_Overlap Overlapping_Writers Server_Logging Threading Autotest_Validate
    Finder_App Service Server_Plain_File Test_Scripts
begin

text \<open>
  A verification library for the AESD assignments: a Linux character driver that keeps the last ten
  lines written to it (\<^verbatim>\<open>aesd-char-driver/\<close>), a socket server that stores what its clients
  send in the driver and sends the kept lines back (\<^verbatim>\<open>server/\<close>), four small programs
  (\<^verbatim>\<open>examples/systemcalls\<close>, \<^verbatim>\<open>examples/threading\<close>, \<^verbatim>\<open>examples/autotest-validate\<close>,
  \<^verbatim>\<open>finder-app/writer.c\<close>), and the scripts around them (\<^verbatim>\<open>finder.sh\<close>, \<^verbatim>\<open>writer.sh\<close>, \<^verbatim>\<open>finder-test.sh\<close>,
  \<^verbatim>\<open>aesdchar_load\<close>, \<^verbatim>\<open>aesdchar_unload\<close>, the scripts that run the tests and start the server).

  \<^bold>\<open>How the parts interact.\<close> A client sends a line to the server (\<^verbatim>\<open>aesdsocket.c\<close>). A thread
  reads it, opens \<^verbatim>\<open>/dev/aesdchar\<close> and, under a mutex, writes the line or, if it is a seek
  command, issues the \<^verbatim>\<open>ioctl\<close> \<^verbatim>\<open>AESDCHAR_IOCSEEKTO\<close>; then it reads the device to its end and
  sends the bytes to the client. The driver (\<^verbatim>\<open>main.c\<close>) copies data between user memory and the ring
  (\<^verbatim>\<open>aesd-circular-buffer.c\<close>), whose entries own blocks of the kernel heap. The driver is loaded by
  \<^verbatim>\<open>aesdchar_load\<close>, which makes the device file. \<^verbatim>\<open>finder-test.sh\<close> has \<^verbatim>\<open>writer\<close> write files and
  \<^verbatim>\<open>finder.sh\<close> count their lines.

  \<^bold>\<open>The theories.\<close>
  \<^item> \<^verbatim>\<open>Prelude\<close>: the type of faults and its bind, machine words as they are used everywhere,
    lemmas on lists and words.
  \<^item> \<^verbatim>\<open>Kernel_Heap\<close>: \<^verbatim>\<open>kmalloc\<close>, \<^verbatim>\<open>kfree\<close>, \<^verbatim>\<open>memcpy\<close>, \<^verbatim>\<open>memset\<close>, \<^verbatim>\<open>strlen\<close> on
    a heap of blocks with bounds. Null and dangling pointers, double frees and accesses outside a
    block are faults; which allocations fail and what new memory contains is arbitrary. The locale
    \<open>block_store\<close> is the contract the driver relies on; the heap is its interpretation \<open>kh\<close>.
  \<^item> \<^verbatim>\<open>Circular_Buffer\<close>: every function of \<^verbatim>\<open>aesd-circular-buffer.c\<close>, with the widths and
    conversions of C. The record \<open>aesd_circular_buffer\<close> is the structure of the same name, its
    loops are functions with a termination proof.
  \<^item> \<^verbatim>\<open>Char_Driver\<close>: the operations of \<^verbatim>\<open>main.c\<close> on the record \<open>driver\<close> (heap, the static
    \<^verbatim>\<open>tmp_entry\<close>, \<^verbatim>\<open>aesd_device\<close>, what is registered), loading and unloading.
  \<^item> \<^verbatim>\<open>Ring_Refinement\<close>, \<^verbatim>\<open>Ring_Read\<close>, \<^verbatim>\<open>Ring_Lookup\<close>: the abstract specification of the ring,
    a log of lines with pending bytes and a count of leaked blocks (\<open>line_log\<close>, \<open>log_add\<close>), the
    representation (\<open>cb_repr\<close>), and each operation as a function of the log: adding appends
    (\<open>add_entry_refines\<close>), reading serves \<open>served\<close>, the lookups are \<open>locate\<close> over the order of the
    array.
  \<^item> \<^verbatim>\<open>Line_Sink\<close>: the locale \<open>line_sink\<close> of things that take writes and represent the log;
    sequences of writes. \<^verbatim>\<open>Driver_Refinement\<close>: the invariant \<open>drv_repr\<close> of the driver, including
    the census of live kernel blocks, and the interpretation \<open>dev\<close> of \<open>line_sink\<close>.
  \<^item> \<^verbatim>\<open>Driver_Properties\<close>, \<^verbatim>\<open>Driver_Control\<close>, \<^verbatim>\<open>Driver_Faults\<close>: the properties of the driver:
    writing, reading and positions; seeking and \<^verbatim>\<open>ioctl\<close>; failures, loading and unloading.
  \<^item> \<^verbatim>\<open>File_Operations\<close>: the table \<^verbatim>\<open>aesd_fops\<close> with every call and argument, its specification
    \<open>log_call\<close> on the log, the locale \<open>file_refinement\<close> that carries the refinement of one call over
    to all sequences of calls, and its interpretation \<open>fops\<close>.
  \<^item> \<^verbatim>\<open>Ring_Types\<close>: the invariant \<open>ring_typed\<close> of the ring's fields, which needs nothing of the heap
    or of the users, and the loop macro of the header.
  \<^item> \<^verbatim>\<open>Racing_Writers\<close>: \<^verbatim>\<open>aesd_circular_buffer_add_entry\<close> one statement at a time (\<open>add_step\<close> on the
    locals \<open>writer\<close> and the shared state; a compound assignment, a call and a test are one statement each),
    schedules of several writers. \<^verbatim>\<open>Driver_Tracing\<close>: the
    functions that print strings with \<^verbatim>\<open>PDEBUG\<close>, compared by \<open>below\<close> with those that do not. \<^verbatim>\<open>Reader_Overlap\<close>: \<^verbatim>\<open>aesd_read\<close>
    between two statements of a writer. \<^verbatim>\<open>Serial_Writers\<close>: any number of writers one after the other.
    \<^verbatim>\<open>Overlapping_Writers\<close>: two writers under any schedule, by an invariant over the statements.
  \<^item> \<^verbatim>\<open>Seek_Command\<close>: \<^verbatim>\<open>trim_crlf\<close>, \<^verbatim>\<open>parse_seek_command\<close> and the \<^verbatim>\<open>sscanf\<close> format they use.
  \<^item> \<^verbatim>\<open>Socket_Server\<close>: every compiled function of \<^verbatim>\<open>aesdsocket.c\<close>, over a record \<open>os\<close> of system
    calls. \<^verbatim>\<open>Server_Relay\<close>: the locales \<open>byte_sink\<close> and \<open>byte_relay\<close> and the two loops over them.
    \<^verbatim>\<open>Server_Node\<close>: a machine whose device file is the driver's model, the interpretation
    \<open>dev_to_client\<close>, and the properties of one connection. \<^verbatim>\<open>Server_Properties\<close>: runs of it, and
    the properties of the server for every operating system. \<^verbatim>\<open>Server_Clients\<close>: \<^verbatim>\<open>main\<close> with its
    clients one after the other, and the time stamps. \<^verbatim>\<open>Server_Logging\<close>: the one \<^verbatim>\<open>syslog\<close> whose
    argument is a buffer. \<^verbatim>\<open>Server_Invariants\<close>: the locale \<open>world_invariant\<close>, by which what the system
    calls keep is kept by the server, and its interpretation \<open>sound\<close> on the machine with the driver.
    \<^verbatim>\<open>Server_Plain_File\<close>: the machine without the driver, where the device file is a regular file, and
    the interpretation \<open>file_to_client\<close>.
  \<^item> \<^verbatim>\<open>Systemcalls\<close>: \<^verbatim>\<open>do_system\<close>, \<^verbatim>\<open>do_exec\<close>, \<^verbatim>\<open>do_exec_redirect\<close> with both processes after
    \<^verbatim>\<open>fork\<close>, and \<^verbatim>\<open>writer\<close>. \<^verbatim>\<open>Threading\<close>: \<^verbatim>\<open>threadfunc\<close> as a step relation on a pool of
    threads. \<^verbatim>\<open>Autotest_Validate\<close>: the constants of \<^verbatim>\<open>autotest-validate\<close> and its unit test.
  \<^item> \<^verbatim>\<open>Shell\<close>: files and directories, the expansion of words, and the utilities that the scripts call.
    What shells do differently (also the status of a failed sum and of a failed redirection), and \<^verbatim>\<open>grep\<close>,
    are fields of the record \<open>shell\<close>.
    \<^verbatim>\<open>Finder_App\<close>: \<^verbatim>\<open>writer.sh\<close>, \<^verbatim>\<open>finder.sh\<close> and \<^verbatim>\<open>finder-test.sh\<close>, the last with \<^verbatim>\<open>writer_main\<close> of
    \<^verbatim>\<open>Systemcalls\<close> and with whatever is found as \<^verbatim>\<open>finder.sh\<close> as an argument (\<open>finder_test_with\<close>). \<^verbatim>\<open>Module_Scripts\<close>: \<^verbatim>\<open>aesdchar_load\<close> and \<^verbatim>\<open>aesdchar_unload\<close> on the record
    \<open>machine\<close>, with the module's own loading and unloading; a module with users is not unloaded. \<^verbatim>\<open>Service\<close>: loading, serving and unloading
    together. \<^verbatim>\<open>Test_Scripts\<close>: \<^verbatim>\<open>unit-test.sh\<close>, \<^verbatim>\<open>test-unit.sh\<close>, \<^verbatim>\<open>full-test.sh\<close>, \<^verbatim>\<open>test.sh\<close>,
    \<^verbatim>\<open>aesdsocket-start-stop\<close> over the commands they call.

  \<^bold>\<open>What is shown.\<close> The driver refines an append-only log as long as allocations succeed: no byte
  is lost or moved, no fault occurs, and the heap holds exactly the blocks accounted for. More
  generally any sequence of file operations, through any number of files and with any arguments,
  gives the replies, positions and faults of a specification that knows the log only
  (\<open>any_calls_refine_log\<close>). The types of the ring's fields hold without any assumption. A read is
  characterised for every state and position. Reads are right until the tenth line, and later when
  the array starts with the oldest line or the lines have one length; otherwise the offset is
  looked up in the wrong order, which can serve wrong bytes or leave a line's memory, and a file
  opened after the eleventh line cannot be read. A client of the server gets the kept lines back
  until then, and nothing afterwards; \<^verbatim>\<open>main\<close> serves any number of clients one after the other that way and ends
  with the signal. Without the driver the
  device file becomes a regular file, and the clients get nothing back. Seek commands work through the whole system for up to ten
  lines. The loops of the server return when the descriptors take bytes and are interrupted only
  finitely often. The threads exclude each other and all finish,
  having slept as asked. Calls of the driver that do not overlap are what the other theories say;
  two writers that do overlap, which nothing prevents, can be interleaved into a use of freed
  memory, and if each writes a whole line no schedule in which they overlap takes both to the end without a
  fault (\<open>overlapping_writers_fault\<close>); a writer and a reader can meet in freed memory too; writers that
  wait for each other append their lines in order. The log message with the received bytes shows the stack
  behind them. \<^verbatim>\<open>finder.sh\<close> counts every file of the directory, so its test, which writes matching files only
  and compares nothing, finds what it announces. \<^verbatim>\<open>writer.sh\<close> makes the directory of its file and adds
  a newline, which \<^verbatim>\<open>writer\<close> does not. Loading and unloading by the scripts leaves nothing behind
  until memory is short once, after which no run of the scripts makes the device file again; with the server
  in between, a block of memory for each of the last ten lines stays behind. The driver with its messages, as the
  source compiles it, takes one line and that only with a zero in it: a write of text makes a message read behind
  a block, and after one line the next write makes a message read a block that was released. The lookup that the header of the ring
  documents stays inside the array wherever it starts. \<^verbatim>\<open>finder-test.sh\<close> judges by the exit status of \<^verbatim>\<open>finder.sh\<close>
  alone; \<^verbatim>\<open>unit-test.sh\<close> runs the test program that is there, whether or not the build succeeded. The error
  paths of each component are stated as they are.

  \<^bold>\<open>Bounds.\<close> An allocation serves at most 4 MiB (\<open>KMALLOC_MAX_SIZE\<close>, pages of 4 KiB and order
  10), so the ten entries have at most 40 MiB, far below the 31 bits of the \<^verbatim>\<open>int\<close> in which the
  lookups add sizes. The ring's counters have 32 bits: a write is covered up to \<open>2^32\<close> lines, a read
  up to \<open>2^31\<close> lines and \<open>2^32\<close> bytes in total, sequences of calls up to \<open>2^31\<close> bytes written; the \<^verbatim>\<open>ioctl\<close> is
  stated with its wrap-around. No
  fuel is used: the driver's loops terminate by a measure, the server's are partial functions whose
  undefined value means that the call never returns.

  \<^bold>\<open>What is not modelled.\<close> Every compiled function of the C files is; left out are: what the messages say
  (\<^verbatim>\<open>PDEBUG\<close>, \<^verbatim>\<open>printk\<close>, \<^verbatim>\<open>syslog\<close>, \<^verbatim>\<open>perror\<close>), and that they read memory, which is in
  \<^verbatim>\<open>Driver_Tracing\<close> and \<^verbatim>\<open>Server_Logging\<close> only, so the statements elsewhere that no fault occurs are about the code
  without its messages; code under \<^verbatim>\<open>#if 0\<close>, the setup of \<^verbatim>\<open>cdev\<close> beyond its registration, the addresses the server
  resolves. The driver's mutex is never taken by the source: its operations are whole calls
  everywhere except in \<^verbatim>\<open>Racing_Writers\<close> and \<^verbatim>\<open>Overlapping_Writers\<close>, where additions to the ring interleave statement by
  statement, and in \<^verbatim>\<open>Reader_Overlap\<close>, where a whole read falls between two of these statements;
  the statements of a reader are not interleaved. What the kernel's file layer does
  with the position that a call returns is an argument (\<open>keep\<close>). A signal reaches the server while \<^verbatim>\<open>accept\<close> waits or while a client is served. In \<^verbatim>\<open>Threading\<close> a
  sleep is a step that records its argument and takes no time. Paths are compared as they are
  written. The scripts that build the kernel and run the emulator are left out: they only call tools
  outside the repository; \<^verbatim>\<open>finder-test_1.sh\<close> is an older copy of the test.
\<close>

end
